(* ===== verification/Rust_Str.thy ===== *)
theory Rust_Str
  imports Rust_Prelude "HOL-Library.Char_ord" "HOL-Library.List_Lexorder"
begin

text \<open>
  The parts of \<open>str\<close> the code uses. A \<open>&str\<close> or \<open>String\<close> is the list of its UTF-8 bytes, written
  as a HOL \<open>string\<close>; the conversions to and from byte buffers are \<open>str_bytes\<close> and \<open>from_utf8\<close>.
  Modelled are trimming (Unicode White_Space), splitting, prefixes, ASCII case, the decimal parser
  of the unsigned integers (an optional plus sign, at least one digit, an error on overflow),
  decimal printing and UTF-8 validity. Strings are ordered by their bytes, and a \<open>BTreeMap\<close> is the
  list of its entries in key order.
\<close>

named_theorems str_simps \<open>evaluation of the string operations\<close>

abbreviation code :: "char \<Rightarrow> nat" where "code c \<equiv> of_char c"

section \<open>Strings and bytes\<close>

definition str_bytes :: "string \<Rightarrow> bytes" where
  "str_bytes s = map (\<lambda>c. of_nat (code c)) s"

definition bytes_str :: "bytes \<Rightarrow> string" where
  "bytes_str bs = map (\<lambda>b. char_of (unat b)) bs"

lemma length_str_bytes [simp]: "length (str_bytes s) = length s"
  by (simp add: str_bytes_def)

lemma length_bytes_str [simp]: "length (bytes_str s) = length s"
  by (simp add: bytes_str_def)

lemma str_bytes_append [simp]: "str_bytes (a @ b) = str_bytes a @ str_bytes b"
  by (simp add: str_bytes_def)

lemma code_less [simp]: "code c < 256"
  using of_char_of [of "code c"] by (metis of_char_mod_256 mod_less_divisor zero_less_numeral)

lemma bytes_str_inverse [simp]: "bytes_str (str_bytes s) = s"
proof -
  have "char_of (unat (of_nat (code c) :: u8)) = c" for c :: char
    using code_less [of c] by (simp add: unsigned_of_nat take_bit_eq_mod del: code_less)
  then show ?thesis by (simp add: bytes_str_def str_bytes_def comp_def)
qed

lemma str_bytes_inverse [simp]: "str_bytes (bytes_str bs) = bs"
proof -
  have "of_nat (code (char_of (unat b))) = b" for b :: u8
    using unsigned_less [of b, where ?'a = nat] by simp
  then show ?thesis by (simp add: bytes_str_def str_bytes_def comp_def)
qed

lemma str_bytes_inject [simp]: "str_bytes a = str_bytes b \<longleftrightarrow> a = b"
  by (metis bytes_str_inverse)

text \<open>The ranges of \<open>core::str::from_utf8\<close>.\<close>

definition cont :: "nat \<Rightarrow> bool" where
  "cont b \<longleftrightarrow> 128 \<le> b \<and> b \<le> 191"

fun utf8_codes :: "nat list \<Rightarrow> bool" where
  "utf8_codes [] = True"
| "utf8_codes (a # r) =
    (if a < 128 then utf8_codes r
     else if 194 \<le> a \<and> a \<le> 223 then (case r of b # r' \<Rightarrow> cont b \<and> utf8_codes r' | _ \<Rightarrow> False)
     else if 224 \<le> a \<and> a \<le> 239 then
       (case r of b # c # r' \<Rightarrow>
          (if a = 224 then 160 \<le> b \<and> b \<le> 191 else if a = 237 then 128 \<le> b \<and> b \<le> 159 else cont b)
          \<and> cont c \<and> utf8_codes r'
        | _ \<Rightarrow> False)
     else if 240 \<le> a \<and> a \<le> 244 then
       (case r of b # c # d # r' \<Rightarrow>
          (if a = 240 then 144 \<le> b \<and> b \<le> 191 else if a = 244 then 128 \<le> b \<and> b \<le> 143 else cont b)
          \<and> cont c \<and> cont d \<and> utf8_codes r'
        | _ \<Rightarrow> False)
     else False)"

definition utf8_valid :: "string \<Rightarrow> bool" where
  "utf8_valid s = utf8_codes (map code s)"

definition from_utf8 :: "bytes \<Rightarrow> string option" where
  "from_utf8 bs = (if utf8_valid (bytes_str bs) then Some (bytes_str bs) else None)"

lemma from_utf8_str_bytes [simp]: "utf8_valid s \<Longrightarrow> from_utf8 (str_bytes s) = Some s"
  by (simp add: from_utf8_def)

lemma from_utf8_Some: "from_utf8 bs = Some s \<longleftrightarrow> utf8_valid s \<and> bs = str_bytes s"
  by (auto simp: from_utf8_def)

lemma utf8_ascii: "(\<forall>c \<in> set s. code c < 128) \<Longrightarrow> utf8_valid s"
proof -
  have "(\<forall>a \<in> set xs. a < 128) \<Longrightarrow> utf8_codes xs" for xs by (induction xs) auto
  then show "(\<forall>c \<in> set s. code c < 128) \<Longrightarrow> utf8_valid s" by (simp add: utf8_valid_def)
qed

section \<open>Prefixes, splitting, trimming\<close>

definition starts_with :: "'a list \<Rightarrow> 'a list \<Rightarrow> bool" where
  "starts_with s p \<longleftrightarrow> take (length p) s = p"

definition strip_prefix :: "'a list \<Rightarrow> 'a list \<Rightarrow> 'a list option" where
  "strip_prefix s p = (if starts_with s p then Some (drop (length p) s) else None)"

definition ends_with :: "'a list \<Rightarrow> 'a list \<Rightarrow> bool" where
  "ends_with s p \<longleftrightarrow> starts_with (rev s) (rev p)"

definition strip_suffix :: "'a list \<Rightarrow> 'a list \<Rightarrow> 'a list option" where
  "strip_suffix s p = (if ends_with s p then Some (take (length s - length p) s) else None)"

lemma starts_with_iff: "starts_with s p \<longleftrightarrow> (\<exists>r. s = p @ r)"
  by (metis append_eq_conv_conj append_take_drop_id starts_with_def)

lemma starts_with_append [simp]: "starts_with (p @ r) p"
  by (auto simp: starts_with_iff)

lemma starts_with_Cons [simp]: "starts_with (a # s) (b # p) \<longleftrightarrow> a = b \<and> starts_with s p"
  "starts_with [] (b # p) = False" "starts_with s []"
  by (auto simp: starts_with_def)

lemma strip_prefix_Some: "strip_prefix s p = Some r \<longleftrightarrow> s = p @ r"
  by (auto simp: strip_prefix_def starts_with_iff)

lemma strip_prefix_append [simp]: "strip_prefix (p @ r) p = Some r"
  by (simp add: strip_prefix_Some)

lemma ends_with_iff: "ends_with s p \<longleftrightarrow> (\<exists>r. s = r @ p)"
proof
  assume "ends_with s p"
  then obtain r where "rev s = rev p @ r" by (auto simp: ends_with_def starts_with_iff)
  then have "s = rev r @ p" by (metis rev_append rev_rev_ident)
  then show "\<exists>r. s = r @ p" ..
qed (auto simp: ends_with_def)

lemma strip_suffix_Some: "strip_suffix s p = Some r \<longleftrightarrow> s = r @ p"
  by (auto simp: strip_suffix_def ends_with_iff)

primrec split_once :: "'a \<Rightarrow> 'a list \<Rightarrow> ('a list \<times> 'a list) option" where
  "split_once c [] = None"
| "split_once c (x # xs) =
    (if x = c then Some ([], xs)
     else (case split_once c xs of None \<Rightarrow> None | Some (a, b) \<Rightarrow> Some (x # a, b)))"

definition rsplit_once :: "'a \<Rightarrow> 'a list \<Rightarrow> ('a list \<times> 'a list) option" where
  "rsplit_once c s =
    (case split_once c (rev s) of None \<Rightarrow> None | Some (a, b) \<Rightarrow> Some (rev b, rev a))"

primrec split :: "'a \<Rightarrow> 'a list \<Rightarrow> 'a list list" where
  "split c [] = [[]]"
| "split c (x # xs) =
    (if x = c then [] # split c xs
     else (case split c xs of [] \<Rightarrow> [[x]] | p # ps \<Rightarrow> (x # p) # ps))"

lemma split_once_append [simp]: "c \<notin> set a \<Longrightarrow> split_once c (a @ c # b) = Some (a, b)"
  by (induction a) auto

lemma split_once_SomeD: "split_once c s = Some (a, b) \<Longrightarrow> s = a @ c # b \<and> c \<notin> set a"
proof (induction s arbitrary: a)
  case (Cons x xs)
  show ?case
  proof (cases "x = c")
    case False
    with Cons.prems obtain a' where "split_once c xs = Some (a', b)" "a = x # a'"
      by (auto split: option.splits)
    with Cons.IH False show ?thesis by simp
  qed (use Cons.prems in simp)
qed simp

lemma split_once_Some: "split_once c s = Some (a, b) \<longleftrightarrow> s = a @ c # b \<and> c \<notin> set a"
proof
  assume "s = a @ c # b \<and> c \<notin> set a"
  then show "split_once c s = Some (a, b)" by simp
qed (rule split_once_SomeD)

lemma split_once_None: "split_once c s = None \<longleftrightarrow> c \<notin> set s"
  by (induction s) (auto split: option.splits)

lemma rsplit_once_Some: "rsplit_once c s = Some (a, b) \<longleftrightarrow> s = a @ c # b \<and> c \<notin> set b"
proof -
  have "rsplit_once c s = Some (a, b) \<longleftrightarrow> split_once c (rev s) = Some (rev b, rev a)"
    by (auto simp: rsplit_once_def split: option.splits)
  also have "\<dots> \<longleftrightarrow> s = a @ c # b \<and> c \<notin> set b"
    by (auto simp: split_once_Some rev_swap)
  finally show ?thesis .
qed

lemma split_not_Nil [simp]: "split c s \<noteq> []"
  by (induction s) (auto split: list.splits)

lemma split_no_sep: "p \<in> set (split c s) \<Longrightarrow> c \<notin> set p"
proof (induction s arbitrary: p)
  case Nil
  then show ?case by simp
next
  case (Cons x xs)
  then show ?case
    by (cases "split c xs") (force split: if_splits)+
qed

text \<open>Dropping the leading and trailing occurrences of some character sequences.\<close>

lemma find_SomeD: "find P xs = Some x \<Longrightarrow> x \<in> set xs \<and> P x"
  by (auto simp: find_Some_iff)

lemma find_nonempty_prefix:
  "find (\<lambda>w. w \<noteq> [] \<and> starts_with s w) ws = Some w \<Longrightarrow> length (drop (length w) s) < length s"
  by (auto simp: find_Some_iff starts_with_iff)

function strip_seqs :: "'a list list \<Rightarrow> 'a list \<Rightarrow> 'a list" where
  "strip_seqs ws s =
    (case find (\<lambda>w. w \<noteq> [] \<and> starts_with s w) ws of
       None \<Rightarrow> s
     | Some w \<Rightarrow> strip_seqs ws (drop (length w) s))"
  by pat_completeness auto
termination
  by (relation "measure (\<lambda>(ws, s). length s)") (auto dest: find_nonempty_prefix)

declare strip_seqs.simps [simp del]

text \<open>The UTF-8 encodings of the White_Space characters of Unicode, as \<open>char::is_whitespace\<close> has them.\<close>

definition white_space :: "string list" where
  "white_space =
    [[CHR 0x09], [CHR 0x0A], [CHR 0x0B], [CHR 0x0C], [CHR 0x0D], [CHR 0x20],
     [CHR 0xC2, CHR 0x85], [CHR 0xC2, CHR 0xA0], [CHR 0xE1, CHR 0x9A, CHR 0x80],
     [CHR 0xE2, CHR 0x80, CHR 0x80], [CHR 0xE2, CHR 0x80, CHR 0x81],
     [CHR 0xE2, CHR 0x80, CHR 0x82], [CHR 0xE2, CHR 0x80, CHR 0x83],
     [CHR 0xE2, CHR 0x80, CHR 0x84], [CHR 0xE2, CHR 0x80, CHR 0x85],
     [CHR 0xE2, CHR 0x80, CHR 0x86], [CHR 0xE2, CHR 0x80, CHR 0x87],
     [CHR 0xE2, CHR 0x80, CHR 0x88], [CHR 0xE2, CHR 0x80, CHR 0x89],
     [CHR 0xE2, CHR 0x80, CHR 0x8A], [CHR 0xE2, CHR 0x80, CHR 0xA8],
     [CHR 0xE2, CHR 0x80, CHR 0xA9], [CHR 0xE2, CHR 0x80, CHR 0xAF],
     [CHR 0xE2, CHR 0x81, CHR 0x9F], [CHR 0xE3, CHR 0x80, CHR 0x80]]"

definition trim_start :: "string \<Rightarrow> string" where
  "trim_start s = strip_seqs white_space s"

definition trim_end :: "string \<Rightarrow> string" where
  "trim_end s = rev (strip_seqs (map rev white_space) (rev s))"

definition trim :: "string \<Rightarrow> string" where
  "trim s = trim_end (trim_start s)"

definition trim_end_matches :: "'a \<Rightarrow> 'a list \<Rightarrow> 'a list" where
  "trim_end_matches c s = rev (dropWhile (\<lambda>x. x = c) (rev s))"

lemma strip_seqs_id:
  "(\<And>w. w \<in> set ws \<Longrightarrow> w \<noteq> [] \<Longrightarrow> \<not> starts_with s w) \<Longrightarrow> strip_seqs ws s = s"
proof -
  assume "\<And>w. w \<in> set ws \<Longrightarrow> w \<noteq> [] \<Longrightarrow> \<not> starts_with s w"
  then have "find (\<lambda>w. w \<noteq> [] \<and> starts_with s w) ws = None" by (auto simp: find_None_iff)
  then show ?thesis by (simp add: strip_seqs.simps)
qed

lemma strip_seqs_suffix: "\<exists>p. s = p @ strip_seqs ws s"
proof (induction ws s rule: strip_seqs.induct)
  case (1 ws s)
  show ?case
  proof (cases "find (\<lambda>w. w \<noteq> [] \<and> starts_with s w) ws")
    case None
    then show ?thesis by (subst strip_seqs.simps) simp
  next
    case (Some w)
    with 1 obtain p where p: "drop (length w) s = p @ strip_seqs ws (drop (length w) s)" by blast
    have "s = take (length w) s @ p @ strip_seqs ws (drop (length w) s)"
      using p by (metis append_take_drop_id)
    then have "s = (take (length w) s @ p) @ strip_seqs ws s"
      using Some by (simp add: strip_seqs.simps [of ws s])
    then show ?thesis ..
  qed
qed

lemma set_strip_seqs: "set (strip_seqs ws s) \<subseteq> set s"
proof -
  obtain p where "s = p @ strip_seqs ws s" using strip_seqs_suffix by blast
  then have "set s = set p \<union> set (strip_seqs ws s)" by (metis set_append)
  then show ?thesis by blast
qed

lemma set_trim: "set (trim s) \<subseteq> set s"
proof -
  have "set (trim_end x) \<subseteq> set x" for x
    using set_strip_seqs [of "map rev white_space" "rev x"] by (simp add: trim_end_def)
  moreover have "set (trim_start s) \<subseteq> set s"
    by (simp add: trim_start_def set_strip_seqs)
  ultimately show ?thesis unfolding trim_def by blast
qed

text \<open>Text whose first and last bytes are graphic ASCII is left alone by \<open>trim\<close>.\<close>

definition graphic :: "char \<Rightarrow> bool" where
  "graphic c \<longleftrightarrow> 32 < code c \<and> code c < 127"

lemma white_space_first: "w \<in> set white_space \<Longrightarrow> w \<noteq> [] \<and> \<not> graphic (hd w) \<and> \<not> graphic (last w)"
  by (auto simp: white_space_def graphic_def)

lemma trim_id:
  assumes "s \<noteq> []" "graphic (hd s)" "graphic (last s)"
  shows "trim s = s"
proof -
  have "\<not> starts_with s w" if "w \<in> set white_space" for w
    using white_space_first [OF that] assms by (auto simp: starts_with_iff)
  then have 1: "trim_start s = s" unfolding trim_start_def by (blast intro: strip_seqs_id)
  have "\<not> starts_with (rev s) (rev w)" if "w \<in> set white_space" for w
    using white_space_first [OF that] assms unfolding ends_with_def [symmetric]
    by (auto simp: ends_with_iff)
  then have "trim_end s = s" unfolding trim_end_def by (subst strip_seqs_id) auto
  with 1 show ?thesis by (simp add: trim_def)
qed

lemma trim_Nil [simp]: "trim [] = []"
proof -
  have "strip_seqs ws [] = []" for ws :: "string list" by (rule strip_seqs_id) (auto simp: starts_with_iff)
  then show ?thesis by (simp add: trim_def trim_start_def trim_end_def)
qed

text \<open>\<open>str::lines\<close>: pieces ended by a line feed, with or without a carriage return before it.\<close>

definition lines :: "string \<Rightarrow> string list" where
  "lines s =
    (let ps = split (CHR 0x0A) s in
     map (\<lambda>l. case strip_suffix l [CHR 0x0D] of Some r \<Rightarrow> r | None \<Rightarrow> l) (butlast ps)
     @ (if last ps = [] then [] else [last ps]))"

function split_ws :: "string \<Rightarrow> string \<Rightarrow> string list" where
  "split_ws acc s =
    (case s of
       [] \<Rightarrow> if acc = [] then [] else [acc]
     | c # r \<Rightarrow>
         (case find (\<lambda>w. w \<noteq> [] \<and> starts_with s w) white_space of
            Some w \<Rightarrow> (if acc = [] then [] else [acc]) @ split_ws [] (drop (length w) s)
          | None \<Rightarrow> split_ws (acc @ [c]) r))"
  by pat_completeness auto
termination
  by (relation "measure (\<lambda>(acc, s). length s)") (auto dest: find_nonempty_prefix)

declare split_ws.simps [simp del]

definition split_whitespace :: "string \<Rightarrow> string list" where
  "split_whitespace s = split_ws [] s"

lemma split_append_sep: "c \<notin> set a \<Longrightarrow> split c (a @ c # s) = a # split c s"
  by (induction a) auto

lemma split_no_sep_id: "c \<notin> set a \<Longrightarrow> split c a = [a]"
  by (induction a) auto

lemma lines_terminated:
  assumes "CHR 0x0A \<notin> set a" "a = [] \<or> last a \<noteq> CHR 0x0D"
  shows "lines (a @ CHR 0x0A # s) = a # lines s"
proof -
  have "strip_suffix a [CHR 0x0D] = None"
    using assms(2) by (auto simp: strip_suffix_def ends_with_iff)
  then show ?thesis using assms(1) by (simp add: lines_def Let_def split_append_sep)
qed

lemma lines_Nil [simp]: "lines [] = []"
  by (simp add: lines_def)

section \<open>ASCII case\<close>

definition to_ascii_lowercase_char :: "char \<Rightarrow> char" where
  "to_ascii_lowercase_char c = (if 65 \<le> code c \<and> code c \<le> 90 then char_of (code c + 32) else c)"

definition to_ascii_lowercase :: "string \<Rightarrow> string" where
  "to_ascii_lowercase = map to_ascii_lowercase_char"

definition eq_ignore_ascii_case :: "string \<Rightarrow> string \<Rightarrow> bool" where
  "eq_ignore_ascii_case a b \<longleftrightarrow> to_ascii_lowercase a = to_ascii_lowercase b"

lemma code_lowercase:
  "code (to_ascii_lowercase_char c) = (if 65 \<le> code c \<and> code c \<le> 90 then code c + 32 else code c)"
  by (auto simp: to_ascii_lowercase_char_def)

lemma to_ascii_lowercase_idem [simp]: "to_ascii_lowercase (to_ascii_lowercase s) = to_ascii_lowercase s"
proof -
  have "to_ascii_lowercase_char (to_ascii_lowercase_char c) = to_ascii_lowercase_char c" for c
    using code_lowercase [of c] by (auto simp: to_ascii_lowercase_char_def split: if_splits)
  then show ?thesis by (simp add: to_ascii_lowercase_def)
qed

lemma length_to_ascii_lowercase [simp]: "length (to_ascii_lowercase s) = length s"
  by (simp add: to_ascii_lowercase_def)

section \<open>Decimal\<close>

definition is_digit :: "char \<Rightarrow> bool" where
  "is_digit c \<longleftrightarrow> 48 \<le> code c \<and> code c \<le> 57"

definition digits_value :: "string \<Rightarrow> nat" where
  "digits_value s = foldl (\<lambda>n c. 10 * n + (code c - 48)) 0 s"

definition parse_nat :: "string \<Rightarrow> nat option" where
  "parse_nat s =
    (let d = (case s of [] \<Rightarrow> s | c # r \<Rightarrow> if c = CHR ''+'' then r else s)
     in if d = [] \<or> \<not> list_all is_digit d then None else Some (digits_value d))"

definition parse_uint :: "string \<Rightarrow> 'a::len word option" where
  "parse_uint s =
    (case parse_nat s of
       None \<Rightarrow> None
     | Some n \<Rightarrow> if n < 2 ^ LENGTH('a) then Some (of_nat n) else None)"

fun show_nat :: "nat \<Rightarrow> string" where
  "show_nat n =
    (if n < 10 then [char_of (48 + n)] else show_nat (n div 10) @ [char_of (48 + n mod 10)])"

declare show_nat.simps [simp del]

abbreviation show_word :: "'a::len word \<Rightarrow> string" where
  "show_word w \<equiv> show_nat (unat w)"

lemma show_nat_eval [str_simps]:
  "n < 10 \<Longrightarrow> show_nat n = [char_of (48 + n)]"
  "10 \<le> n \<Longrightarrow> show_nat n = show_nat (n div 10) @ [char_of (48 + n mod 10)]"
  by (subst show_nat.simps, simp)+

lemma show_nat_digits: "list_all is_digit (show_nat n) \<and> show_nat n \<noteq> []"
proof (induction n rule: show_nat.induct)
  case (1 n)
  have "n mod 10 < 10" by simp
  then have "is_digit (char_of (48 + n mod 10))" by (simp add: is_digit_def)
  with 1 show ?case by (subst (1 2) show_nat.simps) auto
qed

lemma show_nat_not_Nil [simp]: "show_nat n \<noteq> []"
  using show_nat_digits by blast

lemma digits_value_show: "digits_value (show_nat n) = n"
proof (induction n rule: show_nat.induct)
  case (1 n)
  have "n mod 10 < 10" by simp
  with 1 show ?case by (subst show_nat.simps) (auto simp: digits_value_def)
qed

lemma show_nat_graphic: "c \<in> set (show_nat n) \<Longrightarrow> is_digit c"
  using show_nat_digits [of n] by (auto simp: list_all_iff)

lemma parse_nat_show [simp]: "parse_nat (show_nat n) = Some n"
proof -
  obtain c r where s: "show_nat n = c # r" by (metis list.exhaust show_nat_not_Nil)
  then have "is_digit c" using show_nat_graphic [of c n] by simp
  then have "c \<noteq> CHR ''+''" by (auto simp: is_digit_def)
  with s show ?thesis
    using show_nat_digits [of n] digits_value_show [of n] by (simp add: parse_nat_def Let_def)
qed

lemma parse_uint_show [simp]: "parse_uint (show_word (w :: 'a::len word)) = Some w"
  using unsigned_less [of w, where ?'a = nat] by (simp add: parse_uint_def)

lemma trim_show_nat [simp]: "trim (show_nat n) = show_nat n"
proof (rule trim_id)
  have "graphic c" if "c \<in> set (show_nat n)" for c
    using show_nat_graphic [OF that] by (simp add: is_digit_def graphic_def)
  then show "graphic (hd (show_nat n))" and "graphic (last (show_nat n))" by simp_all
qed simp

lemmas str_eval [str_simps] =
  trim_id graphic_def
  strip_prefix_def strip_suffix_def ends_with_def rsplit_once_def trim_end_matches_def
  parse_uint_def parse_nat_def digits_value_def is_digit_def
  to_ascii_lowercase_def to_ascii_lowercase_char_def eq_ignore_ascii_case_def
  utf8_valid_def cont_def char_of_def bit_iff_odd

lemma digit_not:
  "CHR ''-'' \<notin> set (show_nat n)" "CHR ''/'' \<notin> set (show_nat n)" "CHR '','' \<notin> set (show_nat n)"
  "CHR '' '' \<notin> set (show_nat n)" "CHR ''='' \<notin> set (show_nat n)"
  by (auto dest!: show_nat_graphic simp: is_digit_def)

section \<open>Ordered maps\<close>

primrec btree_insert :: "'k::linorder \<Rightarrow> 'v \<Rightarrow> ('k \<times> 'v) list \<Rightarrow> ('k \<times> 'v) list" where
  "btree_insert k v [] = [(k, v)]"
| "btree_insert k v (e # es) =
    (if k < fst e then (k, v) # e # es
     else if k = fst e then (k, v) # es
     else e # btree_insert k v es)"

definition btree :: "('k::linorder \<times> 'v) list \<Rightarrow> bool" where
  "btree es \<longleftrightarrow> sorted_wrt (<) (map fst es)"

lemma map_of_btree_insert [simp]: "map_of (btree_insert k v es) = (map_of es)(k \<mapsto> v)"
  by (induction es) auto

lemma set_btree_insert: "fst ` set (btree_insert k v es) = insert k (fst ` set es)"
  by (induction es) auto

lemma btree_btree_insert: "btree es \<Longrightarrow> btree (btree_insert k v es)"
  unfolding btree_def
proof (induction es)
  case (Cons e es)
  have "fst e < x" if "x \<in> fst ` set (btree_insert k v es)" "\<not> k < fst e" "k \<noteq> fst e" for x
    using that Cons.prems by (auto simp: set_btree_insert)
  with Cons show ?case by auto
qed simp

lemma btree_distinct: "btree es \<Longrightarrow> distinct (map fst es)"
  unfolding btree_def by (simp add: strict_sorted_iff)

end
