(* ===== verification/Proxy_Range.thy ===== *)
theory Proxy_Range
  imports Rust_Str
begin

text \<open>
  \<open>proxy/range.rs\<close>: the \<open>Range\<close> header, its resolution against an object length, and the arithmetic
  that maps a byte range onto slices of a fixed size. Byte positions are \<open>u64\<close> words and slice
  indices \<open>u32\<close> words, as in the source; the lemmas move them to the natural numbers and say when
  the word arithmetic is exact.

  The locale \<open>slicer\<close> is the contract every consumer of the arithmetic uses: the plan lists the
  slices that meet the range and the window of each is its part of the range. The tiling property
  is proved once from it.
\<close>

section \<open>Data\<close>

datatype RangeSpec = FromTo u64 u64 | From u64 | Suffix u64

record ByteRange =
  br_start :: u64
  br_end :: u64

datatype RangeError = Malformed | Multiple | Unsatisfiable

record SlicePlan =
  sp_first :: u32
  sp_last :: u32
  sp_slice_size :: u32

section \<open>Operations\<close>

definition range_len :: "ByteRange \<Rightarrow> u64" where
  "range_len r = br_end r - br_start r + 1"

definition range_is_empty :: "ByteRange \<Rightarrow> bool" where
  "range_is_empty r = False"

definition parse_range :: "string \<Rightarrow> RangeError + RangeSpec" where
  "parse_range value =
    rbind (ok_or Malformed (strip_prefix (trim value) ''bytes='')) (\<lambda>spec.
      if CHR '','' \<in> set spec then Err Multiple
      else
        rbind (ok_or Malformed (split_once (CHR ''-'') spec)) (\<lambda>(start, end').
          let s = trim start; e = trim end' in
          if s = [] \<and> e = [] then Err Malformed
          else if s = [] then rbind (ok_or Malformed (parse_uint e)) (\<lambda>n. Ok (Suffix n))
          else if e = [] then rbind (ok_or Malformed (parse_uint s)) (\<lambda>a. Ok (From a))
          else
            rbind (ok_or Malformed (parse_uint s)) (\<lambda>a.
              rbind (ok_or Malformed (parse_uint e)) (\<lambda>b.
                if b < a then Err Malformed else Ok (FromTo a b)))))"

definition resolve :: "RangeSpec \<Rightarrow> u64 \<Rightarrow> RangeError + ByteRange" where
  "resolve spec len =
    (if len = 0 then Err Unsatisfiable
     else
       let last' = len - 1 in
       case spec of
         FromTo a b \<Rightarrow>
           if last' < a then Err Unsatisfiable else Ok \<lparr>br_start = a, br_end = min b last'\<rparr>
       | From a \<Rightarrow>
           if last' < a then Err Unsatisfiable else Ok \<lparr>br_start = a, br_end = last'\<rparr>
       | Suffix n \<Rightarrow>
           if n = 0 then Err Unsatisfiable
           else let n = min n len in Ok \<lparr>br_start = len - n, br_end = last'\<rparr>)"

definition whole :: "u64 \<Rightarrow> ByteRange option" where
  "whole len = (if 0 < len then Some \<lparr>br_start = 0, br_end = len - 1\<rparr> else None)"

definition plan_count :: "SlicePlan \<Rightarrow> u32" where
  "plan_count p = sp_last p - sp_first p + 1"

definition plan_indices :: "SlicePlan \<Rightarrow> u32 list" where
  "plan_indices p = map of_nat [unat (sp_first p) ..< Suc (unat (sp_last p))]"

definition max_addressable_len :: "u32 \<Rightarrow> u64" where
  "max_addressable_len slice_size = (ucast (- 1 :: u32) + 1) * ucast slice_size"

definition plan :: "ByteRange \<Rightarrow> u32 \<Rightarrow> SlicePlan" where
  "plan r slice_size =
    (let s = (ucast (max slice_size 1) :: u64);
         to_index = (\<lambda>byte. ucast (min (byte div s) (ucast (- 1 :: u32))) :: u32);
         first' = to_index (br_start r);
         last' = max (to_index (br_end r)) first'
     in \<lparr>sp_first = first', sp_last = last', sp_slice_size = slice_size\<rparr>)"

definition slice_extent :: "u32 \<Rightarrow> u32 \<Rightarrow> u64 \<Rightarrow> ByteRange" where
  "slice_extent index slice_size len =
    (let s = (ucast slice_size :: u64);
         start = ucast index * s
     in \<lparr>br_start = start, br_end = min (start + s - 1) (saturating_sub len 1)\<rparr>)"

definition payload_window :: "u32 \<Rightarrow> u32 \<Rightarrow> ByteRange \<Rightarrow> nat \<times> nat" where
  "payload_window index slice_size wanted =
    (let s = (ucast slice_size :: u64);
         slice_start = ucast index * s;
         from = saturating_sub (br_start wanted) slice_start;
         to = min (br_end wanted - slice_start + 1) s
     in (unat from, unat to))"

section \<open>The arithmetic in the natural numbers\<close>

text \<open>The bytes from \<open>a\<close> up to but not including \<open>b\<close>.\<close>

definition segment :: "nat \<Rightarrow> nat \<Rightarrow> 'a list \<Rightarrow> 'a list" where
  "segment a b xs = take (b - a) (drop a xs)"

lemma segment_append: "a \<le> b \<Longrightarrow> b \<le> c \<Longrightarrow> segment a b xs @ segment b c xs = segment a c xs"
proof -
  assume "a \<le> b" "b \<le> c"
  then obtain m n where "b = a + m" "c = a + m + n" by (metis le_Suc_ex)
  then show ?thesis by (simp add: segment_def take_add add.commute)
qed

lemma length_segment: "b \<le> length xs \<Longrightarrow> length (segment a b xs) = b - a"
  by (simp add: segment_def)

lemma segment_whole [simp]: "segment 0 (length xs) xs = xs"
  by (simp add: segment_def)

lemma segment_empty [simp]: "b \<le> a \<Longrightarrow> segment a b xs = []"
  by (simp add: segment_def)

lemma segment_segment:
  "f \<le> t \<Longrightarrow> a + t \<le> b \<Longrightarrow> segment f t (segment a b xs) = segment (a + f) (a + t) xs"
  by (simp add: segment_def drop_take min_def add.commute)

lemma segment_past: "length xs \<le> b \<Longrightarrow> segment a b xs = drop a xs"
  by (simp add: segment_def)

text \<open>The part of the range \<open>[lo, hi]\<close> in slice \<open>i\<close>, cut out of the payload of the slice.\<close>

lemma window_segment:
  fixes S :: nat
  assumes "i * S \<le> hi" "lo < Suc i * S" "lo \<le> hi"
  shows "segment (lo - i * S) (min (hi - i * S + 1) S) (segment (i * S) (Suc i * S) xs)
       = segment (max lo (i * S)) (min (Suc hi) (Suc i * S)) xs"
proof -
  have "segment (lo - i * S) (min (hi - i * S + 1) S) (segment (i * S) (i * S + S) xs)
      = segment (i * S + (lo - i * S)) (i * S + min (hi - i * S + 1) S) xs"
    using assms by (intro segment_segment) auto
  moreover have "i * S + (lo - i * S) = max lo (i * S)" by simp
  moreover have "i * S + min (hi - i * S + 1) S = min (Suc hi) (Suc i * S)"
    using assms(1) by (cases "Suc hi \<le> i * S + S") (auto simp: min_def add.commute)
  ultimately show ?thesis by (simp add: add.commute)
qed

lemma tile_prefix:
  fixes S :: nat
  assumes "0 < S" "lo \<le> hi" "Suc (lo div S) \<le> m" "m \<le> Suc (hi div S)"
  shows "concat (map (\<lambda>i. segment (max lo (i * S)) (min (Suc hi) (Suc i * S)) xs) [lo div S ..< m])
       = segment lo (min (Suc hi) (m * S)) xs"
  using assms(3,4)
proof (induction m rule: dec_induct)
  case base
  then show ?case by (simp add: max_absorb1)
next
  case (step m)
  have "lo < m * S" using step(1) assms(1)
    by (metis Suc_le_eq div_less_iff_less_mult)
  moreover have "m * S \<le> hi" using step(4) assms(1)
    by (metis Suc_le_mono div_times_less_eq_dividend le_trans mult_le_mono1)
  ultimately have "segment lo (min (Suc hi) (m * S)) xs
      @ segment (max lo (m * S)) (min (Suc hi) (Suc m * S)) xs
      = segment lo (min (Suc hi) (Suc m * S)) xs"
    by (simp add: max_def min_absorb2) (rule segment_append, auto)
  moreover have "lo div S \<le> m" using step(1) by simp
  ultimately show ?case using step by simp
qed

lemma tile_nat:
  fixes S :: nat
  assumes "0 < S" "lo \<le> hi"
  shows "concat (map (\<lambda>i. segment (lo - i * S) (min (hi - i * S + 1) S) (segment (i * S) (Suc i * S) xs))
                     [lo div S ..< Suc (hi div S)])
       = segment lo (Suc hi) xs"
proof -
  have w: "segment (lo - i * S) (min (hi - i * S + 1) S) (segment (i * S) (Suc i * S) xs)
      = segment (max lo (i * S)) (min (Suc hi) (Suc i * S)) xs"
    if "i \<in> set [lo div S ..< Suc (hi div S)]" for i
  proof (rule window_segment)
    show "i * S \<le> hi" using that
      by (metis assms(1) atLeastLessThan_iff less_Suc_eq_le less_eq_div_iff_mult_less_eq set_upt)
    show "lo < Suc i * S" using that assms(1)
      by (metis atLeastLessThan_iff div_less_iff_less_mult le_imp_less_Suc set_upt)
  qed (fact assms(2))
  have "Suc hi \<le> Suc (hi div S) * S"
    using assms(1) by (metis Suc_leI div_less_iff_less_mult lessI)
  then show ?thesis
    using tile_prefix [OF assms, of "Suc (hi div S)" xs] assms(2)
    by (simp only: map_cong [OF refl w]) (simp add: div_le_mono min_absorb1)
qed

section \<open>Words\<close>

lemma unat_slice_start [word_to_nat]:
  "unat (ucast (i :: u32) * ucast (s :: u32) :: u64) = unat i * unat s"
proof -
  have "unat i * unat s \<le> 4294967295 * 4294967295"
    using unat_u32_nat [of i] unat_u32_nat [of s] by (intro mult_le_mono) auto
  then show ?thesis by (simp add: unat_word_ariths unat_u32_u64)
qed

text \<open>The ranges whose every byte lies in a slice with a \<open>u32\<close> index.\<close>

definition addressable :: "ByteRange \<Rightarrow> u32 \<Rightarrow> bool" where
  "addressable r s \<longleftrightarrow>
     br_start r \<le> br_end r \<and> 0 < s \<and> br_end r < max_addressable_len s"

lemma unat_max_addressable_len [word_to_nat]:
  "unat (max_addressable_len s) = 2 ^ 32 * unat s"
proof -
  have "unat (ucast (- 1 :: u32) + 1 :: u64) = 2 ^ 32" by simp
  moreover have "2 ^ 32 * unat s < 2 ^ 64" using unat_u32_nat [of s] by simp
  ultimately show ?thesis by (simp add: max_addressable_len_def unat_word_ariths unat_u32_u64)
qed

lemma addressable_iff:
  "addressable r s \<longleftrightarrow>
     unat (br_start r) \<le> unat (br_end r) \<and> 0 < unat s \<and> unat (br_end r) div unat s < 2 ^ 32"
  by (auto simp: addressable_def word_le_nat_alt word_less_nat_alt unat_max_addressable_len
      div_less_iff_less_mult)

lemma unat_to_index:
  "0 < unat s \<Longrightarrow>
   unat (ucast (min (b div ucast (max s 1)) (ucast (- 1 :: u32)) :: u64) :: u32)
     = min (unat b div unat s) (2 ^ 32 - 1)" for b :: u64 and s :: u32
proof -
  assume "0 < unat s"
  then have "max s 1 = s" by (intro max_absorb1) (simp add: word_le_nat_alt)
  then have m: "unat (min (b div ucast (max s 1)) (ucast (- 1 :: u32)) :: u64)
      = min (unat b div unat s) 4294967295"
    by (simp add: unat_min unat_div_distrib unat_u32_u64)
  then show ?thesis by (subst unat_u64_u32) simp_all
qed

lemma plan_bounds:
  assumes "0 < unat s"
  shows "unat (sp_first (plan r s)) = min (unat (br_start r) div unat s) (2 ^ 32 - 1)"
    and "unat (sp_last (plan r s))
       = max (min (unat (br_end r) div unat s) (2 ^ 32 - 1)) (unat (sp_first (plan r s)))"
  using unat_to_index [OF assms] by (simp_all add: plan_def Let_def unat_max)

lemma plan_exact:
  assumes "addressable r s"
  shows "unat (sp_first (plan r s)) = unat (br_start r) div unat s"
    and "unat (sp_last (plan r s)) = unat (br_end r) div unat s"
proof -
  have a: "unat (br_start r) \<le> unat (br_end r)" "0 < unat s" "unat (br_end r) div unat s < 2 ^ 32"
    using assms by (auto simp: addressable_iff)
  have "unat (br_start r) div unat s \<le> unat (br_end r) div unat s" using a(1) by (rule div_le_mono)
  then show "unat (sp_first (plan r s)) = unat (br_start r) div unat s"
    and "unat (sp_last (plan r s)) = unat (br_end r) div unat s"
    using plan_bounds [OF a(2)] a(3) by (simp_all add: min_def max_def)
qed

lemma map_unat_plan_indices:
  "map unat (plan_indices p) = [unat (sp_first p) ..< Suc (unat (sp_last p))]"
proof -
  have "unat (of_nat n :: u32) = n" if "n \<le> unat (sp_last p)" for n
    using that unat_u32_nat [of "sp_last p"] by (simp add: unsigned_of_nat take_bit_eq_mod)
  then show ?thesis by (auto simp: plan_indices_def comp_def intro!: map_idI simp del: upt_Suc)
qed

lemma payload_window_nat:
  assumes "unat i * unat s \<le> unat (br_end r)" "unat (br_end r) < 2 ^ 64 - 1"
  shows "payload_window i s r =
    (unat (br_start r) - unat i * unat s, min (unat (br_end r) - unat i * unat s + 1) (unat s))"
proof -
  have "unat (br_end r - ucast i * ucast s) = unat (br_end r) - unat i * unat s"
    using assms(1) by (subst unat_sub) (simp_all add: word_le_nat_alt unat_slice_start)
  then have "unat (br_end r - ucast i * ucast s + 1) = unat (br_end r) - unat i * unat s + 1"
    using assms(2) by (simp add: unat_word_ariths)
  then show ?thesis
    by (simp add: payload_window_def Let_def unat_saturating_sub unat_min unat_slice_start unat_u32_u64)
qed

section \<open>The slicing contract\<close>

locale slicer =
  fixes lo hi :: "'r \<Rightarrow> nat"
    and fits :: "'r \<Rightarrow> u32 \<Rightarrow> bool"
    and indices :: "'r \<Rightarrow> u32 \<Rightarrow> u32 list"
    and window :: "u32 \<Rightarrow> u32 \<Rightarrow> 'r \<Rightarrow> nat \<times> nat"
    and extent :: "u32 \<Rightarrow> u32 \<Rightarrow> u64 \<Rightarrow> 'r"
  assumes fits_range: "fits r s \<Longrightarrow> lo r \<le> hi r \<and> 0 < unat s"
    and indices_law: "fits r s \<Longrightarrow> map unat (indices r s) = [lo r div unat s ..< Suc (hi r div unat s)]"
    and window_law: "fits r s \<Longrightarrow> i \<in> set (indices r s) \<Longrightarrow>
      window i s r = (lo r - unat i * unat s, min (hi r - unat i * unat s + 1) (unat s))"
    and extent_law: "0 < unat s \<Longrightarrow> unat i * unat s < unat t \<Longrightarrow>
      lo (extent i s t) = unat i * unat s
      \<and> Suc (hi (extent i s t)) = min (unat i * unat s + unat s) (unat t)"
begin

text \<open>The payload of slice \<open>i\<close> of an object is the bytes of its extent.\<close>

definition payload :: "u32 \<Rightarrow> u64 \<Rightarrow> 'b list \<Rightarrow> u32 \<Rightarrow> 'b list" where
  "payload s t obj i = segment (lo (extent i s t)) (Suc (hi (extent i s t))) obj"

definition cut :: "'r \<Rightarrow> u32 \<Rightarrow> 'b list \<Rightarrow> u32 \<Rightarrow> 'b list" where
  "cut r s bs i = (case window i s r of (f, t) \<Rightarrow> segment f t bs)"

lemma payload_segment:
  assumes "0 < unat s" "unat i * unat s < unat t" "length obj = unat t"
  shows "payload s t obj i = segment (unat i * unat s) (Suc (unat i) * unat s) obj"
proof (cases "unat i * unat s + unat s \<le> unat t")
  case True
  then show ?thesis using extent_law [OF assms(1,2)] by (simp add: payload_def add.commute)
next
  case False
  then have "segment (unat i * unat s) (Suc (unat i) * unat s) obj = drop (unat i * unat s) obj"
    using assms(3) by (intro segment_past) simp
  with False show ?thesis
    using extent_law [OF assms(1,2)] assms(3) by (simp add: payload_def segment_past)
qed

lemma index_below:
  assumes "fits r s" "i \<in> set (indices r s)"
  shows "unat i * unat s \<le> hi r" "lo r < Suc (unat i) * unat s"
proof -
  have "unat i \<in> set (map unat (indices r s))" using assms(2) by simp
  then have i: "lo r div unat s \<le> unat i" "unat i \<le> hi r div unat s"
    using indices_law [OF assms(1)] by auto
  have s: "0 < unat s" using fits_range [OF assms(1)] by simp
  show "unat i * unat s \<le> hi r" using i(2) s by (simp add: less_eq_div_iff_mult_less_eq)
  show "lo r < Suc (unat i) * unat s"
    using i(1) s by (metis div_less_iff_less_mult le_imp_less_Suc)
qed

lemma tiles:
  assumes "fits r s" "hi r < unat t" "length obj = unat t"
  shows "concat (map (\<lambda>i. cut r s (payload s t obj i) i) (indices r s))
       = segment (lo r) (Suc (hi r)) obj"
proof -
  let ?S = "unat s"
  let ?f = "\<lambda>n. segment (lo r - n * ?S) (min (hi r - n * ?S + 1) ?S) (segment (n * ?S) (Suc n * ?S) obj)"
  have s: "0 < ?S" "lo r \<le> hi r" using fits_range [OF assms(1)] by simp_all
  have "cut r s (payload s t obj i) i = ?f (unat i)" if "i \<in> set (indices r s)" for i
    using window_law [OF assms(1) that] index_below(1) [OF assms(1) that] assms(2,3) s(1)
    by (simp add: cut_def payload_segment del: mult_Suc)
  then have "map (\<lambda>i. cut r s (payload s t obj i) i) (indices r s) = map ?f (map unat (indices r s))"
    by (simp add: comp_def)
  then show ?thesis
    using tile_nat [OF s, of obj] indices_law [OF assms(1)] by simp
qed

lemma windows_within:
  assumes "fits r s" "i \<in> set (indices r s)" "window i s r = (f, t)"
  shows "f < t \<and> t \<le> unat s"
  using window_law [OF assms(1,2)] index_below [OF assms(1,2)] fits_range [OF assms(1)] assms(3)
  by auto

end

definition range_bytes :: "ByteRange \<Rightarrow> 'a list \<Rightarrow> 'a list" where
  "range_bytes r obj = segment (unat (br_start r)) (Suc (unat (br_end r))) obj"

abbreviation range_lo :: "ByteRange \<Rightarrow> nat" where "range_lo r \<equiv> unat (br_start r)"
abbreviation range_hi :: "ByteRange \<Rightarrow> nat" where "range_hi r \<equiv> unat (br_end r)"

lemma slice_extent_nat:
  assumes "0 < unat s" "unat i * unat s < unat t"
  shows "range_lo (slice_extent i s t) = unat i * unat s"
    and "Suc (range_hi (slice_extent i s t)) = min (unat i * unat s + unat s) (unat t)"
proof -
  show "range_lo (slice_extent i s t) = unat i * unat s"
    by (simp add: slice_extent_def Let_def unat_slice_start)
  have "unat i * unat s + unat s \<le> 4294967295 * 4294967295 + 4294967295"
    using unat_u32_nat [of i] unat_u32_nat [of s] by (intro add_mono mult_le_mono) auto
  then have "unat (ucast i * ucast s + ucast s :: u64) = unat i * unat s + unat s"
    by (subst unat_word_ariths) (simp add: unat_slice_start unat_u32_u64)
  then have "unat (ucast i * ucast s + ucast s - 1 :: u64) = unat i * unat s + unat s - 1"
    using assms(1) by (subst unat_sub) (simp_all add: word_le_nat_alt)
  then show "Suc (range_hi (slice_extent i s t)) = min (unat i * unat s + unat s) (unat t)"
    using assms by (simp add: slice_extent_def Let_def unat_min unat_saturating_sub)
qed

lemma addressable_end:
  assumes "addressable r s"
  shows "range_hi r < 2 ^ 64 - 1"
proof -
  have "range_hi r < 2 ^ 32 * unat s"
    using assms by (simp add: addressable_def word_less_nat_alt unat_max_addressable_len)
  then show ?thesis using unat_u32_nat [of s] by simp
qed

interpretation rng: slicer range_lo range_hi addressable
  "\<lambda>r s. plan_indices (plan r s)" payload_window slice_extent
proof unfold_locales
  fix r s assume a: "addressable r s"
  show "range_lo r \<le> range_hi r \<and> 0 < unat s" using a by (simp add: addressable_iff)
  show law: "map unat (plan_indices (plan r s)) = [range_lo r div unat s ..< Suc (range_hi r div unat s)]"
    by (simp add: map_unat_plan_indices plan_exact [OF a])
  fix i assume "i \<in> set (plan_indices (plan r s))"
  then have "unat i \<in> set [range_lo r div unat s ..< Suc (range_hi r div unat s)]"
    unfolding law [symmetric] by simp
  then have "unat i \<le> range_hi r div unat s" by auto
  then have "unat i * unat s \<le> range_hi r"
    using a by (simp add: addressable_iff less_eq_div_iff_mult_less_eq)
  then show "payload_window i s r = (range_lo r - unat i * unat s,
      min (range_hi r - unat i * unat s + 1) (unat s))"
    using addressable_end [OF a] by (rule payload_window_nat)
qed (simp_all add: slice_extent_nat)

section \<open>Properties\<close>

text \<open>
  C4: the windows of the planned slices tile the request. For a range inside an object, cutting each
  planned slice's payload with its window and concatenating gives exactly the requested bytes:
  no gap, no overlap, no byte outside the range.
\<close>

theorem windows_tile_request:
  assumes "addressable r s" "br_end r < len" "length obj = unat len"
  shows "concat (map (\<lambda>i. case payload_window i s r of
             (f, t) \<Rightarrow> segment f t (range_bytes (slice_extent i s len) obj)) (plan_indices (plan r s)))
       = range_bytes r obj"
  using rng.tiles [OF assms(1) _ assms(3)] assms(2)
  by (simp add: rng.cut_def rng.payload_def range_bytes_def word_less_nat_alt)

theorem windows_tile_request_witness:
  "concat (map (\<lambda>i. case payload_window i 4 \<lparr>br_start = 3, br_end = 8\<rparr> of
       (f, t) \<Rightarrow> segment f t (range_bytes (slice_extent i 4 10) [0 ..< 10 :: nat]))
     (plan_indices (plan \<lparr>br_start = 3, br_end = 8\<rparr> 4)))
   = range_bytes \<lparr>br_start = 3, br_end = 8\<rparr> [0 ..< 10]"
  by (rule windows_tile_request) (simp_all add: addressable_def max_addressable_len_def)

text \<open>
  C16: a plan is never inverted, and it is exact whenever the object's slices have \<open>u32\<close> indices: its
  first and last indices are the slices of the first and last requested byte, whatever the sizes.
\<close>

theorem plan_well_formed:
  assumes "0 < s"
  shows "sp_first (plan r s) \<le> sp_last (plan r s)
    \<and> (addressable r s \<longrightarrow>
         unat (sp_first (plan r s)) = unat (br_start r) div unat s
         \<and> unat (sp_last (plan r s)) = unat (br_end r) div unat s
         \<and> unat (plan_count (plan r s)) = length (plan_indices (plan r s)) mod 2 ^ 32)"
proof (intro conjI impI)
  have s: "0 < unat s" using assms by (simp add: word_less_nat_alt)
  show le: "sp_first (plan r s) \<le> sp_last (plan r s)"
    using plan_bounds(2) [OF s, of r] by (simp add: word_le_nat_alt)
  assume a: "addressable r s"
  show "unat (sp_first (plan r s)) = unat (br_start r) div unat s"
    and "unat (sp_last (plan r s)) = unat (br_end r) div unat s"
    by (fact plan_exact [OF a])+
  have "unat (sp_last (plan r s) - sp_first (plan r s))
      = unat (sp_last (plan r s)) - unat (sp_first (plan r s))"
    using le by (rule unat_sub)
  then show "unat (plan_count (plan r s)) = length (plan_indices (plan r s)) mod 2 ^ 32"
    using le by (simp add: plan_count_def plan_indices_def unat_word_ariths word_le_nat_alt Suc_diff_le
        del: upt_Suc)
qed

theorem plan_well_formed_witness:
  "(0 :: u32) < 1048576
   \<and> sp_first (plan \<lparr>br_start = 888888888, br_end = 888888888888888888\<rparr> 1)
      \<le> sp_last (plan \<lparr>br_start = 888888888, br_end = 888888888888888888\<rparr> 1)
   \<and> unat (sp_last (plan \<lparr>br_start = 0, br_end = 3145727\<rparr> 1048576)) = 2"
  using plan_well_formed [of 1 "\<lparr>br_start = 888888888, br_end = 888888888888888888\<rparr>"]
    plan_well_formed [of 1048576 "\<lparr>br_start = 0, br_end = 3145727\<rparr>"]
  by (simp add: addressable_def max_addressable_len_def)

text \<open>The byte positions a range spec selects in an object of \<open>n\<close> bytes, after RFC 9110.\<close>

definition selected :: "RangeSpec \<Rightarrow> nat \<Rightarrow> nat set" where
  "selected spec n =
    (case spec of
       FromTo a b \<Rightarrow> {unat a .. unat b} \<inter> {..< n}
     | From a \<Rightarrow> {unat a ..< n}
     | Suffix k \<Rightarrow> {n - unat k ..< n})"

definition spec_ordered :: "RangeSpec \<Rightarrow> bool" where
  "spec_ordered spec = (case spec of FromTo a b \<Rightarrow> a \<le> b | _ \<Rightarrow> True)"

lemma parse_range_ordered: "parse_range v = Ok spec \<Longrightarrow> spec_ordered spec"
  by (auto simp: parse_range_def spec_ordered_def rbind_Ok Let_def split: if_splits)

lemma word_eq_0_unat: "(t :: 'a::len word) = 0 \<longleftrightarrow> unat t = 0"
  by (simp add: word_unat_eq_iff)

lemma resolve_cases:
  assumes "spec_ordered spec"
  shows "(selected spec (unat t) = {} \<and> resolve spec t = Err Unsatisfiable)
    \<or> (\<exists>r. resolve spec t = Ok r \<and> br_start r \<le> br_end r \<and> br_end r < t
           \<and> selected spec (unat t) = {unat (br_start r) .. unat (br_end r)})"
proof (cases "t = 0")
  case True
  then show ?thesis by (auto simp: resolve_def selected_def split: RangeSpec.splits)
next
  case False
  then have t: "0 < unat t" "unat (t - 1) = unat t - 1"
    using unat_pred [of t] by (auto simp add: word_eq_0_unat)
  show ?thesis
  proof (cases spec)
    case (FromTo a b)
    then show ?thesis using t False assms
      by (auto simp: resolve_def selected_def spec_ordered_def word_less_nat_alt word_le_nat_alt unat_min)
  next
    case (From a)
    then show ?thesis using t False
      by (auto simp: resolve_def selected_def word_less_nat_alt word_le_nat_alt)
  next
    case (Suffix k)
    have "unat (t - min k t) = unat t - unat k"
      by (subst unat_sub) (auto simp: unat_min min_def word_le_nat_alt)
    then show ?thesis using t False Suffix
      by (auto simp: resolve_def selected_def word_less_nat_alt word_le_nat_alt word_eq_0_unat)
  qed
qed

text \<open>
  C10: a parsed range resolves to exactly the bytes RFC 9110 selects. When the spec selects no byte
  of the object the answer is 416, and otherwise the range is the selected positions, ordered
  and inside the object.
\<close>

theorem resolve_selects:
  assumes "parse_range v = Ok spec"
  shows "(resolve spec t = Err Unsatisfiable \<longleftrightarrow> selected spec (unat t) = {})
    \<and> (\<forall>r. resolve spec t = Ok r \<longrightarrow>
          br_start r \<le> br_end r \<and> br_end r < t
          \<and> selected spec (unat t) = {unat (br_start r) .. unat (br_end r)})
    \<and> resolve spec t \<noteq> Err Malformed \<and> resolve spec t \<noteq> Err Multiple"
  using resolve_cases [OF parse_range_ordered [OF assms], of t]
proof (elim disjE exE conjE)
  fix r
  assume "resolve spec t = Ok r" "br_start r \<le> br_end r" "br_end r < t"
    "selected spec (unat t) = {unat (br_start r) .. unat (br_end r)}"
  then show ?thesis by (simp add: word_le_nat_alt)
qed simp

theorem resolve_selects_witness:
  "parse_range ''bytes=-500'' = Ok (Suffix 500)
   \<and> resolve (Suffix 500) 200 = Ok \<lparr>br_start = 0, br_end = 199\<rparr>
   \<and> selected (Suffix 500) 200 = {0 .. 199}"
proof -
  have p: "parse_range ''bytes=-500'' = Ok (Suffix 500)"
    by (simp add: parse_range_def str_simps cong: rbind_weak_cong)
  moreover have "resolve (Suffix 500) 200 = Ok \<lparr>br_start = 0, br_end = 199\<rparr>"
    by (simp add: resolve_def)
  ultimately show ?thesis using resolve_selects [OF p, of 200] by simp
qed

text \<open>The printed form of a spec, as the upstream client writes it into its own requests.\<close>

definition show_spec :: "RangeSpec \<Rightarrow> string" where
  "show_spec spec = ''bytes='' @
    (case spec of
       FromTo a b \<Rightarrow> show_word a @ ''-'' @ show_word b
     | From a \<Rightarrow> show_word a @ ''-''
     | Suffix n \<Rightarrow> ''-'' @ show_word n)"

lemma trim_show_spec: "trim (show_spec spec) = show_spec spec"
proof (rule trim_id)
  have d: "graphic (last (show_nat n))" for n
    using show_nat_graphic [of "last (show_nat n)" n] by (simp add: is_digit_def graphic_def)
  then show "graphic (last (show_spec spec))"
    by (cases spec) (simp_all add: show_spec_def last_append graphic_def)
qed (simp_all add: show_spec_def graphic_def)

text \<open>
  Printing a range spec and parsing it gives the spec back, for every spec whose bounds are
  ordered; an inverted pair of bounds is malformed.
\<close>

theorem parse_show_spec:
  "parse_range (show_spec spec) = (if spec_ordered spec then Ok spec else Err Malformed)"
proof (cases spec)
  case (FromTo a b)
  then show ?thesis
    unfolding parse_range_def trim_show_spec
    by (auto simp: show_spec_def spec_ordered_def strip_prefix_def split_once_append digit_not)
next
  case (From a)
  then show ?thesis
    unfolding parse_range_def trim_show_spec
    by (simp add: show_spec_def spec_ordered_def strip_prefix_def split_once_append digit_not)
next
  case (Suffix n)
  then show ?thesis
    unfolding parse_range_def trim_show_spec
    by (simp add: show_spec_def spec_ordered_def strip_prefix_def digit_not)
qed

text \<open>
  C21: the slices of an object partition it. The extents of the indices up to the last byte,
  concatenated, are the object; every extent but the last has the full slice size.
\<close>

theorem extents_partition:
  assumes "0 < s" "0 < len" "len \<le> max_addressable_len s" "length obj = unat len"
  shows "concat (map (\<lambda>i. range_bytes (slice_extent i s len) obj)
             (plan_indices (plan \<lparr>br_start = 0, br_end = len - 1\<rparr> s))) = obj
    \<and> (\<forall>i. (ucast i + 1) * ucast s \<le> len \<longrightarrow> unat i < 2 ^ 32 - 1 \<longrightarrow>
          unat (range_len (slice_extent i s len)) = unat s)"
proof -
  let ?r = "\<lparr>br_start = 0, br_end = len - 1\<rparr>"
  have l: "unat (len - 1) = unat len - 1" "0 < unat len" "0 < unat s"
    using assms(1,2) unat_pred [of len] by (auto simp: word_less_nat_alt word_eq_0_unat)
  then have a: "addressable ?r s"
    using assms(1,3) by (simp add: addressable_def word_less_nat_alt word_le_nat_alt unat_max_addressable_len)
  have "concat (map (\<lambda>i. rng.cut ?r s (rng.payload s len obj i) i) (plan_indices (plan ?r s))) = obj"
    using rng.tiles [OF a _ assms(4)] l assms(4) by (simp add: segment_def)
  moreover have "rng.cut ?r s (rng.payload s len obj i) i = range_bytes (slice_extent i s len) obj"
    if "i \<in> set (plan_indices (plan ?r s))" for i
  proof -
    have i: "unat i * unat s < unat len" using rng.index_below(1) [OF a that] l by simp
    have "payload_window i s ?r = (0, min (unat len - unat i * unat s) (unat s))"
      using rng.window_law [OF a that] l i by simp
    moreover have "length (range_bytes (slice_extent i s len) obj)
        \<le> min (unat len - unat i * unat s) (unat s)"
      using slice_extent_nat [OF l(3) i] assms(4) by (auto simp: range_bytes_def segment_def)
    ultimately show ?thesis
      by (simp add: rng.cut_def rng.payload_def segment_past flip: range_bytes_def)
  qed
  ultimately have "concat (map (\<lambda>i. range_bytes (slice_extent i s len) obj) (plan_indices (plan ?r s))) = obj"
    by (simp cong: map_cong)
  moreover have "unat (range_len (slice_extent i s len)) = unat s"
    if "(ucast i + 1) * ucast s \<le> len" "unat i < 2 ^ 32 - 1" for i
  proof -
    have "ucast i + 1 = (ucast (i + 1) :: u64)"
      using that(2) by (simp add: word_unat_eq_iff unat_word_ariths unat_u32_u64)
    moreover have "unat (i + 1) = unat i + 1" using that(2) by (simp add: unat_word_ariths)
    ultimately have i: "(unat i + 1) * unat s \<le> unat len"
      using that(1) by (simp only: word_le_nat_alt unat_slice_start)
    then have "unat i * unat s < unat len" using l(3) by simp
    note e = slice_extent_nat [OF l(3) this]
    have "range_lo (slice_extent i s len) \<le> range_hi (slice_extent i s len)" using e i l(3) by simp
    then have "unat (br_end (slice_extent i s len) - br_start (slice_extent i s len)) = unat s - 1"
      using e i by (subst unat_sub) (simp_all add: word_le_nat_alt)
    then show ?thesis using l(3) unat_u32_nat [of s] by (simp add: range_len_def unat_word_ariths)
  qed
  ultimately show ?thesis by simp
qed

theorem extents_partition_witness:
  "concat (map (\<lambda>i. range_bytes (slice_extent i 4 10) [0 ..< 10 :: nat])
     (plan_indices (plan \<lparr>br_start = 0, br_end = 9\<rparr> 4))) = [0 ..< 10]
   \<and> unat (range_len (slice_extent 1 4 10)) = 4"
  using extents_partition [of 4 10 "[0 ..< 10 :: nat]"]
  by (simp add: max_addressable_len_def)

end
