(* ===== verification/Store_Slice.thy ===== *)
theory Store_Slice
  imports Rust_Str
begin

text \<open>
  \<open>store/slice.rs\<close>: the slice key and the self-describing slice value, and their binary codecs.
  A writer is the buffer it appends to and a reader the bytes that are left, so an encoder returns
  its bytes and a decoder the value with the rest of the input. The hash functions (\<open>xxh3_64\<close>,
  \<open>blake3\<close>) are parameters.

  The locale \<open>round_trip\<close> is the contract of an encoder/decoder pair, and \<open>codec\<close> adds that the
  decoder accepts nothing but encodings of valid values. Injectivity, one reading of a stream and the
  refusal of truncated input follow once and for all; they are interpreted for each pair.
\<close>

section \<open>Readers\<close>

datatype code_error = Io | OutOfRange | Parse | MagicMismatch | ChecksumMismatch

definition read_exact :: "nat \<Rightarrow> bytes \<Rightarrow> code_error + (bytes \<times> bytes)" where
  "read_exact n bs = (if n \<le> length bs then Ok (take n bs, drop n bs) else Err Io)"

definition read_u32 :: "bytes \<Rightarrow> code_error + (u32 \<times> bytes)" where
  "read_u32 bs = rbind (read_exact 4 bs) (\<lambda>(b, r). Ok (from_le_bytes b, r))"

definition read_u64 :: "bytes \<Rightarrow> code_error + (u64 \<times> bytes)" where
  "read_u64 bs = rbind (read_exact 8 bs) (\<lambda>(b, r). Ok (from_le_bytes b, r))"

lemma read_exact_Ok: "read_exact n bs = Ok (b, r) \<longleftrightarrow> length b = n \<and> bs = b @ r"
  by (auto simp: read_exact_def)

lemma read_u32_Ok: "read_u32 bs = Ok (w, r) \<longleftrightarrow> bs = to_le_bytes w @ r"
proof
  assume "read_u32 bs = Ok (w, r)"
  then obtain b where b: "length b = 4" "bs = b @ r" "w = from_le_bytes b"
    by (auto simp: read_u32_def rbind_Ok read_exact_Ok)
  then show "bs = to_le_bytes w @ r" by (simp add: to_le_from_le)
next
  assume "bs = to_le_bytes w @ r"
  then have "read_exact 4 bs = Ok (to_le_bytes w, r)" by (simp add: read_exact_Ok)
  then show "read_u32 bs = Ok (w, r)" by (simp add: read_u32_def)
qed

lemma read_u64_Ok: "read_u64 bs = Ok (w, r) \<longleftrightarrow> bs = to_le_bytes w @ r"
proof
  assume "read_u64 bs = Ok (w, r)"
  then obtain b where b: "length b = 8" "bs = b @ r" "w = from_le_bytes b"
    by (auto simp: read_u64_def rbind_Ok read_exact_Ok)
  then show "bs = to_le_bytes w @ r" by (simp add: to_le_from_le)
next
  assume "bs = to_le_bytes w @ r"
  then have "read_exact 8 bs = Ok (to_le_bytes w, r)" by (simp add: read_exact_Ok)
  then show "read_u64 bs = Ok (w, r)" by (simp add: read_u64_def)
qed

section \<open>The contract of a codec\<close>

locale round_trip =
  fixes valid :: "'a \<Rightarrow> bool"
    and enc :: "'a \<Rightarrow> 'e + bytes"
    and dec :: "bytes \<Rightarrow> 'f + ('a \<times> bytes)"
  assumes enc_valid: "valid x \<Longrightarrow> \<exists>bs. enc x = Ok bs"
    and decodes: "valid x \<Longrightarrow> enc x = Ok p \<Longrightarrow> dec (p @ r) = Ok (x, r)"
begin

lemma enc_inject: "valid x \<Longrightarrow> valid y \<Longrightarrow> enc x = enc y \<Longrightarrow> x = y"
proof -
  assume v: "valid x" "valid y" and "enc x = enc y"
  then obtain p where p: "enc x = Ok p" "enc y = Ok p" using enc_valid by metis
  show ?thesis using decodes [OF v(1) p(1), of "[]"] decodes [OF v(2) p(2), of "[]"] by simp
qed

text \<open>No encoding is a proper prefix of another, so a stream of values has one reading.\<close>

lemma prefix_free:
  assumes "valid x" "enc x = Ok p" "valid y" "enc y = Ok q" "q @ r = p"
  shows "x = y \<and> r = []"
proof -
  have "dec (p @ []) = Ok (x, [])" using decodes [OF assms(1,2)] .
  moreover have "dec (p @ []) = Ok (y, r)" using decodes [OF assms(3,4), of r] assms(5) by simp
  ultimately show ?thesis by simp
qed

end

text \<open>A canonical codec accepts nothing but encodings.\<close>

locale codec = round_trip valid enc dec
  for valid :: "'a \<Rightarrow> bool"
    and enc :: "'a \<Rightarrow> 'e + bytes"
    and dec :: "bytes \<Rightarrow> 'f + ('a \<times> bytes)" +
  assumes canonical: "dec bs = Ok (x, r) \<Longrightarrow> valid x \<and> (\<exists>p. enc x = Ok p \<and> bs = p @ r)"
begin

lemma dec_iff: "dec bs = Ok (x, r) \<longleftrightarrow> valid x \<and> (\<exists>p. enc x = Ok p \<and> bs = p @ r)"
  using canonical decodes by blast

lemma truncated_fails:
  assumes "valid x" "enc x = Ok p" "n < length p"
  shows "\<exists>e. dec (take n p) = Err e"
proof (cases "dec (take n p)")
  case (Inr yr)
  obtain y r where yr: "yr = (y, r)" by (cases yr)
  with Inr obtain q where q: "valid y" "enc y = Ok q" "take n p = q @ r" by (auto simp: dec_iff)
  then have "q @ (r @ drop n p) = p" by (metis append.assoc append_take_drop_id)
  from prefix_free [OF assms(1,2) q(1,2) this] assms(3) show ?thesis by simp
qed simp

end

lemma codecI:
  assumes "\<And>x. valid x \<Longrightarrow> \<exists>bs. enc x = Ok bs"
    and "\<And>bs x r. dec bs = Ok (x, r) \<longleftrightarrow> valid x \<and> (\<exists>p. enc x = Ok p \<and> bs = p @ r)"
  shows "codec valid enc dec"
  using assms by unfold_locales auto

section \<open>Optional strings\<close>

definition opt_str_len :: "string option \<Rightarrow> nat" where
  "opt_str_len s = 4 + (case s of None \<Rightarrow> 0 | Some v \<Rightarrow> length v)"

definition write_opt_str :: "string option \<Rightarrow> code_error + bytes" where
  "write_opt_str s =
    (case s of
       None \<Rightarrow> Ok (to_le_bytes (- 1 :: u32))
     | Some v \<Rightarrow>
         if length v < 2 ^ 32 then Ok (to_le_bytes (of_nat (length v) :: u32) @ str_bytes v)
         else Err OutOfRange)"

definition read_opt_str :: "bytes \<Rightarrow> code_error + (string option \<times> bytes)" where
  "read_opt_str bs =
    rbind (read_u32 bs) (\<lambda>(len, r).
      if len = - 1 then Ok (None, r)
      else rbind (read_exact (unat len) r) (\<lambda>(buf, r').
        rbind (ok_or Parse (from_utf8 buf)) (\<lambda>v. Ok (Some v, r'))))"

definition valid_opt_str :: "string option \<Rightarrow> bool" where
  "valid_opt_str s = (case s of None \<Rightarrow> True | Some v \<Rightarrow> utf8_valid v \<and> length v < 2 ^ 32 - 1)"

lemma unat_of_len: "n < 2 ^ 32 \<Longrightarrow> unat (of_nat n :: u32) = n"
  by (simp add: unsigned_of_nat take_bit_eq_mod)

lemma of_len_not_max: "n < 2 ^ 32 - 1 \<Longrightarrow> (of_nat n :: u32) \<noteq> - 1"
proof
  assume n: "n < 2 ^ 32 - 1" and "(of_nat n :: u32) = - 1"
  then have "unat (of_nat n :: u32) = 2 ^ 32 - 1"
    by (simp add: unsigned_minus_1_eq_mask mask_eq_exp_minus_1)
  with n show False by (simp add: unat_of_len)
qed

lemma not_max_less: "len \<noteq> - 1 \<Longrightarrow> unat (len :: u32) < 2 ^ 32 - 1"
proof (rule ccontr)
  assume "len \<noteq> - 1" and "\<not> unat len < 2 ^ 32 - 1"
  then have "unat len = unat (- 1 :: u32)"
    using unat_u32_nat [of len] by (simp add: unsigned_minus_1_eq_mask mask_eq_exp_minus_1)
  with \<open>len \<noteq> - 1\<close> show False by (simp add: word_unat_eq_iff)
qed

lemma read_opt_str_Some:
  "read_opt_str bs = Ok (Some v, r) \<longleftrightarrow>
     utf8_valid v \<and> length v < 2 ^ 32 - 1 \<and> bs = to_le_bytes (of_nat (length v) :: u32) @ str_bytes v @ r"
proof
  assume "read_opt_str bs = Ok (Some v, r)"
  then obtain len :: u32 and r1 buf where "len \<noteq> - 1" "bs = to_le_bytes len @ r1" "length buf = unat len"
      "r1 = buf @ r" "from_utf8 buf = Some v"
    by (auto simp: read_opt_str_def rbind_Ok read_u32_Ok read_exact_Ok ok_or_Ok split: if_splits)
  moreover from this have "len = of_nat (length v)" by (auto simp: from_utf8_Some)
  ultimately show "utf8_valid v \<and> length v < 2 ^ 32 - 1
      \<and> bs = to_le_bytes (of_nat (length v) :: u32) @ str_bytes v @ r"
    using not_max_less [of len] by (auto simp: from_utf8_Some)
next
  assume v: "utf8_valid v \<and> length v < 2 ^ 32 - 1
      \<and> bs = to_le_bytes (of_nat (length v) :: u32) @ str_bytes v @ r"
  then have "read_u32 bs = Ok (of_nat (length v), str_bytes v @ r)" by (simp add: read_u32_Ok)
  moreover have "read_exact (length v) (str_bytes v @ r) = Ok (str_bytes v, r)"
    by (simp add: read_exact_Ok)
  ultimately show "read_opt_str bs = Ok (Some v, r)"
    using v of_len_not_max [of "length v"] unat_of_len [of "length v"] by (simp add: read_opt_str_def)
qed

lemma read_opt_str_None: "read_opt_str bs = Ok (None, r) \<longleftrightarrow> bs = to_le_bytes (- 1 :: u32) @ r"
  by (auto simp: read_opt_str_def rbind_Ok read_u32_Ok split: if_splits)

interpretation ostr: codec valid_opt_str write_opt_str read_opt_str
proof (rule codecI)
  show "valid_opt_str x \<Longrightarrow> \<exists>bs. write_opt_str x = Ok bs" for x
    by (auto simp: valid_opt_str_def write_opt_str_def split: option.splits)
  show "read_opt_str bs = Ok (x, r) \<longleftrightarrow>
      valid_opt_str x \<and> (\<exists>p. write_opt_str x = Ok p \<and> bs = p @ r)" for bs x r
    by (cases x) (auto simp: read_opt_str_None read_opt_str_Some valid_opt_str_def write_opt_str_def)
qed

section \<open>Slice keys\<close>

type_synonym ObjectId = bytes

definition slice_object_id :: "(bytes \<Rightarrow> bytes) \<Rightarrow> string \<Rightarrow> ObjectId" where
  "slice_object_id blake3 key = take 16 (blake3 (str_bytes key))"

record SliceKey =
  sk_object :: ObjectId
  sk_generation :: u32
  sk_index :: u32

definition SliceKey_new :: "ObjectId \<Rightarrow> u32 \<Rightarrow> u32 \<Rightarrow> SliceKey" where
  "SliceKey_new object generation index =
    \<lparr>sk_object = object, sk_generation = generation, sk_index = index\<rparr>"

definition SliceKey_encode :: "SliceKey \<Rightarrow> code_error + bytes" where
  "SliceKey_encode k = Ok (sk_object k @ to_le_bytes (sk_generation k) @ to_le_bytes (sk_index k))"

definition SliceKey_decode :: "bytes \<Rightarrow> code_error + (SliceKey \<times> bytes)" where
  "SliceKey_decode bs =
    rbind (read_exact 16 bs) (\<lambda>(object, r).
      rbind (read_u32 r) (\<lambda>(generation, r).
        rbind (read_u32 r) (\<lambda>(index, r).
          Ok (\<lparr>sk_object = object, sk_generation = generation, sk_index = index\<rparr>, r))))"

definition SliceKey_estimated_size :: "SliceKey \<Rightarrow> nat" where
  "SliceKey_estimated_size k = 16 + 4 + 4"

text \<open>An object id is an array of 16 bytes.\<close>

definition valid_key :: "SliceKey \<Rightarrow> bool" where
  "valid_key k \<longleftrightarrow> length (sk_object k) = 16"

interpretation skey: codec valid_key SliceKey_encode SliceKey_decode
proof (rule codecI)
  show "SliceKey_decode bs = Ok (x, r) \<longleftrightarrow>
      valid_key x \<and> (\<exists>p. SliceKey_encode x = Ok p \<and> bs = p @ r)" for bs x r
    by (cases x)
      (auto simp: SliceKey_decode_def SliceKey_encode_def valid_key_def rbind_Ok read_exact_Ok read_u32_Ok)
qed (simp add: SliceKey_encode_def)

section \<open>Slice headers\<close>

record SliceHeader =
  sh_slice_size :: u32
  sh_total_len :: u64
  sh_generation :: u32
  sh_etag :: "string option"
  sh_last_modified :: "string option"
  sh_content_type :: "string option"

definition SliceHeader_encode :: "SliceHeader \<Rightarrow> code_error + bytes" where
  "SliceHeader_encode h =
    rbind (write_opt_str (sh_etag h)) (\<lambda>e.
      rbind (write_opt_str (sh_last_modified h)) (\<lambda>l.
        rbind (write_opt_str (sh_content_type h)) (\<lambda>c.
          Ok (to_le_bytes (sh_slice_size h) @ to_le_bytes (sh_total_len h)
              @ to_le_bytes (sh_generation h) @ e @ l @ c))))"

definition SliceHeader_decode :: "bytes \<Rightarrow> code_error + (SliceHeader \<times> bytes)" where
  "SliceHeader_decode bs =
    rbind (read_u32 bs) (\<lambda>(slice_size, r).
      rbind (read_u64 r) (\<lambda>(total_len, r).
        rbind (read_u32 r) (\<lambda>(generation, r).
          rbind (read_opt_str r) (\<lambda>(etag, r).
            rbind (read_opt_str r) (\<lambda>(last_modified, r).
              rbind (read_opt_str r) (\<lambda>(content_type, r).
                Ok (\<lparr>sh_slice_size = slice_size, sh_total_len = total_len,
                     sh_generation = generation, sh_etag = etag,
                     sh_last_modified = last_modified, sh_content_type = content_type\<rparr>, r)))))))"

definition SliceHeader_encoded_len :: "SliceHeader \<Rightarrow> nat" where
  "SliceHeader_encoded_len h =
    4 + 8 + 4 + opt_str_len (sh_etag h) + opt_str_len (sh_last_modified h)
    + opt_str_len (sh_content_type h)"

definition valid_header :: "SliceHeader \<Rightarrow> bool" where
  "valid_header h \<longleftrightarrow>
     valid_opt_str (sh_etag h) \<and> valid_opt_str (sh_last_modified h) \<and> valid_opt_str (sh_content_type h)"

interpretation shdr: codec valid_header SliceHeader_encode SliceHeader_decode
proof (rule codecI)
  fix x
  show "valid_header x \<Longrightarrow> \<exists>bs. SliceHeader_encode x = Ok bs"
    by (auto simp: valid_header_def SliceHeader_encode_def rbind_Ok dest!: ostr.enc_valid)
next
  fix bs x r
  show "SliceHeader_decode bs = Ok (x, r) \<longleftrightarrow>
      valid_header x \<and> (\<exists>p. SliceHeader_encode x = Ok p \<and> bs = p @ r)"
    by (cases x)
      (auto simp: SliceHeader_decode_def SliceHeader_encode_def valid_header_def rbind_Ok
         read_u32_Ok read_u64_Ok ostr.dec_iff)
qed

section \<open>Slice values\<close>

record SliceValue =
  sv_header :: SliceHeader
  sv_payload :: bytes

definition MAGIC :: u32 where
  "MAGIC = 0x43414331"

definition SliceValue_new :: "SliceHeader \<Rightarrow> bytes \<Rightarrow> SliceValue" where
  "SliceValue_new header payload = \<lparr>sv_header = header, sv_payload = payload\<rparr>"

definition SliceValue_encode :: "(bytes \<Rightarrow> u64) \<Rightarrow> SliceValue \<Rightarrow> code_error + bytes" where
  "SliceValue_encode xxh3 v =
    rbind (SliceHeader_encode (sv_header v)) (\<lambda>h.
      if length (sv_payload v) < 2 ^ 32 then
        Ok (to_le_bytes MAGIC @ h @ to_le_bytes (xxh3 (sv_payload v))
            @ to_le_bytes (of_nat (length (sv_payload v)) :: u32) @ sv_payload v)
      else Err OutOfRange)"

text \<open>The decoder also counts checksum failures in a process-wide counter.\<close>

definition SliceValue_decode_counted ::
  "(bytes \<Rightarrow> u64) \<Rightarrow> u64 \<Rightarrow> bytes \<Rightarrow> u64 \<times> (code_error + (SliceValue \<times> bytes))" where
  "SliceValue_decode_counted xxh3 failures bs =
    (case rbind (read_u32 bs) (\<lambda>(magic, r).
            if magic \<noteq> MAGIC then Err MagicMismatch
            else
              rbind (SliceHeader_decode r) (\<lambda>(header, r).
                rbind (read_u64 r) (\<lambda>(expected, r).
                  rbind (read_u32 r) (\<lambda>(len, r).
                    rbind (read_exact (unat len) r) (\<lambda>(payload, r).
                      Ok (header, expected, payload, r)))))) of
       Inl e \<Rightarrow> (failures, Err e)
     | Inr (header, expected, payload, r) \<Rightarrow>
         if xxh3 payload \<noteq> expected then (failures + 1, Err ChecksumMismatch)
         else (failures, Ok (\<lparr>sv_header = header, sv_payload = payload\<rparr>, r)))"

definition SliceValue_decode :: "(bytes \<Rightarrow> u64) \<Rightarrow> bytes \<Rightarrow> code_error + (SliceValue \<times> bytes)" where
  "SliceValue_decode xxh3 bs = snd (SliceValue_decode_counted xxh3 0 bs)"

definition SliceValue_estimated_size :: "SliceValue \<Rightarrow> nat" where
  "SliceValue_estimated_size v =
    4 + SliceHeader_encoded_len (sv_header v) + 8 + 4 + length (sv_payload v)"

definition valid_value :: "SliceValue \<Rightarrow> bool" where
  "valid_value v \<longleftrightarrow> valid_header (sv_header v) \<and> length (sv_payload v) < 2 ^ 32"

lemma decode_counted_snd: "snd (SliceValue_decode_counted xxh3 n bs) = SliceValue_decode xxh3 bs"
  by (auto simp: SliceValue_decode_def SliceValue_decode_counted_def split: sum.splits prod.splits)

lemma SliceValue_decode_Ok:
  "SliceValue_decode xxh3 bs = Ok (v, r) \<longleftrightarrow>
    (\<exists>h. valid_header (sv_header v) \<and> SliceHeader_encode (sv_header v) = Ok h
       \<and> length (sv_payload v) < 2 ^ 32
       \<and> bs = to_le_bytes MAGIC @ h @ to_le_bytes (xxh3 (sv_payload v))
            @ to_le_bytes (of_nat (length (sv_payload v)) :: u32) @ sv_payload v @ r)"
  (is "?L \<longleftrightarrow> ?R")
proof
  assume ?L
  then obtain h len where "valid_header (sv_header v)" "SliceHeader_encode (sv_header v) = Ok h"
      "length (sv_payload v) = unat (len :: u32)"
      "bs = to_le_bytes MAGIC @ h @ to_le_bytes (xxh3 (sv_payload v)) @ to_le_bytes len @ sv_payload v @ r"
    by (auto simp: SliceValue_decode_def SliceValue_decode_counted_def rbind_Ok read_u32_Ok read_u64_Ok
        read_exact_Ok shdr.dec_iff split: sum.splits if_splits prod.splits)
  moreover from this have "len = of_nat (length (sv_payload v))" by simp
  ultimately show ?R using unat_u32_nat [of len] by auto
next
  assume ?R
  then obtain h where h: "valid_header (sv_header v)" "SliceHeader_encode (sv_header v) = Ok h"
    and l: "length (sv_payload v) < 2 ^ 32"
    and bs: "bs = to_le_bytes MAGIC @ h @ to_le_bytes (xxh3 (sv_payload v))
            @ to_le_bytes (of_nat (length (sv_payload v)) :: u32) @ sv_payload v @ r"
    by blast
  have "SliceHeader_decode (h @ q) = Ok (sv_header v, q)" for q
    using shdr.decodes [OF h] .
  moreover have "read_u32 (to_le_bytes w @ q) = Ok (w, q)" "read_u64 (to_le_bytes x @ q) = Ok (x, q)" for w x q
    by (simp_all add: read_u32_Ok read_u64_Ok)
  moreover have "read_exact (unat (of_nat (length (sv_payload v)) :: u32)) (sv_payload v @ q) = Ok (sv_payload v, q)" for q
    using l by (simp add: unat_of_len read_exact_Ok)
  ultimately show ?L
    by (simp add: bs SliceValue_decode_def SliceValue_decode_counted_def)
qed

interpretation sval: codec valid_value "SliceValue_encode xxh3" "SliceValue_decode xxh3" for xxh3
proof (rule codecI)
  show "valid_value x \<Longrightarrow> \<exists>bs. SliceValue_encode xxh3 x = Ok bs" for x
    by (auto simp: valid_value_def SliceValue_encode_def rbind_Ok dest!: shdr.enc_valid)
  show "SliceValue_decode xxh3 bs = Ok (x, r) \<longleftrightarrow>
      valid_value x \<and> (\<exists>p. SliceValue_encode xxh3 x = Ok p \<and> bs = p @ r)" for bs x r
    by (auto simp: SliceValue_decode_Ok SliceValue_encode_def valid_value_def rbind_Ok)
qed

section \<open>Properties\<close>

lemma length_write_opt_str: "write_opt_str s = Ok p \<Longrightarrow> length p = opt_str_len s"
  by (auto simp: write_opt_str_def opt_str_len_def split: option.splits if_splits)

lemma length_SliceHeader_encode: "SliceHeader_encode h = Ok p \<Longrightarrow> length p = SliceHeader_encoded_len h"
  by (auto simp: SliceHeader_encode_def SliceHeader_encoded_len_def rbind_Ok dest!: length_write_opt_str)

lemma length_SliceValue_encode:
  "SliceValue_encode xxh3 v = Ok p \<Longrightarrow> length p = SliceValue_estimated_size v"
  by (auto simp: SliceValue_encode_def SliceValue_estimated_size_def rbind_Ok
      dest!: length_SliceHeader_encode split: if_splits)

text \<open>
  C9: a stored slice survives its encoding. Every slice whose strings are UTF-8 below the sentinel
  length and whose payload length fits in \<open>u32\<close> encodes, the size the store is told is the exact
  size, and decoding returns the slice, leaving what follows it in the stream untouched.
\<close>

theorem slice_value_round_trip:
  assumes "valid_value v"
  shows "\<exists>bs. SliceValue_encode xxh3 v = Ok bs
    \<and> length bs = SliceValue_estimated_size v
    \<and> (\<forall>rest. SliceValue_decode xxh3 (bs @ rest) = Ok (v, rest))"
proof -
  obtain bs where bs: "SliceValue_encode xxh3 v = Ok bs" using sval.enc_valid [OF assms] by blast
  then show ?thesis using sval.decodes [OF assms bs] length_SliceValue_encode [OF bs] by blast
qed

definition sum64 :: "bytes \<Rightarrow> u64" where
  "sum64 bs = foldl (\<lambda>a b. a + ucast b) 0 bs"

definition sample_slice :: SliceValue where
  "sample_slice =
    \<lparr>sv_header = \<lparr>sh_slice_size = 4, sh_total_len = 6, sh_generation = 1, sh_etag = Some ''abc'',
        sh_last_modified = None, sh_content_type = Some []\<rparr>,
     sv_payload = [1, 2, 3, 4]\<rparr>"

lemma valid_sample_slice: "valid_value sample_slice"
  by (simp add: sample_slice_def valid_value_def valid_header_def valid_opt_str_def utf8_valid_def)

theorem slice_value_round_trip_witness:
  "\<exists>bs. SliceValue_encode sum64 sample_slice = Ok bs
    \<and> length bs = SliceValue_estimated_size sample_slice
    \<and> (\<forall>rest. SliceValue_decode sum64 (bs @ rest) = Ok (sample_slice, rest))"
  by (rule slice_value_round_trip [OF valid_sample_slice])

text \<open>
  C8: only intact slices are served. Whatever bytes a decode accepts, they are the encoding of the
  slice it returns, with a checksum that is the hash of the returned payload.
\<close>

theorem decoded_slice_is_intact:
  assumes "SliceValue_decode xxh3 bs = Ok (v, rest)"
  shows "valid_value v
    \<and> (\<exists>p h. SliceValue_encode xxh3 v = Ok p \<and> bs = p @ rest
          \<and> p = to_le_bytes MAGIC @ h @ to_le_bytes (xxh3 (sv_payload v))
                @ to_le_bytes (of_nat (length (sv_payload v)) :: u32) @ sv_payload v)"
  using assms by (auto simp: SliceValue_decode_Ok SliceValue_encode_def valid_value_def)

theorem decoded_slice_is_intact_witness:
  "\<exists>bs p. SliceValue_decode sum64 bs = Ok (sample_slice, [])
    \<and> SliceValue_encode sum64 sample_slice = Ok p \<and> bs = p"
proof -
  obtain bs where "SliceValue_encode sum64 sample_slice = Ok bs"
    using sval.enc_valid [OF valid_sample_slice] by blast
  from sval.decodes [OF valid_sample_slice this, of "[]"]
  have d: "SliceValue_decode sum64 bs = Ok (sample_slice, [])" by simp
  show ?thesis using decoded_slice_is_intact [OF d] d by auto
qed

text \<open>
  C23: corruption of a stored payload is detected and counted. When the payload bytes on disk no
  longer hash to the stored checksum the decode fails, returning nothing of the payload, and the
  process-wide failure counter goes up by one; no other failure moves the counter.
\<close>

theorem corruption_detected:
  assumes "valid_value v" "length p' = length (sv_payload v)" "xxh3 p' \<noteq> xxh3 (sv_payload v)"
    and "SliceHeader_encode (sv_header v) = Ok h"
  shows "SliceValue_decode_counted xxh3 n
      (to_le_bytes MAGIC @ h @ to_le_bytes (xxh3 (sv_payload v))
        @ to_le_bytes (of_nat (length (sv_payload v)) :: u32) @ p' @ rest) = (n + 1, Err ChecksumMismatch)
    \<and> (\<forall>bs e. snd (SliceValue_decode_counted xxh3 n bs) = Err e \<longrightarrow> e \<noteq> ChecksumMismatch \<longrightarrow>
          fst (SliceValue_decode_counted xxh3 n bs) = n)"
proof (intro conjI allI impI)
  have l: "length (sv_payload v) < 2 ^ 32" "valid_header (sv_header v)"
    using assms(1) by (auto simp: valid_value_def)
  have "SliceHeader_decode (h @ q) = Ok (sv_header v, q)" for q
    using shdr.decodes [OF l(2) assms(4)] .
  moreover have "read_u32 (to_le_bytes w @ q) = Ok (w, q)" "read_u64 (to_le_bytes x @ q) = Ok (x, q)" for w x q
    by (simp_all add: read_u32_Ok read_u64_Ok)
  moreover have "read_exact (unat (of_nat (length (sv_payload v)) :: u32)) (p' @ q) = Ok (p', q)" for q
    using l(1) assms(2) by (simp add: unat_of_len read_exact_Ok)
  ultimately show "SliceValue_decode_counted xxh3 n
      (to_le_bytes MAGIC @ h @ to_le_bytes (xxh3 (sv_payload v))
        @ to_le_bytes (of_nat (length (sv_payload v)) :: u32) @ p' @ rest) = (n + 1, Err ChecksumMismatch)"
    using assms(3) by (simp add: SliceValue_decode_counted_def)
next
  fix bs e
  assume "snd (SliceValue_decode_counted xxh3 n bs) = Err e" "e \<noteq> ChecksumMismatch"
  then show "fst (SliceValue_decode_counted xxh3 n bs) = n"
    by (auto simp: SliceValue_decode_counted_def split: sum.splits prod.splits if_splits)
qed

theorem corruption_detected_witness:
  "\<exists>bs. SliceValue_decode_counted sum64 7 bs = (8, Err ChecksumMismatch)"
proof -
  obtain h where "SliceHeader_encode (sv_header sample_slice) = Ok h"
    using valid_sample_slice shdr.enc_valid by (auto simp: valid_value_def)
  from corruption_detected [OF valid_sample_slice _ _ this, of "[0, 2, 3, 4]" sum64 7 "[]"]
  show ?thesis by (auto simp: sample_slice_def sum64_def)
qed

text \<open>
  A torn write never decodes. Every proper prefix of the encoding of a slice, of a slice key or
  of an optional string is refused, so a record cut short by a crash cannot be read as a value.
\<close>

theorem torn_write_refused:
  "(\<forall>v p n. valid_value v \<longrightarrow> SliceValue_encode xxh3 v = Ok p \<longrightarrow> n < length p \<longrightarrow>
      (\<exists>e. SliceValue_decode xxh3 (take n p) = Err e))
   \<and> (\<forall>k p n. valid_key k \<longrightarrow> SliceKey_encode k = Ok p \<longrightarrow> n < length p \<longrightarrow>
      (\<exists>e. SliceKey_decode (take n p) = Err e))
   \<and> (\<forall>s p n. valid_opt_str s \<longrightarrow> write_opt_str s = Ok p \<longrightarrow> n < length p \<longrightarrow>
      (\<exists>e. read_opt_str (take n p) = Err e))"
  using sval.truncated_fails skey.truncated_fails ostr.truncated_fails by blast

theorem torn_write_refused_witness:
  "\<exists>p e. SliceValue_encode sum64 sample_slice = Ok p \<and> length p = 51
     \<and> SliceValue_decode sum64 (take 50 p) = Err e"
proof -
  obtain p where p: "SliceValue_encode sum64 sample_slice = Ok p"
    using sval.enc_valid [OF valid_sample_slice] by blast
  then have l: "length p = 51"
    by (simp add: length_SliceValue_encode SliceValue_estimated_size_def SliceHeader_encoded_len_def
        opt_str_len_def sample_slice_def)
  then have "50 < length p" by simp
  then show ?thesis using l p torn_write_refused [of sum64] valid_sample_slice by blast
qed

text \<open>
  A header string of exactly the sentinel length is written as if absent: the encoder accepts it
  but its length field is the absent marker, so it reads back as no string, with its bytes left in
  the stream.
\<close>

theorem sentinel_length_string:
  assumes "length v = 2 ^ 32 - 1"
  shows "\<exists>p. write_opt_str (Some v) = Ok p \<and> read_opt_str (p @ rest) = Ok (None, str_bytes v @ rest)"
proof -
  have m: "(of_nat (2 ^ 32 - 1) :: u32) = - 1" by simp
  have "write_opt_str (Some v) = Ok (to_le_bytes (- 1 :: u32) @ str_bytes v)"
    unfolding write_opt_str_def option.case assms m by simp
  then show ?thesis by (simp add: read_opt_str_None)
qed

theorem sentinel_length_string_witness:
  "\<exists>p. write_opt_str (Some (replicate (2 ^ 32 - 1) (CHR ''a''))) = Ok p
    \<and> read_opt_str (p @ []) = Ok (None, str_bytes (replicate (2 ^ 32 - 1) (CHR ''a'')) @ [])"
  by (rule sentinel_length_string) (rule length_replicate)

end
