(* ===== verification/Store_Index.thy ===== *)
theory Store_Index
  imports Store_Slice "HOL-Library.AList"
begin

text \<open>
  \<open>store/index.rs\<close>: the object index. Its entries are encoded \<open>ObjectMeta\<close> records in a table of
  the embedded database redb, which is not part of the sources: the database is a record of its
  operations (\<open>redb\<close>), an argument of everything here, and \<open>redb_ok\<close> says what its documentation
  promises of them. Any operation may fail; a write transaction that is not committed changes nothing.
  The clock is an argument.

  The locale \<open>object_table\<close> is the contract the orchestrator and the admin API use; the index
  implements it, as a map from object ids to metadata.
\<close>

section \<open>Metadata\<close>

datatype IndexError =
    Database string | Transaction string | Table string | Storage string | Commit string
  | Corrupt string string

definition LAST_SEEN_GRANULARITY :: u64 where
  "LAST_SEEN_GRANULARITY = 3600"

record ObjectMeta =
  om_key :: string
  om_total_len :: u64
  om_generation :: u32
  om_etag :: "string option"
  om_last_modified :: "string option"
  om_content_type :: "string option"
  om_no_ranges :: bool
  om_created :: u64
  om_last_seen :: u64
  om_stale :: bool

definition hex_digit :: "nat \<Rightarrow> char" where
  "hex_digit n = (if n < 10 then char_of (48 + n) else char_of (87 + n))"

definition hex :: "ObjectId \<Rightarrow> string" where
  "hex id' = concat (map (\<lambda>b. [hex_digit (unat b div 16), hex_digit (unat b mod 16)]) id')"

definition put_str :: "string option \<Rightarrow> bytes" where
  "put_str value =
    (case value of
       None \<Rightarrow> to_le_bytes (- 1 :: u32)
     | Some v \<Rightarrow> to_le_bytes (of_nat (length v) :: u32) @ str_bytes v)"

definition ObjectMeta_encode :: "ObjectMeta \<Rightarrow> bytes" where
  "ObjectMeta_encode m =
    to_le_bytes (om_total_len m) @ to_le_bytes (om_generation m)
    @ [of_bool (om_no_ranges m)] @ [of_bool (om_stale m)]
    @ to_le_bytes (om_created m) @ to_le_bytes (om_last_seen m)
    @ put_str (Some (om_key m)) @ put_str (om_etag m) @ put_str (om_last_modified m)
    @ put_str (om_content_type m)"

text \<open>The cursor, as the bytes it has not consumed.\<close>

definition cursor_take :: "nat \<Rightarrow> bytes \<Rightarrow> (bytes \<times> bytes) option" where
  "cursor_take n bs = (if n \<le> length bs then Some (take n bs, drop n bs) else None)"

definition cursor_u8 :: "bytes \<Rightarrow> (u8 \<times> bytes) option" where
  "cursor_u8 bs = map_option (\<lambda>(b, r). (hd b, r)) (cursor_take 1 bs)"

definition cursor_u32 :: "bytes \<Rightarrow> (u32 \<times> bytes) option" where
  "cursor_u32 bs = map_option (\<lambda>(b, r). (from_le_bytes b, r)) (cursor_take 4 bs)"

definition cursor_u64 :: "bytes \<Rightarrow> (u64 \<times> bytes) option" where
  "cursor_u64 bs = map_option (\<lambda>(b, r). (from_le_bytes b, r)) (cursor_take 8 bs)"

definition cursor_string :: "bytes \<Rightarrow> (string option \<times> bytes) option" where
  "cursor_string bs =
    (case cursor_u32 bs of
       None \<Rightarrow> None
     | Some (len, r) \<Rightarrow>
         if len = - 1 then Some (None, r)
         else map_option (\<lambda>(b, r'). (from_utf8 b, r')) (cursor_take (unat len) r))"

definition ObjectMeta_decode_rest :: "bytes \<Rightarrow> ObjectId \<Rightarrow> IndexError + (ObjectMeta \<times> bytes)" where
  "ObjectMeta_decode_rest bs id' =
    (let corrupt = (\<lambda>reason. Corrupt (hex id') reason) in
     rbind (ok_or (corrupt ''truncated total_len'') (cursor_u64 bs)) (\<lambda>(total_len, r).
     rbind (ok_or (corrupt ''truncated generation'') (cursor_u32 r)) (\<lambda>(generation, r).
     rbind (ok_or (corrupt ''truncated no_ranges'') (cursor_u8 r)) (\<lambda>(no_ranges, r).
     rbind (ok_or (corrupt ''truncated stale'') (cursor_u8 r)) (\<lambda>(stale, r).
     rbind (ok_or (corrupt ''truncated created'') (cursor_u64 r)) (\<lambda>(created, r).
     rbind (ok_or (corrupt ''truncated last_seen'') (cursor_u64 r)) (\<lambda>(last_seen, r).
     rbind (ok_or (corrupt ''truncated key'') (cursor_string r)) (\<lambda>(key, r).
     rbind (ok_or (corrupt ''missing key'') key) (\<lambda>key.
     rbind (ok_or (corrupt ''truncated etag'') (cursor_string r)) (\<lambda>(etag, r).
     rbind (ok_or (corrupt ''truncated last_modified'') (cursor_string r)) (\<lambda>(last_modified, r).
     rbind (ok_or (corrupt ''truncated content_type'') (cursor_string r)) (\<lambda>(content_type, r).
       Ok (\<lparr>om_key = key, om_total_len = total_len, om_generation = generation, om_etag = etag,
            om_last_modified = last_modified, om_content_type = content_type,
            om_no_ranges = (no_ranges \<noteq> 0), om_created = created, om_last_seen = last_seen,
            om_stale = (stale \<noteq> 0)\<rparr>, r)))))))))))))"

definition ObjectMeta_decode :: "bytes \<Rightarrow> ObjectId \<Rightarrow> IndexError + ObjectMeta" where
  "ObjectMeta_decode bs id' = rbind (ObjectMeta_decode_rest bs id') (\<lambda>(m, _). Ok m)"

definition valid_meta :: "ObjectMeta \<Rightarrow> bool" where
  "valid_meta m \<longleftrightarrow>
     valid_opt_str (Some (om_key m)) \<and> valid_opt_str (om_etag m) \<and> valid_opt_str (om_last_modified m)
     \<and> valid_opt_str (om_content_type m)"

lemma cursor_take_append [simp]: "length b = n \<Longrightarrow> cursor_take n (b @ r) = Some (b, r)"
  by (auto simp: cursor_take_def)

lemma cursor_u8_Cons [simp]: "cursor_u8 (b # r) = Some (b, r)"
  by (simp add: cursor_u8_def cursor_take_def)

lemma cursor_u32_append [simp]: "cursor_u32 (to_le_bytes w @ r) = Some (w, r)"
  by (simp add: cursor_u32_def)

lemma cursor_u64_append [simp]: "cursor_u64 (to_le_bytes w @ r) = Some (w, r)"
  by (simp add: cursor_u64_def)

lemma cursor_string_put_str [simp]:
  "valid_opt_str s \<Longrightarrow> cursor_string (put_str s @ r) = Some (s, r)"
  using of_len_not_max unat_of_len
  by (auto simp: cursor_string_def put_str_def valid_opt_str_def split: option.splits)

lemma decode_encode_meta:
  "valid_meta m \<Longrightarrow> ObjectMeta_decode_rest (ObjectMeta_encode m @ r) id' = Ok (m, r)"
  by (simp add: ObjectMeta_decode_rest_def ObjectMeta_encode_def valid_meta_def Let_def)

interpretation ometa: round_trip valid_meta "\<lambda>m. Ok (ObjectMeta_encode m)"
  "\<lambda>bs. ObjectMeta_decode_rest bs id'" for id'
  by unfold_locales (auto simp: decode_encode_meta)

lemma decode_encode [simp]: "valid_meta m \<Longrightarrow> ObjectMeta_decode (ObjectMeta_encode m) id' = Ok m"
  using decode_encode_meta [of m "[]" id'] by (simp add: ObjectMeta_decode_def)

section \<open>The database\<close>

text \<open>
  \<open>view\<close> and \<open>pending\<close> are the contents of the database and of an open write transaction; they appear
  in the laws only, never in an operation of the index.
\<close>

record ('db, 't) redb =
  begin_write :: "'db \<Rightarrow> IndexError + 't"
  tbl_insert :: "'t \<Rightarrow> ObjectId \<Rightarrow> bytes \<Rightarrow> IndexError + 't"
  tbl_remove :: "'t \<Rightarrow> ObjectId \<Rightarrow> IndexError + 't"
  commit :: "'t \<Rightarrow> IndexError + 'db"
  tbl_get :: "'db \<Rightarrow> ObjectId \<Rightarrow> IndexError + bytes option"
  tbl_iter :: "'db \<Rightarrow> IndexError + (ObjectId \<times> bytes) list"
  tbl_len :: "'db \<Rightarrow> IndexError + nat"
  view :: "'db \<Rightarrow> ObjectId \<rightharpoonup> bytes"
  pending :: "'t \<Rightarrow> ObjectId \<rightharpoonup> bytes"

definition redb_ok :: "('db, 't) redb \<Rightarrow> bool" where
  "redb_ok R \<longleftrightarrow>
    (\<forall>d t. begin_write R d = Ok t \<longrightarrow> pending R t = view R d)
    \<and> (\<forall>t k v t'. tbl_insert R t k v = Ok t' \<longrightarrow> pending R t' = (pending R t)(k \<mapsto> v))
    \<and> (\<forall>t k t'. tbl_remove R t k = Ok t' \<longrightarrow> pending R t' = (pending R t)(k := None))
    \<and> (\<forall>t d. commit R t = Ok d \<longrightarrow> view R d = pending R t)
    \<and> (\<forall>d k x. tbl_get R d k = Ok x \<longrightarrow> x = view R d k)
    \<and> (\<forall>d xs. tbl_iter R d = Ok xs \<longrightarrow> distinct (map fst xs) \<and> map_of xs = view R d)
    \<and> (\<forall>d n. tbl_len R d = Ok n \<longrightarrow> n = card (dom (view R d)))"

record ('db, 't) ObjectIndex =
  ix_ops :: "('db, 't) redb"
  ix_db :: 'db

definition index_open ::
  "('db, 't) redb \<Rightarrow> (string \<Rightarrow> IndexError + 'db) \<Rightarrow> string \<Rightarrow> IndexError + ('db, 't) ObjectIndex" where
  "index_open R create path =
    rbind (create path) (\<lambda>db.
      rbind (begin_write R db) (\<lambda>txn.
        rbind (commit R txn) (\<lambda>db. Ok \<lparr>ix_ops = R, ix_db = db\<rparr>)))"

definition index_get :: "('db, 't) ObjectIndex \<Rightarrow> ObjectId \<Rightarrow> IndexError + ObjectMeta option" where
  "index_get ix id' =
    rbind (tbl_get (ix_ops ix) (ix_db ix) id') (\<lambda>entry.
      case entry of
        Some value \<Rightarrow> rbind (ObjectMeta_decode value id') (\<lambda>m. Ok (Some m))
      | None \<Rightarrow> Ok None)"

definition index_put ::
  "('db, 't) ObjectIndex \<Rightarrow> ObjectId \<Rightarrow> ObjectMeta \<Rightarrow> IndexError + ('db, 't) ObjectIndex" where
  "index_put ix id' m =
    rbind (begin_write (ix_ops ix) (ix_db ix)) (\<lambda>txn.
      rbind (tbl_insert (ix_ops ix) txn id' (ObjectMeta_encode m)) (\<lambda>txn.
        rbind (commit (ix_ops ix) txn) (\<lambda>db. Ok (ix\<lparr>ix_db := db\<rparr>))))"

definition index_remove :: "('db, 't) ObjectIndex \<Rightarrow> ObjectId \<Rightarrow> IndexError + ('db, 't) ObjectIndex" where
  "index_remove ix id' =
    rbind (begin_write (ix_ops ix) (ix_db ix)) (\<lambda>txn.
      rbind (tbl_remove (ix_ops ix) txn id') (\<lambda>txn.
        rbind (commit (ix_ops ix) txn) (\<lambda>db. Ok (ix\<lparr>ix_db := db\<rparr>))))"

definition index_touch ::
  "u64 \<Rightarrow> ('db, 't) ObjectIndex \<Rightarrow> ObjectId \<Rightarrow> IndexError + (('db, 't) ObjectIndex \<times> bool)" where
  "index_touch now ix id' =
    rbind (index_get ix id') (\<lambda>entry.
      case entry of
        None \<Rightarrow> Ok (ix, False)
      | Some m \<Rightarrow>
          if saturating_sub now (om_last_seen m) < LAST_SEEN_GRANULARITY then Ok (ix, False)
          else rbind (index_put ix id' (m\<lparr>om_last_seen := now\<rparr>)) (\<lambda>ix. Ok (ix, True)))"

definition index_invalidate ::
  "('db, 't) ObjectIndex \<Rightarrow> ObjectId \<Rightarrow> IndexError + (('db, 't) ObjectIndex \<times> u32)" where
  "index_invalidate ix id' =
    rbind (index_get ix id') (\<lambda>entry.
      case entry of
        None \<Rightarrow> Ok (ix, 1)
      | Some m \<Rightarrow>
          let m' = m\<lparr>om_generation := om_generation m + 1, om_stale := True\<rparr> in
          rbind (index_put ix id' m') (\<lambda>ix. Ok (ix, om_generation m')))"

text \<open>The loops over the table stop at the first entry that cannot be decoded.\<close>

primrec scan :: "(ObjectId \<times> bytes) list \<Rightarrow> IndexError + (ObjectId \<times> ObjectMeta) list" where
  "scan [] = Ok []"
| "scan (e # es) =
    rbind (ObjectMeta_decode (snd e) (fst e)) (\<lambda>m. rbind (scan es) (\<lambda>ms. Ok ((fst e, m) # ms)))"

primrec remove_all :: "('db, 't) redb \<Rightarrow> 't \<Rightarrow> ObjectId list \<Rightarrow> IndexError + 't" where
  "remove_all R txn [] = Ok txn"
| "remove_all R txn (i # is) = rbind (tbl_remove R txn i) (\<lambda>txn. remove_all R txn is)"

definition index_prune ::
  "u64 \<Rightarrow> u64 \<Rightarrow> ('db, 't) ObjectIndex \<Rightarrow> IndexError + (('db, 't) ObjectIndex \<times> nat)" where
  "index_prune now max_age ix =
    (let cutoff = saturating_sub now max_age in
     rbind (tbl_iter (ix_ops ix) (ix_db ix)) (\<lambda>entries.
       rbind (scan entries) (\<lambda>ms.
         let old = map fst (filter (\<lambda>e. om_last_seen (snd e) < cutoff) ms) in
         if old = [] then Ok (ix, 0)
         else
           rbind (begin_write (ix_ops ix) (ix_db ix)) (\<lambda>txn.
             rbind (remove_all (ix_ops ix) txn old) (\<lambda>txn.
               rbind (commit (ix_ops ix) txn) (\<lambda>db. Ok (ix\<lparr>ix_db := db\<rparr>, length old)))))))"

definition index_ids_with_prefix :: "('db, 't) ObjectIndex \<Rightarrow> string \<Rightarrow> IndexError + ObjectId list" where
  "index_ids_with_prefix ix pre =
    rbind (tbl_iter (ix_ops ix) (ix_db ix)) (\<lambda>entries.
      rbind (scan entries) (\<lambda>ms.
        Ok (map fst (filter (\<lambda>e. starts_with (om_key (snd e)) pre) ms))))"

definition index_all_ids :: "('db, 't) ObjectIndex \<Rightarrow> IndexError + ObjectId list" where
  "index_all_ids ix = index_ids_with_prefix ix []"

definition index_total_bytes :: "('db, 't) ObjectIndex \<Rightarrow> IndexError + u64" where
  "index_total_bytes ix =
    rbind (tbl_iter (ix_ops ix) (ix_db ix)) (\<lambda>entries.
      rbind (scan entries) (\<lambda>ms.
        Ok (foldl (\<lambda>t e. saturating_add t (om_total_len (snd e))) 0 ms)))"

definition index_len :: "('db, 't) ObjectIndex \<Rightarrow> IndexError + nat" where
  "index_len ix = tbl_len (ix_ops ix) (ix_db ix)"

definition index_is_empty :: "('db, 't) ObjectIndex \<Rightarrow> IndexError + bool" where
  "index_is_empty ix = rbind (index_len ix) (\<lambda>n. Ok (n = 0))"

section \<open>Refinement of a map\<close>

text \<open>The metadata an index holds, and the invariant that it holds nothing but encodings.\<close>

definition index_map :: "('db, 't) ObjectIndex \<Rightarrow> ObjectId \<rightharpoonup> ObjectMeta" where
  "index_map ix id' =
    (case view (ix_ops ix) (ix_db ix) id' of
       None \<Rightarrow> None
     | Some bs \<Rightarrow> (case ObjectMeta_decode bs id' of Inl _ \<Rightarrow> None | Inr m \<Rightarrow> Some m))"

definition index_inv :: "('db, 't) ObjectIndex \<Rightarrow> bool" where
  "index_inv ix \<longleftrightarrow> redb_ok (ix_ops ix)
     \<and> (\<forall>id' bs. view (ix_ops ix) (ix_db ix) id' = Some bs \<longrightarrow>
          (\<exists>m. valid_meta m \<and> bs = ObjectMeta_encode m))"

text \<open>The view of a map of metadata, and how the invariant reads.\<close>

lemma index_view:
  assumes "index_inv ix"
  shows "view (ix_ops ix) (ix_db ix) id' = map_option ObjectMeta_encode (index_map ix id')"
    and "index_map ix id' = Some m \<Longrightarrow> valid_meta m"
proof -
  have "(\<exists>m. valid_meta m \<and> view (ix_ops ix) (ix_db ix) id' = Some (ObjectMeta_encode m)
            \<and> index_map ix id' = Some m)
      \<or> view (ix_ops ix) (ix_db ix) id' = None \<and> index_map ix id' = None"
  proof (cases "view (ix_ops ix) (ix_db ix) id'")
    case (Some bs)
    then obtain m where "valid_meta m" "bs = ObjectMeta_encode m"
      using assms by (auto simp: index_inv_def)
    with Some show ?thesis by (simp add: index_map_def)
  qed (simp add: index_map_def)
  then show "view (ix_ops ix) (ix_db ix) id' = map_option ObjectMeta_encode (index_map ix id')"
    and "index_map ix id' = Some m \<Longrightarrow> valid_meta m" by auto
qed

lemma index_invI:
  assumes "redb_ok (ix_ops ix)"
    and "\<And>id'. view (ix_ops ix) (ix_db ix) id' = map_option ObjectMeta_encode (f id')"
    and "\<And>id' m. f id' = Some m \<Longrightarrow> valid_meta m"
  shows "index_inv ix \<and> index_map ix = f"
proof
  show "index_inv ix" using assms by (auto simp: index_inv_def)
  show "index_map ix = f"
  proof
    fix id'
    show "index_map ix id' = f id'"
      using assms(2) [of id'] assms(3) [of id'] by (cases "f id'") (auto simp: index_map_def)
  qed
qed

lemma index_get_Ok: "index_inv ix \<Longrightarrow> index_get ix id' = Ok x \<Longrightarrow> x = index_map ix id'"
proof -
  assume inv: "index_inv ix" and "index_get ix id' = Ok x"
  then obtain y where y: "tbl_get (ix_ops ix) (ix_db ix) id' = Ok y"
      "(case y of Some v \<Rightarrow> rbind (ObjectMeta_decode v id') (\<lambda>m. Ok (Some m)) | None \<Rightarrow> Ok None) = Ok x"
    by (auto simp: index_get_def rbind_Ok)
  have "y = view (ix_ops ix) (ix_db ix) id'"
    using inv y(1) by (auto simp: index_inv_def redb_ok_def)
  then show ?thesis using y(2) index_view [OF inv, of id']
    by (cases "index_map ix id'") auto
qed

lemma index_put_Ok:
  assumes "index_inv ix" "valid_meta m" "index_put ix id' m = Ok ix'"
  shows "index_inv ix' \<and> index_map ix' = (index_map ix)(id' \<mapsto> m)"
proof (rule index_invI)
  show "redb_ok (ix_ops ix')"
    using assms(1,3) by (auto simp: index_inv_def index_put_def rbind_Ok)
  have "view (ix_ops ix') (ix_db ix') = (view (ix_ops ix) (ix_db ix))(id' \<mapsto> ObjectMeta_encode m)"
    using assms(1,3) by (auto simp: index_inv_def redb_ok_def index_put_def rbind_Ok)
  then show "view (ix_ops ix') (ix_db ix') i
      = map_option ObjectMeta_encode (((index_map ix)(id' \<mapsto> m)) i)" for i
    using index_view(1) [OF assms(1)] by simp
qed (use assms(2) index_view(2) [OF assms(1)] in \<open>auto split: if_splits\<close>)

lemma index_remove_Ok:
  assumes "index_inv ix" "index_remove ix id' = Ok ix'"
  shows "index_inv ix' \<and> index_map ix' = (index_map ix)(id' := None)"
proof (rule index_invI)
  show "redb_ok (ix_ops ix')"
    using assms by (auto simp: index_inv_def index_remove_def rbind_Ok)
  have "view (ix_ops ix') (ix_db ix') = (view (ix_ops ix) (ix_db ix))(id' := None)"
    using assms by (auto simp: index_inv_def redb_ok_def index_remove_def rbind_Ok)
  then show "view (ix_ops ix') (ix_db ix') i
      = map_option ObjectMeta_encode (((index_map ix)(id' := None)) i)" for i
    using index_view(1) [OF assms(1)] by simp
qed (use index_view(2) [OF assms(1)] in \<open>auto split: if_splits\<close>)

locale object_table =
  fixes inv :: "'s \<Rightarrow> bool"
    and lookup :: "'s \<Rightarrow> ObjectId \<rightharpoonup> 'm"
    and valid :: "'m \<Rightarrow> bool"
    and get :: "'s \<Rightarrow> ObjectId \<Rightarrow> 'e + 'm option"
    and put :: "'s \<Rightarrow> ObjectId \<Rightarrow> 'm \<Rightarrow> 'e + 's"
    and remove :: "'s \<Rightarrow> ObjectId \<Rightarrow> 'e + 's"
  assumes get_law: "inv s \<Longrightarrow> get s i = Ok x \<Longrightarrow> x = lookup s i"
    and put_law: "inv s \<Longrightarrow> valid m \<Longrightarrow> put s i m = Ok s' \<Longrightarrow>
      inv s' \<and> lookup s' = (lookup s)(i \<mapsto> m)"
    and remove_law: "inv s \<Longrightarrow> remove s i = Ok s' \<Longrightarrow> inv s' \<and> lookup s' = (lookup s)(i := None)"
    and lookup_valid: "inv s \<Longrightarrow> lookup s i = Some m \<Longrightarrow> valid m"
begin

lemma get_after_put:
  assumes "inv s" "valid m" "put s i m = Ok s'" "get s' j = Ok x"
  shows "x = (if j = i then Some m else lookup s j)"
  using put_law [OF assms(1,2,3)] get_law [OF _ assms(4)] by auto

lemma get_after_remove:
  assumes "inv s" "remove s i = Ok s'" "get s' j = Ok x"
  shows "x = (if j = i then None else lookup s j)"
  using remove_law [OF assms(1,2)] get_law [OF _ assms(3)] by auto

text \<open>Reading an entry and writing it back changed: the shape of every update of the index.\<close>

lemma update_law:
  assumes "inv s" "get s i = Ok (Some m)" "\<And>m. valid m \<Longrightarrow> valid (f m)" "put s i (f m) = Ok s'"
  shows "inv s' \<and> lookup s i = Some m \<and> lookup s' = (lookup s)(i \<mapsto> f m)"
proof -
  have m: "lookup s i = Some m" using get_law [OF assms(1,2)] by simp
  then have "valid (f m)" using lookup_valid [OF assms(1)] assms(3) by blast
  with m show ?thesis using put_law [OF assms(1) _ assms(4)] by simp
qed

end

interpretation idx: object_table index_inv index_map valid_meta index_get index_put index_remove
  by unfold_locales (fact index_get_Ok index_put_Ok index_remove_Ok index_view(2))+

lemma encode_inject:
  "valid_meta m \<Longrightarrow> valid_meta m' \<Longrightarrow> ObjectMeta_encode m = ObjectMeta_encode m' \<Longrightarrow> m = m'"
  using ometa.enc_inject [of m m'] by simp

lemma scan_encodings:
  assumes "\<And>i bs. (i, bs) \<in> set es \<Longrightarrow> \<exists>m. valid_meta m \<and> bs = ObjectMeta_encode m"
  shows "\<exists>ms. scan es = Ok ms \<and> map fst ms = map fst es
     \<and> (\<forall>i. map_option ObjectMeta_encode (map_of ms i) = map_of es i)
     \<and> (\<forall>e \<in> set ms. valid_meta (snd e))"
  using assms
proof (induction es)
  case Nil
  then show ?case by simp
next
  case (Cons e es)
  obtain i bs where e: "e = (i, bs)" by (cases e)
  with Cons.prems obtain m where m: "valid_meta m" "bs = ObjectMeta_encode m" by auto
  obtain ms where ms: "scan es = Ok ms" "map fst ms = map fst es"
      "\<forall>j. map_option ObjectMeta_encode (map_of ms j) = map_of es j" "\<forall>e \<in> set ms. valid_meta (snd e)"
    using Cons.IH Cons.prems by auto
  show ?case
    by (rule exI [of _ "(i, m) # ms"]) (use e m ms in auto)
qed

lemma scan_index:
  assumes "index_inv ix" "tbl_iter (ix_ops ix) (ix_db ix) = Ok es"
  shows "\<exists>ms. scan es = Ok ms \<and> distinct (map fst ms) \<and> map_of ms = index_map ix"
proof -
  have es: "distinct (map fst es)" "map_of es = view (ix_ops ix) (ix_db ix)"
    using assms by (auto simp: index_inv_def redb_ok_def)
  have "\<exists>m. valid_meta m \<and> bs = ObjectMeta_encode m" if "(i, bs) \<in> set es" for i bs
  proof -
    have "view (ix_ops ix) (ix_db ix) i = Some bs" using that es by (metis map_of_is_SomeI)
    then show ?thesis using assms(1) by (auto simp: index_inv_def)
  qed
  then obtain ms where ms: "scan es = Ok ms" "map fst ms = map fst es"
      "\<forall>i. map_option ObjectMeta_encode (map_of ms i) = map_of es i"
      "\<forall>e \<in> set ms. valid_meta (snd e)"
    using scan_encodings [of es] by blast
  have "map_of ms i = index_map ix i" for i
  proof -
    have "map_option ObjectMeta_encode (map_of ms i) = map_option ObjectMeta_encode (index_map ix i)"
      using ms(3) es(2) index_view(1) [OF assms(1)] by simp
    moreover have "valid_meta m" if "map_of ms i = Some m" for m
      using ms(4) map_of_SomeD [OF that] by auto
    moreover have "valid_meta m" if "index_map ix i = Some m" for m
      using index_view(2) [OF assms(1) that] .
    ultimately show ?thesis
      by (cases "map_of ms i"; cases "index_map ix i") (simp, simp, simp, simp, blast intro: encode_inject)
  qed
  with ms es(1) show ?thesis by auto
qed

lemma remove_all_Ok:
  "redb_ok R \<Longrightarrow> remove_all R t is = Ok t' \<Longrightarrow> pending R t' = (\<lambda>i. if i \<in> set is then None else pending R t i)"
proof (induction "is" arbitrary: t)
  case Nil
  then show ?case by simp
next
  case (Cons i js)
  then obtain t1 where t1: "tbl_remove R t i = Ok t1" "remove_all R t1 js = Ok t'"
    by (auto simp: rbind_Ok)
  then have "pending R t1 = (pending R t)(i := None)" using Cons.prems(1) by (auto simp: redb_ok_def)
  with Cons.IH [OF Cons.prems(1) t1(2)] show ?case by auto
qed

lemma card_filter_map_of:
  assumes "distinct (map fst ms)"
  shows "set (map fst (filter (\<lambda>e. P (snd e)) ms)) = {i. \<exists>m. map_of ms i = Some m \<and> P m}"
    and "length (map fst (filter (\<lambda>e. P (snd e)) ms)) = card {i. \<exists>m. map_of ms i = Some m \<and> P m}"
proof -
  show s: "set (map fst (filter (\<lambda>e. P (snd e)) ms)) = {i. \<exists>m. map_of ms i = Some m \<and> P m}"
    using assms by (auto simp: map_of_eq_Some_iff intro!: rev_image_eqI)
  have "distinct (map fst (filter (\<lambda>e. P (snd e)) ms))"
    using assms by (rule distinct_map_filter)
  then show "length (map fst (filter (\<lambda>e. P (snd e)) ms)) = card {i. \<exists>m. map_of ms i = Some m \<and> P m}"
    using s by (metis distinct_card)
qed

lemma index_prune_Ok:
  assumes inv: "index_inv ix" and ok: "index_prune now age ix = Ok (ix', n)"
  defines "old \<equiv> {i. \<exists>m. index_map ix i = Some m \<and> om_last_seen m < saturating_sub now age}"
  shows "index_inv ix' \<and> index_map ix' = (\<lambda>i. if i \<in> old then None else index_map ix i) \<and> n = card old"
proof -
  let ?P = "\<lambda>m. om_last_seen m < saturating_sub now age"
  obtain es where es: "tbl_iter (ix_ops ix) (ix_db ix) = Ok es"
    using ok by (auto simp: index_prune_def rbind_Ok Let_def)
  obtain ms where ms: "scan es = Ok ms" "distinct (map fst ms)" "map_of ms = index_map ix"
    using scan_index [OF inv es] by blast
  let ?ids = "map fst (filter (\<lambda>e. ?P (snd e)) ms)"
  have ids: "set ?ids = old" "length ?ids = card old"
    using card_filter_map_of [OF ms(2), of ?P] unfolding old_def ms(3) by blast+
  show ?thesis
  proof (cases "?ids = []")
    case True
    then have "old = {}" using ids(1) by simp
    moreover have "ix' = ix" "n = 0" using ok es ms(1) True by (auto simp: index_prune_def)
    ultimately show ?thesis using inv by simp
  next
    case False
    then obtain t t' d where t: "begin_write (ix_ops ix) (ix_db ix) = Ok t"
        "remove_all (ix_ops ix) t ?ids = Ok t'" "commit (ix_ops ix) t' = Ok d"
        "ix' = ix\<lparr>ix_db := d\<rparr>" "n = length ?ids"
      using ok es ms(1) by (auto simp: index_prune_def rbind_Ok Let_def)
    have R: "redb_ok (ix_ops ix)" using inv by (simp add: index_inv_def)
    have v: "view (ix_ops ix) d = (\<lambda>i. if i \<in> old then None else view (ix_ops ix) (ix_db ix) i)"
      using remove_all_Ok [OF R t(2)] R t(1,3) ids(1) by (auto simp: redb_ok_def)
    have "index_inv ix' \<and> index_map ix' = (\<lambda>i. if i \<in> old then None else index_map ix i)"
      by (rule index_invI)
        (use R v t(4) index_view [OF inv] in \<open>auto split: if_splits\<close>)
    with t(5) ids(2) show ?thesis by simp
  qed
qed

section \<open>Properties\<close>

lemma foldl_saturating:
  "unat (foldl (\<lambda>t e. saturating_add t (f e)) (a :: u64) xs)
     = min (unat a + (\<Sum>e \<leftarrow> xs. unat (f e))) (2 ^ 64 - 1)"
proof (induction xs arbitrary: a)
  case Nil
  then show ?case using unat_u64_nat [of a] by simp
next
  case (Cons x xs)
  then show ?case by (simp add: unat_saturating_add min_def)
qed

text \<open>
  C32: the index is a map from object ids to metadata. Under the laws of the database, a successful
  get, put, remove and prune are the map operations, prune counts what it drops and drops exactly
  the entries last seen before the cutoff, and every one of them keeps the invariant that what is
  stored decodes.
\<close>

theorem index_refines_map:
  assumes "index_inv ix"
  shows "(\<forall>i x. index_get ix i = Ok x \<longrightarrow> x = index_map ix i)
    \<and> (\<forall>i m ix'. valid_meta m \<longrightarrow> index_put ix i m = Ok ix' \<longrightarrow>
           index_inv ix' \<and> index_map ix' = (index_map ix)(i \<mapsto> m))
    \<and> (\<forall>i ix'. index_remove ix i = Ok ix' \<longrightarrow>
           index_inv ix' \<and> index_map ix' = (index_map ix)(i := None))
    \<and> (\<forall>now age ix' n. index_prune now age ix = Ok (ix', n) \<longrightarrow>
         (let old = {i. \<exists>m. index_map ix i = Some m \<and> om_last_seen m < saturating_sub now age} in
           index_inv ix' \<and> n = card old
           \<and> index_map ix' = (\<lambda>i. if i \<in> old then None else index_map ix i)))"
  using idx.get_law [OF assms] idx.put_law [OF assms] idx.remove_law [OF assms]
    index_prune_Ok [OF assms] by (simp add: Let_def)

text \<open>A database as an association list, to show that the laws can hold.\<close>

definition alist_redb :: "((ObjectId \<times> bytes) list, (ObjectId \<times> bytes) list) redb" where
  "alist_redb =
    \<lparr>begin_write = Ok, tbl_insert = (\<lambda>t k v. Ok ((k, v) # t)), tbl_remove = (\<lambda>t k. Ok (AList.delete k t)),
     commit = Ok, tbl_get = (\<lambda>d k. Ok (map_of d k)), tbl_iter = (\<lambda>d. Ok (AList.clearjunk d)),
     tbl_len = (\<lambda>d. Ok (length (AList.clearjunk d))), view = map_of, pending = map_of\<rparr>"

lemma alist_redb_ok: "redb_ok alist_redb"
proof -
  have "length (AList.clearjunk d) = card (dom (map_of d))" for d :: "(ObjectId \<times> bytes) list"
  proof -
    have "card (dom (map_of d)) = card (set (map fst (AList.clearjunk d)))"
      by (simp add: dom_map_of_conv_image_fst AList.dom_clearjunk)
    also have "\<dots> = length (AList.clearjunk d)"
      by (metis AList.distinct_clearjunk distinct_card length_map)
    finally show ?thesis by simp
  qed
  then show ?thesis
    by (simp add: redb_ok_def alist_redb_def AList.delete_conv' AList.map_of_clearjunk)
qed

definition sample_meta :: ObjectMeta where
  "sample_meta =
    \<lparr>om_key = ''/depot/1'', om_total_len = 10, om_generation = 0, om_etag = Some ''e'',
     om_last_modified = None, om_content_type = None, om_no_ranges = False, om_created = 5,
     om_last_seen = 5, om_stale = False\<rparr>"

definition sample_index :: "((ObjectId \<times> bytes) list, (ObjectId \<times> bytes) list) ObjectIndex" where
  "sample_index = \<lparr>ix_ops = alist_redb, ix_db = [([1], ObjectMeta_encode sample_meta)]\<rparr>"

lemma valid_sample_meta: "valid_meta sample_meta"
  by (simp add: valid_meta_def sample_meta_def valid_opt_str_def utf8_valid_def)

lemma sample_index_inv: "index_inv sample_index"
  using valid_sample_meta
  by (auto simp: index_inv_def sample_index_def alist_redb_ok) (auto simp: alist_redb_def split: if_splits)

lemma sample_index_map: "index_map sample_index [1] = Some sample_meta"
  by (simp add: index_map_def sample_index_def alist_redb_def valid_sample_meta)

theorem index_refines_map_witness:
  "index_inv sample_index
   \<and> (\<exists>ix'. index_put sample_index [2] sample_meta = Ok ix'
        \<and> index_map ix' = (index_map sample_index)([2] \<mapsto> sample_meta))"
proof -
  have "\<exists>ix'. index_put sample_index [2] sample_meta = Ok ix'"
    by (simp add: index_put_def sample_index_def alist_redb_def)
  then show ?thesis
    using index_refines_map [OF sample_index_inv] valid_sample_meta sample_index_inv by blast
qed

text \<open>
  C34: invalidating a known object bumps its generation by one and marks it stale, keeping everything
  else of its entry and every other entry; the generation returned is the one stored, so slices of the
  old generation are no longer named by any key built from the index.
\<close>

theorem invalidate_bumps_generation:
  assumes "index_inv ix" "index_map ix i = Some m" "index_invalidate ix i = Ok (ix', g)"
  shows "index_inv ix' \<and> g = om_generation m + 1 \<and> g \<noteq> om_generation m
    \<and> index_map ix' = (index_map ix)(i \<mapsto> m\<lparr>om_generation := g, om_stale := True\<rparr>)
    \<and> SliceKey_new i g n \<noteq> SliceKey_new i (om_generation m) n'"
proof -
  let ?f = "\<lambda>m. m\<lparr>om_generation := om_generation m + 1, om_stale := True\<rparr>"
  obtain y where y: "index_get ix i = Ok y" using assms(3) by (auto simp: index_invalidate_def rbind_Ok)
  then have y': "y = Some m" using idx.get_law [OF assms(1) y] assms(2) by simp
  with y assms(3) have put: "index_put ix i (?f m) = Ok ix'" and g: "g = om_generation m + 1"
    by (auto simp: index_invalidate_def rbind_Ok Let_def)
  have "index_inv ix' \<and> index_map ix' = (index_map ix)(i \<mapsto> ?f m)"
    using idx.update_law [OF assms(1) y [unfolded y'], of ?f] put
    by (simp add: valid_meta_def)
  with g show ?thesis by (simp add: SliceKey_new_def)
qed

theorem invalidate_bumps_generation_witness:
  "\<exists>ix' g. index_invalidate sample_index [1] = Ok (ix', g) \<and> g = 1
     \<and> index_map ix' [1] = Some (sample_meta\<lparr>om_generation := 1, om_stale := True\<rparr>)"
proof -
  obtain ix' g where i: "index_invalidate sample_index [1] = Ok (ix', g)"
    by (simp add: index_invalidate_def index_get_def index_put_def sample_index_def alist_redb_def
        valid_sample_meta Let_def)
  from invalidate_bumps_generation [OF sample_index_inv sample_index_map i, of 0 0] i
  show ?thesis by (simp add: sample_meta_def)
qed

text \<open>
  Invalidating an object the index does not know records nothing. It returns generation 1,
  but the index still has no entry, so the next lookup cannot know that generation 0 was given up.
\<close>

theorem invalidate_unknown_records_nothing:
  assumes "index_inv ix" "index_map ix i = None" "index_invalidate ix i = Ok (ix', g)"
  shows "ix' = ix \<and> g = 1 \<and> index_map ix' i = None"
proof -
  obtain y where y: "index_get ix i = Ok y" using assms(3) by (auto simp: index_invalidate_def rbind_Ok)
  then have "y = None" using idx.get_law [OF assms(1) y] assms(2) by simp
  with y assms show ?thesis by (auto simp: index_invalidate_def)
qed

theorem invalidate_unknown_records_nothing_witness:
  "\<exists>ix' g. index_invalidate sample_index [2] = Ok (ix', g) \<and> g = 1 \<and> index_map ix' [2] = None"
proof -
  have n: "index_map sample_index [2] = None"
    by (simp add: index_map_def sample_index_def alist_redb_def)
  obtain ix' g where i: "index_invalidate sample_index [2] = Ok (ix', g)"
    by (simp add: index_invalidate_def index_get_def sample_index_def alist_redb_def)
  from invalidate_unknown_records_nothing [OF sample_index_inv n i] i n show ?thesis by simp
qed

text \<open>
  Recording a use writes at most once per granularity: a touch within the hour leaves the index
  as it is, a later one changes the entry's last use and nothing else, and an unknown object is never
  created by it.
\<close>

theorem touch_writes_rarely:
  assumes "index_inv ix" "index_touch now ix i = Ok (ix', w)"
  shows "index_inv ix'
    \<and> (case index_map ix i of
         None \<Rightarrow> \<not> w \<and> ix' = ix
       | Some m \<Rightarrow>
           (w \<longleftrightarrow> 3600 \<le> unat now - unat (om_last_seen m))
           \<and> (\<not> w \<longrightarrow> ix' = ix)
           \<and> (w \<longrightarrow> index_map ix' = (index_map ix)(i \<mapsto> m\<lparr>om_last_seen := now\<rparr>)))"
proof -
  obtain y where y: "index_get ix i = Ok y" using assms(2) by (auto simp: index_touch_def rbind_Ok)
  then have y': "y = index_map ix i" using idx.get_law [OF assms(1) y] by simp
  show ?thesis
  proof (cases "index_map ix i")
    case None
    with y y' assms show ?thesis by (simp add: index_touch_def)
  next
    case (Some m)
    have recent: "saturating_sub now (om_last_seen m) < LAST_SEEN_GRANULARITY \<longleftrightarrow>
        \<not> 3600 \<le> unat now - unat (om_last_seen m)"
      by (auto simp: word_less_nat_alt unat_saturating_sub LAST_SEEN_GRANULARITY_def)
    show ?thesis
    proof (cases "3600 \<le> unat now - unat (om_last_seen m)")
      case False
      with y y' assms Some recent show ?thesis by (simp add: index_touch_def)
    next
      case True
      with y y' assms(2) Some recent
      have put: "index_put ix i (m\<lparr>om_last_seen := now\<rparr>) = Ok ix'" and w
        by (auto simp: index_touch_def rbind_Ok)
      have "index_inv ix' \<and> index_map ix' = (index_map ix)(i \<mapsto> m\<lparr>om_last_seen := now\<rparr>)"
        using idx.update_law [OF assms(1) y [unfolded y' Some], of "\<lambda>m. m\<lparr>om_last_seen := now\<rparr>"] put
        by (simp add: valid_meta_def)
      with True \<open>w\<close> Some show ?thesis by simp
    qed
  qed
qed

theorem touch_writes_rarely_witness:
  "\<exists>ix'. index_touch 4000 sample_index [1] = Ok (ix', True) \<and> index_inv ix'"
proof -
  have "index_get sample_index [1] = Ok (Some sample_meta)"
    by (simp add: index_get_def sample_index_def alist_redb_def valid_sample_meta)
  moreover have "\<exists>ix'. index_put sample_index [1] m = Ok ix'" for m
    by (simp add: index_put_def sample_index_def alist_redb_def)
  moreover have "\<not> saturating_sub 4000 (om_last_seen sample_meta) < LAST_SEEN_GRANULARITY"
    by (simp add: sample_meta_def saturating_sub_def LAST_SEEN_GRANULARITY_def)
  ultimately obtain ix' where i: "index_touch 4000 sample_index [1] = Ok (ix', True)"
    by (auto simp: index_touch_def rbind_Ok)
  from touch_writes_rarely [OF sample_index_inv i] i show ?thesis by simp
qed

lemma ids_with_prefix:
  assumes "index_inv ix" "index_ids_with_prefix ix pre = Ok ids"
  shows "distinct ids \<and> set ids = {i. \<exists>m. index_map ix i = Some m \<and> (\<exists>r. om_key m = pre @ r)}"
proof -
  obtain es where es: "tbl_iter (ix_ops ix) (ix_db ix) = Ok es"
    using assms(2) by (auto simp: index_ids_with_prefix_def rbind_Ok)
  obtain ms where ms: "scan es = Ok ms" "distinct (map fst ms)" "map_of ms = index_map ix"
    using scan_index [OF assms(1) es] by blast
  with assms(2) es have ids: "ids = map fst (filter (\<lambda>e. starts_with (om_key (snd e)) pre) ms)"
    by (simp add: index_ids_with_prefix_def)
  moreover have "distinct ids" unfolding ids using ms(2) by (rule distinct_map_filter)
  moreover have "set ids = {i. \<exists>m. index_map ix i = Some m \<and> (\<exists>r. om_key m = pre @ r)}"
    unfolding ids using card_filter_map_of(1) [OF ms(2), of "\<lambda>m. starts_with (om_key m) pre"]
    by (simp only: ms(3) starts_with_iff)
  ultimately show ?thesis by simp
qed

text \<open>
  Purge by prefix finds every indexed object whose key starts with the prefix and no other, each
  once, and the size of the index is the sum of the object lengths, saturating instead of wrapping.
\<close>

theorem prefix_and_size:
  assumes "index_inv ix"
  shows "(\<forall>ids. index_ids_with_prefix ix pre = Ok ids \<longrightarrow>
            distinct ids \<and> set ids = {i. \<exists>m. index_map ix i = Some m \<and> (\<exists>r. om_key m = pre @ r)})
    \<and> (\<forall>t. index_total_bytes ix = Ok t \<longrightarrow>
            unat t = min (\<Sum>i \<in> dom (index_map ix). unat (om_total_len (the (index_map ix i)))) (2 ^ 64 - 1))"
proof (intro conjI allI impI)
  fix ids assume "index_ids_with_prefix ix pre = Ok ids"
  then show "distinct ids" "set ids = {i. \<exists>m. index_map ix i = Some m \<and> (\<exists>r. om_key m = pre @ r)}"
    using ids_with_prefix [OF assms] by blast+
next
  fix t assume ok: "index_total_bytes ix = Ok t"
  then obtain es where es: "tbl_iter (ix_ops ix) (ix_db ix) = Ok es"
    by (auto simp: index_total_bytes_def rbind_Ok)
  obtain ms where ms: "scan es = Ok ms" "distinct (map fst ms)" "map_of ms = index_map ix"
    using scan_index [OF assms es] by blast
  have "(\<Sum>e \<leftarrow> ms. unat (om_total_len (snd e)))
      = (\<Sum>i \<in> dom (index_map ix). unat (om_total_len (the (index_map ix i))))"
  proof -
    have "the (map_of ms (fst e)) = snd e" if "e \<in> set ms" for e
      using that ms(2) by (metis map_of_is_SomeI option.sel prod.collapse)
    then have "(\<Sum>e \<leftarrow> ms. unat (om_total_len (snd e)))
        = (\<Sum>i \<leftarrow> map fst ms. unat (om_total_len (the (map_of ms i))))"
      by (simp add: comp_def cong: map_cong)
    also have "\<dots> = (\<Sum>i \<in> set (map fst ms). unat (om_total_len (the (map_of ms i))))"
      using ms(2) by (simp only: sum_list_distinct_conv_sum_set)
    finally show ?thesis unfolding ms(3) [symmetric] by (simp add: dom_map_of_conv_image_fst)
  qed
  then show "unat t = min (\<Sum>i \<in> dom (index_map ix). unat (om_total_len (the (index_map ix i)))) (2 ^ 64 - 1)"
    using ok es ms(1) foldl_saturating [of "\<lambda>e. om_total_len (snd e)" 0 ms]
    by (simp add: index_total_bytes_def)
qed

theorem prefix_and_size_witness:
  "index_ids_with_prefix sample_index ''/depot/'' = Ok [[1]]
   \<and> (\<exists>r. om_key sample_meta = ''/depot/'' @ r)"
proof -
  have ids: "index_ids_with_prefix sample_index ''/depot/'' = Ok [[1]]"
    by (simp add: index_ids_with_prefix_def sample_index_def alist_redb_def valid_sample_meta)
      (simp add: sample_meta_def)
  then have "[1] \<in> {i. \<exists>m. index_map sample_index i = Some m \<and> (\<exists>r. om_key m = ''/depot/'' @ r)}"
    using prefix_and_size [OF sample_index_inv, of "''/depot/''"] by auto
  then show ?thesis using ids sample_index_map by auto
qed

end
