(* ===== verification/Orch_Validators.thy ===== *)
theory Orch_Validators
  imports Rust_Str
begin

text \<open>
  \<open>orchestrator/validators.rs\<close>: whether two sets of validators describe the same bytes, and whether an
  \<open>If-Range\<close> header permits a partial response. The comparison is a partial equivalence: symmetric and
  transitive, and reflexive exactly on the validators that are not weak.
\<close>

record Validators =
  va_etag :: "string option"
  va_last_modified :: "string option"

definition Validators_new :: "string option \<Rightarrow> string option \<Rightarrow> Validators" where
  "Validators_new etag last_modified = \<lparr>va_etag = etag, va_last_modified = last_modified\<rparr>"

definition strong_eq :: "string \<Rightarrow> string \<Rightarrow> bool" where
  "strong_eq a b = (if starts_with a ''W/'' \<or> starts_with b ''W/'' then False else a = b)"

definition validators_match :: "Validators \<Rightarrow> Validators \<Rightarrow> bool" where
  "validators_match self other =
    (case (va_etag self, va_etag other) of
       (Some a, Some b) \<Rightarrow> strong_eq a b
     | (Some _, None) \<Rightarrow> False
     | (None, Some _) \<Rightarrow> False
     | (None, None) \<Rightarrow>
         (case (va_last_modified self, va_last_modified other) of
            (Some a, Some b) \<Rightarrow> a = b
          | (Some _, None) \<Rightarrow> False
          | (None, Some _) \<Rightarrow> False
          | (None, None) \<Rightarrow> True))"

definition validators_is_empty :: "Validators \<Rightarrow> bool" where
  "validators_is_empty v \<longleftrightarrow> va_etag v = None \<and> va_last_modified v = None"

definition if_range_matches :: "string \<Rightarrow> Validators \<Rightarrow> bool" where
  "if_range_matches header current =
    (let value = trim header in
     if value = [] then False
     else if starts_with value [CHR 0x22] \<or> starts_with value ''W/'' then
       (case va_etag current of Some etag \<Rightarrow> strong_eq value etag | None \<Rightarrow> False)
     else
       (case va_last_modified current of Some modified \<Rightarrow> modified = value | None \<Rightarrow> False))"

section \<open>Properties\<close>

definition weak :: "Validators \<Rightarrow> bool" where
  "weak v \<longleftrightarrow> (\<exists>e. va_etag v = Some (''W/'' @ e))"

lemma strong_eq_iff: "strong_eq a b \<longleftrightarrow> a = b \<and> \<not> (\<exists>e. a = ''W/'' @ e)"
  by (auto simp: strong_eq_def starts_with_iff)

text \<open>
  Validators match only when the origin gives the same byte-exact version. A match is a partial
  equivalence, reflexive exactly on validators that are not weak; two matching sides carry the same
  ETag, which is strong, or neither has one and their Last-Modified is the same.
\<close>

theorem match_means_same_version:
  "(validators_match a b \<longleftrightarrow>
      \<not> weak a \<and> va_etag a = va_etag b
      \<and> (va_etag a = None \<longrightarrow> va_last_modified a = va_last_modified b))
   \<and> (validators_match a a \<longleftrightarrow> \<not> weak a)
   \<and> (validators_match a b \<longleftrightarrow> validators_match b a)
   \<and> (validators_match a b \<longrightarrow> validators_match b c \<longrightarrow> validators_match a c)"
  by (auto simp: validators_match_def weak_def strong_eq_iff split: option.splits)

theorem match_means_same_version_witness:
  "validators_match (Validators_new (Some ''x'') None) (Validators_new (Some ''x'') (Some ''d''))
   \<and> \<not> validators_match (Validators_new (Some ''W/x'') None) (Validators_new (Some ''W/x'') None)"
  using match_means_same_version [of "Validators_new (Some ''x'') None" "Validators_new (Some ''x'') (Some ''d'')"]
    match_means_same_version [of "Validators_new (Some ''W/x'') None" "Validators_new (Some ''W/x'') None"]
  by (simp add: Validators_new_def weak_def)

text \<open>
  \<open>If-Range\<close> allows a partial answer only for the stored version: the header, trimmed, is the
  stored strong ETag or the stored Last-Modified, and an ETag-shaped header is never compared with a
  date.
\<close>

theorem if_range_exact:
  assumes "if_range_matches header v"
  shows "(va_etag v = Some (trim header) \<and> \<not> weak v \<and> starts_with (trim header) [CHR 0x22])
    \<or> (va_last_modified v = Some (trim header) \<and> trim header \<noteq> []
        \<and> \<not> starts_with (trim header) [CHR 0x22] \<and> \<not> starts_with (trim header) ''W/'')"
  using assms
  by (auto simp: if_range_matches_def Let_def strong_eq_iff weak_def starts_with_iff
      split: if_splits option.splits)

theorem if_range_exact_witness:
  "if_range_matches [CHR 0x22, CHR ''a'', CHR 0x22] (Validators_new (Some [CHR 0x22, CHR ''a'', CHR 0x22]) None)
   \<and> va_etag (Validators_new (Some [CHR 0x22, CHR ''a'', CHR 0x22]) None) \<noteq> None"
proof -
  have "if_range_matches [CHR 0x22, CHR ''a'', CHR 0x22]
      (Validators_new (Some [CHR 0x22, CHR ''a'', CHR 0x22]) None)"
    by (simp add: if_range_matches_def Validators_new_def strong_eq_def str_simps)
  from this if_range_exact [OF this] show ?thesis by (auto simp: Validators_new_def)
qed

end
