(* ===== verification/Orch_Readahead.thy ===== *)
theory Orch_Readahead
  imports Store_Slice "HOL-Library.AList"
begin

text \<open>
  \<open>orchestrator/readahead.rs\<close>: the read-ahead policy. The hash map of patterns is an association list
  with distinct keys, its order the iteration order of the map, which nothing here depends on. An
  \<open>Instant\<close> is a number of nanoseconds; \<open>duration_since\<close> is the truncated difference.

  The lemmas bound the map, show that a client is called sequential only after three adjacent
  requests within the time limit, and that a prefetch stays inside the object and the window.
\<close>

section \<open>Data\<close>

definition SEQUENTIAL_THRESHOLD :: u32 where "SEQUENTIAL_THRESHOLD = 3"
definition PATTERN_TTL :: nat where "PATTERN_TTL = 60 * 10 ^ 9"
definition MAX_TRACKED :: nat where "MAX_TRACKED = 1024"

datatype Access = Random | Sequential

record Pattern =
  next_expected :: u32
  consecutive :: u32
  seen :: nat

record ReadaheadPolicy =
  patterns :: "(ObjectId \<times> Pattern) list"
  window :: u32

section \<open>Operations\<close>

definition ReadaheadPolicy_new :: "nat \<Rightarrow> ReadaheadPolicy" where
  "ReadaheadPolicy_new w = \<lparr>patterns = [], window = of_nat w\<rparr>"

text \<open>The part of \<open>observe\<close> that keeps the map bounded: expire, then drop the oldest half.\<close>

definition make_room :: "nat \<Rightarrow> (ObjectId \<times> Pattern) list \<Rightarrow> (ObjectId \<times> Pattern) list" where
  "make_room now ps =
    (if MAX_TRACKED \<le> length ps then
       let ps = filter (\<lambda>(_, p). now - seen p < PATTERN_TTL) ps in
       if MAX_TRACKED \<le> length ps then
         let ages = sort_key snd (map (\<lambda>(k, v). (k, seen v)) ps)
         in foldl (\<lambda>ps e. AList.delete (fst e) ps) ps (take (MAX_TRACKED div 2) ages)
       else ps
     else ps)"

definition observe ::
  "nat \<Rightarrow> ReadaheadPolicy \<Rightarrow> ObjectId \<Rightarrow> u32 \<Rightarrow> u32 \<Rightarrow> ReadaheadPolicy \<times> Access" where
  "observe now pol object first' last' =
    (let ps = make_room now (patterns pol);
         fresh = \<lparr>next_expected = saturating_add last' 1, consecutive = 0, seen = now\<rparr>
     in case map_of ps object of
          None \<Rightarrow> (pol\<lparr>patterns := (object, fresh) # ps\<rparr>, Random)
        | Some entry \<Rightarrow>
            if PATTERN_TTL \<le> now - seen entry then
              (pol\<lparr>patterns := AList.update object fresh ps\<rparr>, Random)
            else
              let continues = first' = next_expected entry;
                  c = (if continues then saturating_add (consecutive entry) 1 else 0);
                  entry' = \<lparr>next_expected = saturating_add last' 1, consecutive = c, seen = now\<rparr>
              in (pol\<lparr>patterns := AList.update object entry' ps\<rparr>,
                  if SEQUENTIAL_THRESHOLD \<le> c then Sequential else Random))"

text \<open>A half-open range of slice indices, as its bounds.\<close>

definition prefetch :: "ReadaheadPolicy \<Rightarrow> Access \<Rightarrow> u32 \<Rightarrow> u32 \<Rightarrow> u32 \<times> u32" where
  "prefetch pol access last' last_slice =
    (if access \<noteq> Sequential \<or> window pol = 0 then (0, 0)
     else
       let start = saturating_add last' 1;
           end' = min (saturating_add start (window pol)) (saturating_add last_slice 1)
       in if end' \<le> start then (0, 0) else (start, end'))"

section \<open>The map is bounded\<close>

definition policy_inv :: "ReadaheadPolicy \<Rightarrow> bool" where
  "policy_inv pol \<longleftrightarrow> distinct (map fst (patterns pol)) \<and> length (patterns pol) \<le> MAX_TRACKED"

lemma foldl_delete_filter:
  "foldl (\<lambda>ps e. AList.delete (fst e) ps) ps xs = filter (\<lambda>p. fst p \<notin> fst ` set xs) ps"
  by (induction xs arbitrary: ps) (auto simp: AList.delete_eq intro!: filter_cong)

lemma make_room_filter: "\<exists>P. make_room now ps = filter P ps"
  by (auto simp: make_room_def Let_def foldl_delete_filter intro: exI [of _ "\<lambda>_. True"])

lemma length_make_room:
  assumes "distinct (map fst ps)" "length ps \<le> MAX_TRACKED"
  shows "length (make_room now ps) < MAX_TRACKED"
proof (cases "MAX_TRACKED \<le> length ps")
  case True
  define qs where "qs = filter (\<lambda>(_, p). now - seen p < PATTERN_TTL) ps"
  show ?thesis
  proof (cases "MAX_TRACKED \<le> length qs")
    case False
    with True show ?thesis by (simp add: make_room_def Let_def qs_def)
  next
    case full: True
    define old where "old = take (MAX_TRACKED div 2) (sort_key snd (map (\<lambda>(k, v). (k, seen v)) qs))"
    have m: "make_room now ps = filter (\<lambda>p. fst p \<notin> fst ` set old) qs"
      using True full by (simp add: make_room_def Let_def qs_def old_def foldl_delete_filter)
    have "old \<noteq> []" using full by (auto simp: old_def MAX_TRACKED_def simp flip: length_0_conv)
    then obtain e where "e \<in> set old" by (cases old) auto
    moreover have "set old \<subseteq> set (sort_key snd (map (\<lambda>(k, v). (k, seen v)) qs))"
      unfolding old_def by (rule set_take_subset)
    ultimately obtain q where "q \<in> set qs" "fst q \<in> fst ` set old" by force
    then have "length (filter (\<lambda>p. fst p \<notin> fst ` set old) qs) < length qs"
      by (auto intro: length_filter_less)
    moreover have "length qs \<le> length ps" by (simp add: qs_def)
    ultimately show ?thesis using m assms(2) by simp
  qed
qed (simp add: make_room_def)

lemma distinct_make_room: "distinct (map fst ps) \<Longrightarrow> distinct (map fst (make_room now ps))"
  using make_room_filter [of now ps] by (auto intro: distinct_map_filter)

lemma length_update_known: "k \<in> fst ` set ps \<Longrightarrow> length (AList.update k v ps) = length ps"
  by (induction ps) auto

lemma observe_inv:
  assumes "policy_inv pol"
  shows "policy_inv (fst (observe now pol object f l))"
proof -
  let ?ps = "make_room now (patterns pol)"
  have p: "distinct (map fst ?ps)" "length ?ps < MAX_TRACKED"
    using assms distinct_make_room length_make_room by (auto simp: policy_inv_def)
  show ?thesis
  proof (cases "map_of ?ps object")
    case None
    then have "object \<notin> fst ` set ?ps" by (simp add: map_of_eq_None_iff)
    with p None show ?thesis by (simp add: observe_def Let_def policy_inv_def)
  next
    case (Some e)
    then have "object \<in> fst ` set ?ps" by (metis domI dom_map_of_conv_image_fst)
    then have "length (AList.update object v ?ps) = length ?ps" for v by (rule length_update_known)
    with p Some show ?thesis by (simp add: observe_def Let_def policy_inv_def AList.distinct_update)
  qed
qed

section \<open>A sequential verdict needs a run of adjacent requests\<close>

text \<open>A request: the time, the object and the first and last slice.\<close>

type_synonym request = "nat \<times> ObjectId \<times> u32 \<times> u32"

definition observe_request :: "ReadaheadPolicy \<Rightarrow> request \<Rightarrow> ReadaheadPolicy" where
  "observe_request pol req = (case req of (now, object, f, l) \<Rightarrow> fst (observe now pol object f l))"

text \<open>The requests for one object, newest first, and the length of the run of adjacent ones they start with.\<close>

definition requests_of :: "ObjectId \<Rightarrow> request list \<Rightarrow> request list" where
  "requests_of object reqs = rev (filter (\<lambda>(_, o', _). o' = object) reqs)"

fun adjacent_run :: "request list \<Rightarrow> nat" where
  "adjacent_run ((t2, _, f2, l2) # (t1, o1, f1, l1) # rs) =
    (if f2 = saturating_add l1 1 \<and> t2 - t1 < PATTERN_TTL then Suc (adjacent_run ((t1, o1, f1, l1) # rs)) else 0)"
| "adjacent_run rs = 0"

definition tracks :: "request list \<Rightarrow> ReadaheadPolicy \<Rightarrow> bool" where
  "tracks reqs pol \<longleftrightarrow>
    (\<forall>object entry. map_of (patterns pol) object = Some entry \<longrightarrow>
      (\<exists>t f l rs. requests_of object reqs = (t, object, f, l) # rs
         \<and> next_expected entry = saturating_add l 1 \<and> seen entry = t
         \<and> unat (consecutive entry) \<le> adjacent_run (requests_of object reqs)))"

lemma requests_of_snoc [simp]:
  "requests_of object (reqs @ [(t, o', f, l)])
     = (if o' = object then (t, object, f, l) # requests_of object reqs else requests_of object reqs)"
  by (simp add: requests_of_def)

lemma map_of_make_room:
  assumes "distinct (map fst ps)" "map_of (make_room now ps) object = Some e"
  shows "map_of ps object = Some e"
proof -
  have "(object, e) \<in> set (make_room now ps)" using assms(2) by (rule map_of_SomeD)
  then have "(object, e) \<in> set ps" using make_room_filter [of now ps] by auto
  with assms(1) show ?thesis by simp
qed

lemma map_of_observe:
  "map_of (patterns (fst (observe now pol object f l))) o' =
    (if o' = object then
       Some \<lparr>next_expected = saturating_add l 1,
             consecutive = (case map_of (make_room now (patterns pol)) object of
                None \<Rightarrow> 0
              | Some e \<Rightarrow> if now - seen e < PATTERN_TTL \<and> f = next_expected e
                         then saturating_add (consecutive e) 1 else 0),
             seen = now\<rparr>
     else map_of (make_room now (patterns pol)) o')"
  by (auto simp: observe_def Let_def AList.update_conv' split: option.splits)

lemma unat_saturating_succ: "unat (saturating_add (c :: u32) 1) \<le> Suc (unat c)"
  by (simp add: unat_saturating_add)

lemma observe_tracks:
  assumes "policy_inv pol" "tracks reqs pol"
  shows "tracks (reqs @ [(now, object, f, l)]) (fst (observe now pol object f l))"
  unfolding tracks_def
proof (intro allI impI)
  fix o' entry
  let ?ps = "make_room now (patterns pol)"
  assume e: "map_of (patterns (fst (observe now pol object f l))) o' = Some entry"
  have d: "distinct (map fst (patterns pol))" using assms(1) by (simp add: policy_inv_def)
  have old: "\<exists>t f l rs. requests_of x reqs = (t, x, f, l) # rs \<and> next_expected e = saturating_add l 1
      \<and> seen e = t \<and> unat (consecutive e) \<le> adjacent_run (requests_of x reqs)"
    if "map_of ?ps x = Some e" for x e
    using assms(2) map_of_make_room [OF d that] unfolding tracks_def by blast
  show "\<exists>t f' l' rs. requests_of o' (reqs @ [(now, object, f, l)]) = (t, o', f', l') # rs
      \<and> next_expected entry = saturating_add l' 1 \<and> seen entry = t
      \<and> unat (consecutive entry) \<le> adjacent_run (requests_of o' (reqs @ [(now, object, f, l)]))"
  proof (cases "o' = object")
    case False
    with e have "map_of ?ps o' = Some entry" by (simp add: map_of_observe)
    from old [OF this] False show ?thesis by auto
  next
    case True
    show ?thesis
    proof (cases "map_of ?ps object")
      case None
      with e True show ?thesis by (auto simp: map_of_observe)
    next
      case (Some p)
      from old [OF this] obtain t0 f0 l0 rs where
        h: "requests_of object reqs = (t0, object, f0, l0) # rs" "next_expected p = saturating_add l0 1"
          "seen p = t0" "unat (consecutive p) \<le> adjacent_run (requests_of object reqs)" by blast
      with e True Some show ?thesis
        using unat_saturating_succ [of "consecutive p"] by (auto simp: map_of_observe)
    qed
  qed
qed

lemma observe_all_tracks:
  "policy_inv (foldl observe_request (ReadaheadPolicy_new w) reqs)
   \<and> tracks reqs (foldl observe_request (ReadaheadPolicy_new w) reqs)"
proof (induction reqs rule: rev_induct)
  case Nil
  then show ?case by (simp add: ReadaheadPolicy_new_def policy_inv_def tracks_def)
next
  case (snoc req reqs)
  obtain t ob f l where r: "req = (t, ob, f, l)" by (cases req)
  with snoc show ?case
    using observe_inv observe_tracks by (simp add: observe_request_def)
qed

lemma observe_sequential:
  assumes "snd (observe now pol object f l) = Sequential"
  shows "\<exists>e. map_of (patterns (fst (observe now pol object f l))) object = Some e \<and> 3 \<le> consecutive e"
  using assms
  by (auto simp: observe_def Let_def SEQUENTIAL_THRESHOLD_def AList.update_conv' split: option.splits if_splits)

section \<open>Properties\<close>

text \<open>
  The pattern map never holds more than its cap, whatever requests arrive in whatever order, and
  a request is classified sequential only when it continues a run of at least three adjacent requests
  for its object, each within the time limit of the one before.
\<close>

theorem sequential_needs_a_run:
  fixes reqs :: "request list" and w :: nat
  defines "pol \<equiv> foldl observe_request (ReadaheadPolicy_new w) reqs"
  shows "length (patterns pol) \<le> 1024
    \<and> (snd (observe now pol object f l) = Sequential \<longrightarrow>
         3 \<le> adjacent_run (requests_of object (reqs @ [(now, object, f, l)])))"
proof (intro conjI impI)
  have i: "policy_inv pol" "tracks reqs pol" using observe_all_tracks by (simp_all add: pol_def)
  then show "length (patterns pol) \<le> 1024" by (simp add: policy_inv_def MAX_TRACKED_def)
  assume "snd (observe now pol object f l) = Sequential"
  then obtain e where e: "map_of (patterns (fst (observe now pol object f l))) object = Some e"
      "3 \<le> consecutive e"
    using observe_sequential by blast
  from observe_tracks [OF i] e(1)
  have "unat (consecutive e) \<le> adjacent_run (requests_of object (reqs @ [(now, object, f, l)]))"
    unfolding tracks_def by blast
  with e(2) show "3 \<le> adjacent_run (requests_of object (reqs @ [(now, object, f, l)]))"
    by (simp add: word_le_nat_alt)
qed

theorem sequential_needs_a_run_witness:
  "snd (observe 3 (foldl observe_request (ReadaheadPolicy_new 4) [(0, [7], 0, 1), (1, [7], 2, 3), (2, [7], 4, 4)])
      [7] 5 6) = Sequential
   \<and> 3 \<le> adjacent_run (requests_of [7] [(0, [7], 0, 1), (1, [7], 2, 3), (2, [7], 4, 4), (3, [7], 5, 6)])"
proof -
  have "snd (observe 3 (foldl observe_request (ReadaheadPolicy_new 4) [(0, [7], 0, 1), (1, [7], 2, 3), (2, [7], 4, 4)])
      [7] 5 6) = Sequential"
    by (simp add: observe_def observe_request_def ReadaheadPolicy_new_def make_room_def MAX_TRACKED_def
        PATTERN_TTL_def SEQUENTIAL_THRESHOLD_def saturating_add_def)
  then show ?thesis
    using sequential_needs_a_run [of 4 "[(0, [7], 0, 1), (1, [7], 2, 3), (2, [7], 4, 4)]" 3 "[7]" 5 6] by simp
qed

text \<open>
  A prefetch never leaves the object or the window. It is empty unless the access is sequential,
  and otherwise covers slices right after the request, at most the window of them, none past the
  last slice of the object.
\<close>

theorem prefetch_within_bounds:
  "case prefetch pol access l last_slice of (a, b) \<Rightarrow>
     (a < b \<longrightarrow> access = Sequential \<and> unat a = unat l + 1
        \<and> unat b - unat a \<le> unat (window pol) \<and> unat b \<le> unat last_slice + 1)"
proof -
  have "unat (saturating_add l 1) = unat l + 1 \<or> saturating_add l 1 = - 1"
    by (auto simp: saturating_add_def unat_word_ariths)
  moreover have "\<not> (- 1 :: u32) < x" for x by (simp add: word_not_simps)
  ultimately show ?thesis
    by (auto simp: prefetch_def Let_def word_less_nat_alt word_le_nat_alt unat_min unat_saturating_add)
qed

theorem prefetch_within_bounds_witness:
  "prefetch (ReadaheadPolicy_new 4) Sequential 6 8 = (7, 9)
   \<and> unat (9 :: u32) - unat (7 :: u32) \<le> unat (window (ReadaheadPolicy_new 4))"
proof -
  have p: "prefetch (ReadaheadPolicy_new 4) Sequential 6 8 = (7, 9)"
    by (simp add: prefetch_def ReadaheadPolicy_new_def saturating_add_def min_def)
  then show ?thesis using prefetch_within_bounds
      [where pol = "ReadaheadPolicy_new 4" and access = Sequential and l = 6 and last_slice = 8] by simp
qed

end
