(* ===== verification/Orch_Filler.thy ===== *)
theory Orch_Filler
  imports Store_Slice
begin

text \<open>
  \<open>orchestrator/filler.rs\<close>: the object-level single flight. A \<open>watch\<close> channel is its value, a version
  that every \<open>send_replace\<close> raises, and whether its sender is gone; a receiver remembers the version
  it last looked at. \<open>wait_for\<close> is a step function: one turn of its loop, from one suspension at
  \<open>rx.changed().await\<close> to the next.

  The filler and its subscribers interleave in the step relation \<open>fill_step\<close>. Its invariant is
  that a suspended subscriber has seen the current value and found nothing in it for its slice, so
  no wake-up is lost.
\<close>

section \<open>Data\<close>

datatype Progress = Ready u32 | Complete u32 | Failed string

definition covers :: "Progress \<Rightarrow> u32 \<Rightarrow> bool" where
  "covers p index = (case p of Ready count \<Rightarrow> index < count | Complete count \<Rightarrow> index < count | Failed _ \<Rightarrow> False)"

definition is_terminal :: "Progress \<Rightarrow> bool" where
  "is_terminal p = (case p of Ready _ \<Rightarrow> False | Complete _ \<Rightarrow> True | Failed _ \<Rightarrow> True)"

record Fill =
  fl_value :: Progress
  fl_version :: nat
  fl_closed :: bool

definition Fill_new :: Fill where
  "Fill_new = \<lparr>fl_value = Ready 0, fl_version = 0, fl_closed = False\<rparr>"

definition send_replace :: "Progress \<Rightarrow> Fill \<Rightarrow> Fill" where
  "send_replace p ch = ch\<lparr>fl_value := p, fl_version := Suc (fl_version ch)\<rparr>"

definition publish :: "u32 \<Rightarrow> Fill \<Rightarrow> Fill" where
  "publish count ch = send_replace (Ready count) ch"

definition complete :: "u32 \<Rightarrow> Fill \<Rightarrow> Fill" where
  "complete count ch = send_replace (Complete count) ch"

definition fail :: "string \<Rightarrow> Fill \<Rightarrow> Fill" where
  "fail reason ch = send_replace (Failed reason) ch"

text \<open>\<open>subscribe\<close> returns a receiver that has seen the value current at that moment.\<close>

definition subscribe :: "Fill \<Rightarrow> nat" where
  "subscribe ch = fl_version ch"

definition progress :: "Fill \<Rightarrow> Progress" where
  "progress ch = fl_value ch"

section \<open>The registry\<close>

text \<open>Fills are shared objects: the registry and the roles hold their addresses.\<close>

datatype Role = Filler nat | Subscriber nat nat

record FillRegistry =
  fills :: "ObjectId \<rightharpoonup> nat"
  heap :: "nat \<Rightarrow> Fill"
  next_fill :: nat

definition FillRegistry_new :: FillRegistry where
  "FillRegistry_new = \<lparr>fills = Map.empty, heap = (\<lambda>_. Fill_new), next_fill = 0\<rparr>"

definition claim :: "FillRegistry \<Rightarrow> ObjectId \<Rightarrow> FillRegistry \<times> Role" where
  "claim reg object =
    (case fills reg object of
       Some a \<Rightarrow> (reg, Subscriber a (subscribe (heap reg a)))
     | None \<Rightarrow>
         let a = next_fill reg in
         (reg\<lparr>fills := (fills reg)(object \<mapsto> a), heap := (heap reg)(a := Fill_new),
              next_fill := Suc a\<rparr>,
          Filler a))"

definition release :: "FillRegistry \<Rightarrow> ObjectId \<Rightarrow> FillRegistry" where
  "release reg object = reg\<lparr>fills := (fills reg)(object := None)\<rparr>"

definition active :: "FillRegistry \<Rightarrow> nat" where
  "active reg = card (dom (fills reg))"

section \<open>Waiting\<close>

text \<open>A call of \<open>wait_for\<close>: not yet polled, suspended after having seen a version, or finished.\<close>

datatype waiter = Start | Suspended nat | Finished "string + unit"

definition look :: "Fill \<Rightarrow> u32 \<Rightarrow> waiter" where
  "look ch index =
    (if covers (fl_value ch) index then Finished (Ok ())
     else case fl_value ch of
            Failed reason \<Rightarrow> Finished (Err reason)
          | Complete count \<Rightarrow>
              Finished (Err (''fill completed with '' @ show_word count @ '' slices; slice ''
                             @ show_word index @ '' was never produced''))
          | Ready _ \<Rightarrow> Suspended (fl_version ch))"

definition wait_for :: "Fill \<Rightarrow> u32 \<Rightarrow> waiter \<Rightarrow> waiter" where
  "wait_for ch index w =
    (case w of
       Start \<Rightarrow> look ch index
     | Suspended v \<Rightarrow>
         if fl_version ch \<noteq> v then look ch index
         else if fl_closed ch then Finished (Err ''the fill was abandoned without completing'')
         else Suspended v
     | Finished r \<Rightarrow> Finished r)"

text \<open>The filler publishes and goes away; the subscribers, each with its slice, take turns.\<close>

inductive fill_step :: "('w \<Rightarrow> u32) \<Rightarrow> Fill \<times> ('w \<Rightarrow> waiter) \<Rightarrow> Fill \<times> ('w \<Rightarrow> waiter) \<Rightarrow> bool"
  for idx where
  step_publish: "\<not> fl_closed ch \<Longrightarrow> fill_step idx (ch, ws) (publish n ch, ws)"
| step_complete: "\<not> fl_closed ch \<Longrightarrow> fill_step idx (ch, ws) (complete n ch, ws)"
| step_fail: "\<not> fl_closed ch \<Longrightarrow> fill_step idx (ch, ws) (fail r ch, ws)"
| step_drop: "fill_step idx (ch, ws) (ch\<lparr>fl_closed := True\<rparr>, ws)"
| step_wait: "fill_step idx (ch, ws) (ch, ws(w := wait_for ch (idx w) (ws w)))"

inductive_cases fill_stepE: "fill_step idx (ch, ws) s'"

definition no_lost_wakeup :: "('w \<Rightarrow> u32) \<Rightarrow> Fill \<times> ('w \<Rightarrow> waiter) \<Rightarrow> bool" where
  "no_lost_wakeup idx s \<longleftrightarrow>
    (\<forall>w v. snd s w = Suspended v \<longrightarrow>
       v \<le> fl_version (fst s)
       \<and> (v = fl_version (fst s) \<longrightarrow>
            \<not> covers (fl_value (fst s)) (idx w) \<and> \<not> is_terminal (fl_value (fst s))))"

lemma look_Suspended:
  "look ch i = Suspended v \<Longrightarrow> v = fl_version ch \<and> \<not> covers (fl_value ch) i \<and> \<not> is_terminal (fl_value ch)"
  by (auto simp: look_def is_terminal_def split: if_splits Progress.splits)

lemma look_not_Start [simp]: "look ch i \<noteq> Start"
  by (simp add: look_def split: Progress.splits)

lemma wait_for_Suspended:
  "wait_for ch i w = Suspended v \<Longrightarrow>
     (w = Suspended v \<and> v = fl_version ch)
     \<or> (v = fl_version ch \<and> \<not> covers (fl_value ch) i \<and> \<not> is_terminal (fl_value ch))"
  by (auto simp: wait_for_def dest: look_Suspended split: waiter.splits if_splits)

lemma no_lost_wakeup_send:
  "no_lost_wakeup idx (ch, ws) \<Longrightarrow> no_lost_wakeup idx (send_replace p ch, ws)"
  by (fastforce simp: no_lost_wakeup_def send_replace_def)

lemma fill_step_no_lost_wakeup:
  assumes "fill_step idx s s'" "no_lost_wakeup idx s"
  shows "no_lost_wakeup idx s'"
  using assms
proof (induction rule: fill_step.induct)
  case (step_wait ch ws w)
  then show ?case
    by (auto simp: no_lost_wakeup_def dest!: wait_for_Suspended)
next
  case (step_drop ch ws)
  then show ?case by (simp add: no_lost_wakeup_def)
qed (simp_all add: publish_def complete_def fail_def no_lost_wakeup_send)

lemma reachable_no_lost_wakeup:
  assumes "(fill_step idx)\<^sup>*\<^sup>* (Fill_new, \<lambda>_. Start) s"
  shows "no_lost_wakeup idx s"
  using assms
proof (induction rule: rtranclp_induct)
  case base
  show ?case by (simp add: no_lost_wakeup_def)
qed (rule fill_step_no_lost_wakeup)

section \<open>Single flight\<close>

text \<open>
  Callers claim objects and the caller that was made the filler releases its object when it is
  done. \<open>held\<close> is the set of fills whose filler has not released them yet.
\<close>

inductive registry_step ::
  "FillRegistry \<times> (ObjectId \<Rightarrow> nat set) \<Rightarrow> FillRegistry \<times> (ObjectId \<Rightarrow> nat set) \<Rightarrow> bool" where
  claim_filler: "claim reg object = (reg', Filler a) \<Longrightarrow>
     registry_step (reg, held) (reg', held(object := insert a (held object)))"
| claim_subscriber: "claim reg object = (reg', Subscriber a v) \<Longrightarrow>
     registry_step (reg, held) (reg', held)"
| fill_update: "registry_step (reg, held) (reg\<lparr>heap := (heap reg)(a := send_replace p (heap reg a))\<rparr>, held)"
| release_held: "a \<in> held object \<Longrightarrow>
     registry_step (reg, held) (release reg object, held(object := held object - {a}))"

definition single_flight :: "FillRegistry \<times> (ObjectId \<Rightarrow> nat set) \<Rightarrow> bool" where
  "single_flight s \<longleftrightarrow>
    (\<forall>object. snd s object = set_option (fills (fst s) object))
    \<and> (\<forall>object a. fills (fst s) object = Some a \<longrightarrow> a < next_fill (fst s))
    \<and> (\<forall>o1 o2 a. fills (fst s) o1 = Some a \<longrightarrow> fills (fst s) o2 = Some a \<longrightarrow> o1 = o2)"

lemma claim_Filler:
  "claim reg object = (reg', Filler a) \<longleftrightarrow>
     fills reg object = None \<and> a = next_fill reg
     \<and> reg' = reg\<lparr>fills := (fills reg)(object \<mapsto> a), heap := (heap reg)(a := Fill_new), next_fill := Suc a\<rparr>"
  by (auto simp: claim_def Let_def split: option.splits)

lemma claim_Subscriber:
  "claim reg object = (reg', Subscriber a v) \<longleftrightarrow>
     fills reg object = Some a \<and> v = fl_version (heap reg a) \<and> reg' = reg"
  by (auto simp: claim_def Let_def subscribe_def split: option.splits)

lemma registry_step_single_flight:
  assumes "registry_step s s'" "single_flight s"
  shows "single_flight s'"
  using assms
proof (induction rule: registry_step.induct)
  case (claim_filler reg object reg' a held)
  then show ?case by (fastforce simp: claim_Filler single_flight_def)
next
  case (release_held a held object reg)
  then have "held object = {a}" by (cases "fills reg object") (auto simp: single_flight_def)
  with release_held show ?case by (auto simp: single_flight_def release_def)
qed (auto simp: claim_Subscriber single_flight_def)

lemma reachable_single_flight:
  assumes "registry_step\<^sup>*\<^sup>* (FillRegistry_new, \<lambda>_. {}) s"
  shows "single_flight s"
  using assms
proof (induction rule: rtranclp_induct)
  case base
  show ?case by (simp add: single_flight_def FillRegistry_new_def)
qed (rule registry_step_single_flight)

section \<open>Properties\<close>

text \<open>
  C11: no subscriber waits for ever. In every reachable interleaving of a filler with its subscribers,
  a subscriber whose slice is readable, or whose fill completed or failed, finishes at its next turn,
  one whose filler is gone at the latest at the turn after, and it finishes with success
  exactly when the progress it looks at covers its slice.
\<close>

theorem wait_for_terminates:
  assumes "(fill_step idx)\<^sup>*\<^sup>* (Fill_new, \<lambda>_. Start) (ch, ws)" "\<forall>r. ws w \<noteq> Finished r"
  shows "(covers (fl_value ch) (idx w) \<or> is_terminal (fl_value ch) \<longrightarrow>
            (\<exists>r. wait_for ch (idx w) (ws w) = Finished r))
    \<and> (fl_closed ch \<longrightarrow> (\<exists>r. wait_for ch (idx w) (wait_for ch (idx w) (ws w)) = Finished r))
    \<and> (wait_for ch (idx w) (ws w) = Finished (Ok ()) \<longleftrightarrow> covers (fl_value ch) (idx w))"
proof -
  have inv: "no_lost_wakeup idx (ch, ws)" by (rule reachable_no_lost_wakeup [OF assms(1)])
  have look_end: "covers (fl_value ch) i \<or> is_terminal (fl_value ch) \<Longrightarrow> \<exists>r. look ch i = Finished r"
    and look_ok: "look ch i = Finished (Ok ()) \<longleftrightarrow> covers (fl_value ch) i" for i
    by (auto simp: look_def is_terminal_def split: Progress.splits)
  show ?thesis
  proof (cases "ws w")
    case Start
    then show ?thesis
      using look_end [of "idx w"] look_ok [of "idx w"]
      by (cases "look ch (idx w)") (auto simp: wait_for_def dest: look_Suspended)
  next
    case (Suspended v)
    then have "v = fl_version ch \<Longrightarrow> \<not> covers (fl_value ch) (idx w) \<and> \<not> is_terminal (fl_value ch)"
      using inv by (auto simp: no_lost_wakeup_def)
    with Suspended show ?thesis
      using look_end [of "idx w"] look_ok [of "idx w"]
      by (cases "look ch (idx w)") (auto simp: wait_for_def dest: look_Suspended)
  next
    case (Finished r)
    with assms(2) show ?thesis by simp
  qed
qed

theorem wait_for_terminates_witness:
  "wait_for (publish 3 Fill_new) 2 (wait_for Fill_new 2 Start) = Finished (Ok ())"
proof -
  have "fill_step (\<lambda>_ :: unit. 2) (Fill_new, \<lambda>_. Start) (Fill_new, (\<lambda>_. Start)(() := wait_for Fill_new 2 Start))"
    by (rule fill_step.step_wait)
  moreover have "fill_step (\<lambda>_ :: unit. 2) (Fill_new, (\<lambda>_. Start)(() := wait_for Fill_new 2 Start))
      (publish 3 Fill_new, (\<lambda>_. Start)(() := wait_for Fill_new 2 Start))"
    by (rule fill_step.step_publish) (simp add: Fill_new_def)
  ultimately have r: "(fill_step (\<lambda>_ :: unit. 2))\<^sup>*\<^sup>* (Fill_new, \<lambda>_. Start)
      (publish 3 Fill_new, (\<lambda>_. Start)(() := wait_for Fill_new 2 Start))"
    by (rule converse_rtranclp_into_rtranclp [OF _ r_into_rtranclp])
  have "wait_for Fill_new 2 Start = Suspended 0"
    by (simp add: wait_for_def look_def Fill_new_def covers_def)
  then show ?thesis
    using wait_for_terminates [OF r, of "()"]
    by (simp add: publish_def send_replace_def Fill_new_def covers_def)
qed

text \<open>
  C40: an object has at most one filler. In every reachable state of the registry each object has at
  most one fill whose filler has not released it, two objects never share a fill, and a
  claim while the fill is held subscribes to that very fill; after the release a claim
  starts a fresh one, so a failure does not make the object unfillable.
\<close>

theorem one_filler_per_object:
  assumes "registry_step\<^sup>*\<^sup>* (FillRegistry_new, \<lambda>_. {}) (reg, held)"
  shows "card (held object) \<le> 1
    \<and> (\<forall>o'. o' \<noteq> object \<longrightarrow> held object \<inter> held o' = {})
    \<and> (\<forall>a. a \<in> held object \<longrightarrow> claim reg object = (reg, Subscriber a (fl_version (heap reg a))))
    \<and> (\<exists>reg' a. claim (release reg object) object = (reg', Filler a) \<and> heap reg' a = Fill_new
          \<and> (\<forall>o'. a \<notin> held o'))"
proof -
  have sf: "single_flight (reg, held)" by (rule reachable_single_flight [OF assms])
  then have h: "held o' = set_option (fills reg o')" for o' by (simp add: single_flight_def)
  have "card (held object) \<le> 1" by (cases "fills reg object") (simp_all add: h)
  moreover have "held object \<inter> held o' = {}" if "o' \<noteq> object" for o'
    using sf that by (auto simp: h single_flight_def)
  moreover have "claim reg object = (reg, Subscriber a (fl_version (heap reg a)))" if "a \<in> held object" for a
    using that by (simp add: h claim_Subscriber)
  moreover have "\<exists>reg' a. claim (release reg object) object = (reg', Filler a) \<and> heap reg' a = Fill_new
      \<and> (\<forall>o'. a \<notin> held o')"
    using sf by (auto simp: claim_Filler release_def h single_flight_def)
  ultimately show ?thesis by blast
qed

theorem one_filler_per_object_witness:
  "\<exists>reg. claim FillRegistry_new [1] = (reg, Filler 0)
     \<and> claim reg [1] = (reg, Subscriber 0 (fl_version (heap reg 0)))"
proof -
  obtain reg where c: "claim FillRegistry_new [1] = (reg, Filler 0)"
    by (auto simp: claim_Filler FillRegistry_new_def)
  from registry_step.claim_filler [OF c, of "\<lambda>_. {}"]
  have "registry_step\<^sup>*\<^sup>* (FillRegistry_new, \<lambda>_. {}) (reg, (\<lambda>_. {})([1] := {0}))" by simp
  from one_filler_per_object [OF this, of "[1]"] c show ?thesis by simp
qed

end
