(* ===== verification/Config_Units.thy ===== *)
theory Config_Units
  imports Rust_Str
begin

text \<open>
  \<open>config/units.rs\<close>: sizes and durations in the configuration, and how a size is printed. A
  \<open>Duration\<close> is its number of seconds. Parsing is total and never wraps: a value that does not fit
  in \<open>u64\<close> is an error.
\<close>

datatype ParseError = Empty | Malformed string | UnknownUnit string string | Overflow string

definition units_split :: "string \<Rightarrow> ParseError + (u64 \<times> string)" where
  "units_split input =
    (let trimmed = trim input in
     if trimmed = [] then Err Empty
     else
       let digits = takeWhile is_digit trimmed in
       if digits = [] then Err (Malformed trimmed)
       else rbind (ok_or (Overflow trimmed) (parse_uint digits)) (\<lambda>value.
         Ok (value, trim (dropWhile is_digit trimmed))))"

definition size_unit :: "string \<Rightarrow> u64 option" where
  "size_unit unit =
    (if unit \<in> {'''', ''b''} then Some 1
     else if unit \<in> {''k'', ''kib''} then Some (push_bit 10 1)
     else if unit \<in> {''m'', ''mib''} then Some (push_bit 20 1)
     else if unit \<in> {''g'', ''gib''} then Some (push_bit 30 1)
     else if unit \<in> {''t'', ''tib''} then Some (push_bit 40 1)
     else if unit = ''kb'' then Some 1000
     else if unit = ''mb'' then Some 1000000
     else if unit = ''gb'' then Some 1000000000
     else if unit = ''tb'' then Some 1000000000000
     else None)"

definition parse_size :: "string \<Rightarrow> ParseError + u64" where
  "parse_size input =
    rbind (units_split input) (\<lambda>(value, unit).
      rbind (ok_or (UnknownUnit (trim input) (to_ascii_lowercase unit)) (size_unit (to_ascii_lowercase unit)))
        (\<lambda>multiplier. ok_or (Overflow (trim input)) (checked_mul value multiplier)))"

definition duration_unit :: "string \<Rightarrow> u64 option" where
  "duration_unit unit =
    (if unit \<in> {'''', ''s'', ''sec'', ''secs''} then Some 1
     else if unit \<in> {''m'', ''min'', ''mins''} then Some 60
     else if unit \<in> {''h'', ''hr'', ''hrs''} then Some 3600
     else if unit \<in> {''d'', ''day'', ''days''} then Some 86400
     else if unit \<in> {''w'', ''week'', ''weeks''} then Some 604800
     else None)"

definition parse_duration :: "string \<Rightarrow> ParseError + u64" where
  "parse_duration input =
    rbind (units_split input) (\<lambda>(value, unit).
      rbind (ok_or (UnknownUnit (trim input) (to_ascii_lowercase unit)) (duration_unit (to_ascii_lowercase unit)))
        (\<lambda>seconds. ok_or (Overflow (trim input)) (checked_mul value seconds)))"

definition format_size :: "u64 \<Rightarrow> string" where
  "format_size bytes =
    (case find (\<lambda>(name, mult). mult \<le> bytes \<and> bytes mod mult = 0)
            [(''TiB'', push_bit 40 1), (''GiB'', push_bit 30 1), (''MiB'', push_bit 20 1),
             (''KiB'', push_bit 10 (1 :: u64))] of
       Some (name, mult) \<Rightarrow> show_word (bytes div mult) @ '' '' @ name
     | None \<Rightarrow> show_word bytes @ '' B'')"

section \<open>Properties\<close>

lemma units_split_show:
  assumes "u \<noteq> []" "\<not> is_digit (hd u)" "graphic (last u)" "trim (CHR '' '' # u) = u"
  shows "units_split (show_word v @ '' '' @ u) = Ok (v, u)"
    and "trim (show_word v @ '' '' @ u) = show_word v @ '' '' @ u"
proof -
  let ?s = "show_word v @ '' '' @ u"
  have "graphic (hd ?s)"
    using show_nat_graphic [of "hd (show_word v)" "unat v"] by (simp add: is_digit_def graphic_def)
  then show t: "trim ?s = ?s" using assms(1,3) by (intro trim_id) simp_all
  have digits: "\<forall>c \<in> set (show_word v). is_digit c" using show_nat_graphic by blast
  have "takeWhile is_digit ?s = show_word v" "dropWhile is_digit ?s = CHR '' '' # u"
    using digits by (simp_all add: takeWhile_append dropWhile_append is_digit_def)
  with t assms(4) show "units_split ?s = Ok (v, u)" by (simp add: units_split_def)
qed

lemma parse_size_show:
  assumes "u \<in> {''TiB'', ''GiB'', ''MiB'', ''KiB'', ''B''}"
    and "size_unit (to_ascii_lowercase u) = Some m" "unat v * unat m < 2 ^ 64"
  shows "parse_size (show_word v @ '' '' @ u) = Ok (v * m)"
proof -
  have "u \<noteq> [] \<and> \<not> is_digit (hd u) \<and> graphic (last u) \<and> trim (CHR '' '' # u) = u"
    using assms(1)
  proof (elim insertE emptyE; clarsimp simp: is_digit_def graphic_def)
  qed code_simp+
  then have "units_split (show_word v @ '' '' @ u) = Ok (v, u)"
    using units_split_show(1) by blast
  with assms(2,3) show ?thesis by (simp add: parse_size_def checked_mul_def)
qed

lemma exact_multiple:
  assumes "(b :: u64) mod m = 0"
  shows "unat (b div m) * unat m < 2 ^ 64" "b div m * m = b"
proof -
  have "unat b mod unat m = 0" using assms by (simp add: word_unat_eq_iff unat_mod_distrib)
  then have e: "unat (b div m) * unat m = unat b" by (auto simp: unat_div_distrib)
  then show "unat (b div m) * unat m < 2 ^ 64" using unat_u64_nat [of b] by simp
  with e show "b div m * m = b" by (simp add: word_unat_eq_iff unat_word_ariths)
qed

lemma lowercase_units:
  "to_ascii_lowercase ''TiB'' = ''tib''" "to_ascii_lowercase ''GiB'' = ''gib''"
  "to_ascii_lowercase ''MiB'' = ''mib''" "to_ascii_lowercase ''KiB'' = ''kib''"
  "to_ascii_lowercase ''B'' = ''b''"
  by code_simp+

lemma printed_units:
  "size_unit ''tib'' = Some (push_bit 40 1)" "size_unit ''gib'' = Some (push_bit 30 1)"
  "size_unit ''mib'' = Some (push_bit 20 1)" "size_unit ''kib'' = Some (push_bit 10 1)"
  "size_unit ''b'' = Some 1"
  by (simp_all add: size_unit_def)

text \<open>
  A printed size reads back as the same size: parsing what \<open>format_size\<close> renders gives the
  number of bytes, for every \<open>u64\<close>.
\<close>

theorem parse_format_size: "parse_size (format_size n) = Ok n"
proof (cases "find (\<lambda>(name, mult). mult \<le> n \<and> n mod mult = 0)
            [(''TiB'', push_bit 40 1), (''GiB'', push_bit 30 1), (''MiB'', push_bit 20 1),
             (''KiB'', push_bit 10 (1 :: u64))]")
  case None
  have "parse_size (show_word n @ '' '' @ ''B'') = Ok (n * 1)"
    using unat_u64_nat [of n]
    by (intro parse_size_show) (simp_all only: lowercase_units printed_units, simp_all)
  with None show ?thesis unfolding format_size_def by (simp only: option.case) simp
next
  case (Some e)
  obtain u m where e: "e = (u, m)" by (cases e)
  have mem: "(u, m) \<in> {(''TiB'', push_bit 40 1), (''GiB'', push_bit 30 1), (''MiB'', push_bit 20 1),
             (''KiB'', push_bit 10 1)}" and d: "n mod m = 0"
    using find_SomeD [OF Some] unfolding e by (simp_all only: list.set prod.case)
  then have u: "u \<in> {''TiB'', ''GiB'', ''MiB'', ''KiB'', ''B''}" "size_unit (to_ascii_lowercase u) = Some m"
    by (elim insertE; simp only: prod.inject lowercase_units printed_units; simp)+
  have "parse_size (show_word (n div m) @ '' '' @ u) = Ok (n div m * m)"
    using u exact_multiple(1) [OF d] by (intro parse_size_show) auto
  then show ?thesis
    using Some exact_multiple(2) [OF d] unfolding e format_size_def by (simp only: option.case prod.case)
qed

text \<open>
  Size and duration parsing never wrap. A parsed value is the digits' value times a known
  unit, as natural numbers; whatever does not fit in 64 bits is refused.
\<close>

theorem parse_never_wraps:
  "(parse_size s = Ok n \<longrightarrow>
      (\<exists>v u m. units_split s = Ok (v, u) \<and> size_unit (to_ascii_lowercase u) = Some m \<and> unat n = unat v * unat m))
   \<and> (parse_duration s = Ok n \<longrightarrow>
      (\<exists>v u m. units_split s = Ok (v, u) \<and> duration_unit (to_ascii_lowercase u) = Some m \<and> unat n = unat v * unat m))"
  by (auto simp: parse_size_def parse_duration_def rbind_Ok ok_or_Ok checked_mul_Some)

theorem parse_never_wraps_witness:
  "parse_size ''1000g'' = Ok 1073741824000 \<and> unat (1073741824000 :: u64) = 1000 * 2 ^ 30
   \<and> parse_size ''99999999t'' = Err (Overflow ''99999999t'')"
proof -
  have "parse_size ''1000g'' = Ok 1073741824000"
    by (simp add: parse_size_def units_split_def str_simps size_unit_def checked_mul_def cong: rbind_weak_cong)
  moreover from this obtain v u m where "units_split ''1000g'' = Ok (v, u)"
      "size_unit (to_ascii_lowercase u) = Some m" "unat (1073741824000 :: u64) = unat v * unat m"
    using parse_never_wraps [of "''1000g''" 1073741824000] by blast
  moreover have "parse_size ''99999999t'' = Err (Overflow ''99999999t'')"
    by (simp add: parse_size_def units_split_def str_simps size_unit_def checked_mul_def cong: rbind_weak_cong)
  ultimately show ?thesis by simp
qed

end
