(* ===== verification/Config_Guard.thy ===== *)
theory Config_Guard
  imports Config_Units
begin

text \<open>
  \<open>config/guard.rs\<close>: the settings recorded in the cache directory and the start-up check against
  them. The file system is the result of reading the file, of creating the directory and of writing;
  \<open>check\<close> returns what it wrote, if anything, and its result. The text of a malformed line is
  kept as the reason's argument.
\<close>

definition STORE_FORMAT_VERSION :: u32 where
  "STORE_FORMAT_VERSION = 2"

record StoredConfig =
  sc_slice_size :: u64
  sc_store_format_version :: u32

datatype reason = ExpectedKeyValue string | NotANumber string | UnknownKey string | MissingSetting

datatype GuardError =
    GuardRead string
  | GuardWrite string
  | GuardMalformed nat reason
  | Mismatch string string

definition NL :: string where "NL = [CHR 0x0A]"

definition StoredConfig_render :: "StoredConfig \<Rightarrow> string" where
  "StoredConfig_render c =
    ''# cachic cache directory configuration.'' @ NL
    @ ''# Written automatically. Changing these by hand will not migrate the stored data.'' @ NL
    @ ''store_format_version='' @ show_word (sc_store_format_version c) @ NL
    @ ''slice_size='' @ show_word (sc_slice_size c) @ NL"

text \<open>One turn of the loop over the numbered lines.\<close>

definition parse_line ::
  "nat \<times> string \<Rightarrow> u64 option \<times> u32 option \<Rightarrow> GuardError + (u64 option \<times> u32 option)" where
  "parse_line numbered acc =
    (let index = fst numbered; line = trim (snd numbered) in
     if line = [] \<or> starts_with line ''#'' then Ok acc
     else
       rbind (ok_or (GuardMalformed (index + 1) (ExpectedKeyValue line)) (split_once (CHR ''='') line))
         (\<lambda>(key, value).
           let parsed = ok_or (GuardMalformed (index + 1) (NotANumber (trim value))) (parse_uint (trim value))
           in if trim key = ''slice_size'' then rbind parsed (\<lambda>n. Ok (Some n, snd acc))
              else if trim key = ''store_format_version'' then rbind parsed (\<lambda>n. Ok (fst acc, Some (ucast (n :: u64))))
              else Err (GuardMalformed (index + 1) (UnknownKey (trim key)))))"

primrec parse_lines ::
  "(nat \<times> string) list \<Rightarrow> u64 option \<times> u32 option \<Rightarrow> GuardError + (u64 option \<times> u32 option)" where
  "parse_lines [] acc = Ok acc"
| "parse_lines (l # ls) acc = rbind (parse_line l acc) (parse_lines ls)"

definition StoredConfig_parse :: "string \<Rightarrow> GuardError + StoredConfig" where
  "StoredConfig_parse text =
    rbind (parse_lines (enumerate 0 (lines text)) (None, None)) (\<lambda>acc.
      case acc of
        (Some slice_size, Some version) \<Rightarrow>
          Ok \<lparr>sc_slice_size = slice_size, sc_store_format_version = version\<rparr>
      | _ \<Rightarrow> Err (GuardMalformed 0 MissingSetting))"

definition StoredConfig_describe :: "StoredConfig \<Rightarrow> string" where
  "StoredConfig_describe c =
    ''slice size '' @ format_size (sc_slice_size c) @ '' (format version ''
    @ show_word (sc_store_format_version c) @ '')''"

datatype read_result = Text string | NotFound | Unreadable string

definition record_settings ::
  "string + unit \<Rightarrow> string + unit \<Rightarrow> StoredConfig \<Rightarrow> string option \<times> (GuardError + unit)" where
  "record_settings create_dir write configured =
    (case create_dir of
       Inl e \<Rightarrow> (None, Err (GuardWrite e))
     | Inr _ \<Rightarrow>
         (case write of
            Inl e \<Rightarrow> (None, Err (GuardWrite e))
          | Inr _ \<Rightarrow> (Some (StoredConfig_render configured), Ok ())))"

definition check ::
  "read_result \<Rightarrow> string + unit \<Rightarrow> string + unit \<Rightarrow> StoredConfig \<Rightarrow> bool \<Rightarrow> string option \<times> (GuardError + unit)" where
  "check file create_dir write configured force =
    (case (case file of
             Text text \<Rightarrow> rbind (StoredConfig_parse text) (\<lambda>c. Ok (Some c))
           | NotFound \<Rightarrow> Ok None
           | Unreadable e \<Rightarrow> Err (GuardRead e)) of
       Inl e \<Rightarrow> (None, Err e)
     | Inr existing \<Rightarrow>
         (case existing of
            Some found \<Rightarrow>
              if found = configured then (None, Ok ())
              else if \<not> force then
                (None, Err (Mismatch (StoredConfig_describe found) (StoredConfig_describe configured)))
              else record_settings create_dir write configured
          | None \<Rightarrow> record_settings create_dir write configured))"

section \<open>Properties\<close>

lemma last_digit_not_CR: "last (show_nat n) \<noteq> CHR 0x0D" "CHR 0x0A \<notin> set (show_nat n)"
  using show_nat_graphic [of "last (show_nat n)" n] show_nat_graphic [of "CHR 0x0A" n]
  by (auto simp: is_digit_def)

lemma lines_NL:
  "CHR 0x0A \<notin> set a \<Longrightarrow> a = [] \<or> last a \<noteq> CHR 0x0D \<Longrightarrow> lines (a @ NL @ s) = a # lines s"
  using lines_terminated by (simp add: NL_def)

lemma lines_setting: "CHR 0x0A \<notin> set k \<Longrightarrow> lines (k @ show_nat n @ NL @ s) = (k @ show_nat n) # lines s"
  using lines_NL [of "k @ show_nat n" s] last_digit_not_CR [of n] by simp

lemma lines_render:
  "lines (StoredConfig_render c) =
    [''# cachic cache directory configuration.'',
     ''# Written automatically. Changing these by hand will not migrate the stored data.'',
     ''store_format_version='' @ show_word (sc_store_format_version c),
     ''slice_size='' @ show_word (sc_slice_size c)]"
  (is "_ = [?a, ?b, ?k @ _, ?l @ _]")
proof -
  have "lines (?l @ show_word (sc_slice_size c) @ NL) = [?l @ show_word (sc_slice_size c)]"
    using lines_setting [of ?l "unat (sc_slice_size c)" "[]"] by simp
  moreover have "lines (?k @ show_word (sc_store_format_version c) @ NL @ s)
      = (?k @ show_word (sc_store_format_version c)) # lines s" for s
    by (rule lines_setting) simp
  moreover have "lines (?b @ NL @ s) = ?b # lines s" for s by (rule lines_NL) simp_all
  moreover have "lines (?a @ NL @ s) = ?a # lines s" for s by (rule lines_NL) simp_all
  ultimately show ?thesis unfolding StoredConfig_render_def by (simp only:)
qed

lemma parse_setting:
  assumes "k = ''slice_size'' \<or> k = ''store_format_version''"
  shows "parse_line (i, k @ ''='' @ show_word (w :: u64)) acc =
    Ok (if k = ''slice_size'' then (Some w, snd acc) else (fst acc, Some (ucast w)))"
proof -
  let ?s = "k @ ''='' @ show_word w"
  have k: "trim k = k" "CHR ''='' \<notin> set k" "k \<noteq> []" "graphic (hd k)" "\<not> starts_with ?s ''#''"
    using assms by (auto simp: trim_id graphic_def)
  have "graphic (last ?s)"
    using show_nat_graphic [of "last (show_word w)" "unat w"] by (simp add: is_digit_def graphic_def)
  then have t: "trim ?s = ?s" using k(3,4) by (intro trim_id) simp_all
  have "split_once (CHR ''='') ?s = Some (k, show_word w)" using k(2) by simp
  with t k assms show ?thesis by (auto simp: parse_line_def Let_def)
qed

lemma parse_render: "StoredConfig_parse (StoredConfig_render c) = Ok c"
proof -
  have a: "parse_line (i, ''# cachic cache directory configuration.'') acc = Ok acc"
    and b: "parse_line (i, ''# Written automatically. Changing these by hand will not migrate the stored data.'') acc = Ok acc"
    for i acc by (simp_all add: parse_line_def trim_id graphic_def)
  have "show_word (sc_store_format_version c) = show_word (ucast (sc_store_format_version c) :: u64)"
    by (simp add: unat_u32_u64)
  then have v: "parse_line (i, ''store_format_version='' @ show_word (sc_store_format_version c)) acc
      = Ok (fst acc, Some (sc_store_format_version c))" for i acc
    using parse_setting [of "''store_format_version''" i "ucast (sc_store_format_version c)" acc] by simp
  have l: "parse_line (i, ''slice_size='' @ show_word (sc_slice_size c)) acc
      = Ok (Some (sc_slice_size c), snd acc)" for i acc
    using parse_setting [of "''slice_size''" i "sc_slice_size c" acc] by simp
  show ?thesis
    unfolding StoredConfig_parse_def lines_render
    by (simp only: enumerate_simps parse_lines.simps a b v l rbind_simps) simp
qed

text \<open>
  The recorded settings read back as written: parsing what the guard renders gives the same
  slice size and format version.
\<close>

theorem stored_config_round_trip: "StoredConfig_parse (StoredConfig_render c) = Ok c"
  by (rule parse_render)

text \<open>
  The start-up check lets a directory be used only under the settings it was filled with. It
  succeeds without writing when they agree, refuses a mismatch unless forced, leaves an unreadable or
  malformed record alone, and after any success the record on disk parses to the running
  configuration.
\<close>

theorem guard_check_semantics:
  "(case check rd d w configured force of (written, result) \<Rightarrow>
      (result = Ok () \<longrightarrow>
         StoredConfig_parse (case written of Some t \<Rightarrow> t | None \<Rightarrow> (case rd of Text t \<Rightarrow> t | _ \<Rightarrow> [])) = Ok configured)
      \<and> (\<forall>t found. rd = Text t \<longrightarrow> StoredConfig_parse t = Ok found \<longrightarrow> found \<noteq> configured \<longrightarrow> \<not> force \<longrightarrow>
           written = None \<and> (\<exists>a b. result = Err (Mismatch a b)))
      \<and> (\<forall>t e. rd = Text t \<longrightarrow> StoredConfig_parse t = Err e \<longrightarrow> written = None \<and> result = Err e)
      \<and> (\<forall>e. rd = Unreadable e \<longrightarrow> written = None \<and> result = Err (GuardRead e)))"
  by (auto simp: check_def record_settings_def parse_render rbind_def
      split: read_result.splits sum.splits option.splits if_splits)

theorem guard_check_semantics_witness:
  "snd (check (Text (StoredConfig_render \<lparr>sc_slice_size = 1048576, sc_store_format_version = 2\<rparr>)) (Ok ()) (Ok ())
      \<lparr>sc_slice_size = 2097152, sc_store_format_version = 2\<rparr> False) \<noteq> Ok ()"
  using guard_check_semantics [where force = False and d = "Ok ()" and w = "Ok ()"
      and rd = "Text (StoredConfig_render \<lparr>sc_slice_size = 1048576, sc_store_format_version = 2\<rparr>)"
      and configured = "\<lparr>sc_slice_size = 2097152, sc_store_format_version = 2\<rparr>"]
  by (auto simp: parse_render split: prod.splits)

text \<open>
  The recorded format version is read through a 64-bit number cut to 32 bits, so a record
  that names version 4294967298 passes for version 2.
\<close>

theorem version_truncated:
  "StoredConfig_parse (''store_format_version=4294967298'' @ NL @ ''slice_size=1048576'' @ NL)
     = Ok \<lparr>sc_slice_size = 1048576, sc_store_format_version = 2\<rparr>"
proof -
  have "lines (''store_format_version=4294967298'' @ NL @ ''slice_size=1048576'' @ NL)
      = [''store_format_version=4294967298'', ''slice_size=1048576'']"
    unfolding NL_def by code_simp
  then show ?thesis
    by (simp add: StoredConfig_parse_def parse_line_def str_simps cong: rbind_weak_cong)
qed

end
