(* ===== verification/Services_Domains.thy ===== *)
theory Services_Domains
  imports Rust_Str
begin

text \<open>
  \<open>services/domains.rs\<close>: the list of services and the host patterns that belong to each. The JSON
  reader and the file system are parameters; the lines of the domain files, the pattern syntax with
  its refusal of wildcards at public suffixes, and the all-or-nothing assembly of the list are here.
  Patterns are ordered as the derived \<open>Ord\<close> orders them: exact ones first, then by their bytes.
\<close>

section \<open>Patterns\<close>

datatype Pattern = Exact string | Suffix string

instantiation Pattern :: linorder
begin

definition less_eq_Pattern :: "Pattern \<Rightarrow> Pattern \<Rightarrow> bool" where
  "less_eq_Pattern p q =
    (case (p, q) of
       (Exact a, Exact b) \<Rightarrow> a \<le> b
     | (Exact _, Suffix _) \<Rightarrow> True
     | (Suffix _, Exact _) \<Rightarrow> False
     | (Suffix a, Suffix b) \<Rightarrow> a \<le> b)"

definition less_Pattern :: "Pattern \<Rightarrow> Pattern \<Rightarrow> bool" where
  "less_Pattern p q \<longleftrightarrow> p \<le> q \<and> \<not> q \<le> (p :: Pattern)"

instance
  by standard (auto simp: less_eq_Pattern_def less_Pattern_def split: Pattern.splits)

end

definition PUBLIC_SUFFIXES :: "string list" where
  "PUBLIC_SUFFIXES =
    [''co.uk'', ''org.uk'', ''ac.uk'', ''gov.uk'', ''me.uk'', ''net.uk'', ''sch.uk'', ''com.au'', ''net.au'',
     ''org.au'', ''edu.au'', ''gov.au'', ''co.nz'', ''net.nz'', ''org.nz'', ''co.jp'', ''ne.jp'', ''or.jp'',
     ''ac.jp'', ''go.jp'', ''com.br'', ''net.br'', ''org.br'', ''com.cn'', ''net.cn'', ''org.cn'', ''com.mx'',
     ''com.ar'', ''com.tr'', ''com.sg'', ''com.hk'', ''com.tw'', ''com.my'', ''com.ph'', ''com.vn'', ''co.kr'',
     ''co.za'', ''co.in'', ''co.il'', ''co.th'', ''com.pl'', ''com.ua'', ''com.ru'']"

definition Pattern_parse :: "string \<Rightarrow> Pattern option" where
  "Pattern_parse raw =
    (let host = to_ascii_lowercase (trim_end_matches (CHR ''.'') (trim raw)) in
     if host = [] then None
     else
       let other = (if host = ''*'' \<or> starts_with host ''*'' then None else Some (Exact host)) in
       case strip_prefix host ''*.'' of
         Some rest \<Rightarrow>
           if rest \<noteq> [] then
             let labels = length (filter (\<lambda>l. l \<noteq> []) (split (CHR ''.'') rest)) in
             if labels < 2 \<or> rest \<in> set PUBLIC_SUFFIXES then None else Some (Suffix rest)
           else other
       | None \<Rightarrow> other)"

section \<open>The list\<close>

record Service =
  sv_name :: string
  sv_description :: string
  sv_patterns :: "Pattern list"

record DomainList =
  dl_services :: "Service list"

record RawService =
  raw_name :: string
  raw_description :: string
  raw_domain_files :: "string list"

datatype domain_reason = ExpectedOneHostname string | NotAHostname string

datatype DomainsError =
    DomainsJson string
  | MissingFile string string
  | DomainsMalformed string nat domain_reason
  | DomainsEmpty

definition pattern_count :: "DomainList \<Rightarrow> nat" where
  "pattern_count list = sum_list (map (\<lambda>s. length (sv_patterns s)) (dl_services list))"

text \<open>The loops of \<open>parse\<close>, innermost first: the lines of a file, the files of a service, the services.\<close>

definition domain_line :: "string \<Rightarrow> nat \<times> string \<Rightarrow> DomainsError + Pattern list" where
  "domain_line file_name numbered =
    (let line = trim (snd numbered) in
     if line = [] \<or> starts_with line ''#'' then Ok []
     else if 1 < length (split_whitespace line) then
       Err (DomainsMalformed file_name (fst numbered + 1) (ExpectedOneHostname line))
     else (case Pattern_parse line of
             Some p \<Rightarrow> Ok [p]
           | None \<Rightarrow> Err (DomainsMalformed file_name (fst numbered + 1) (NotAHostname line))))"

primrec collect :: "('a \<Rightarrow> 'e + 'b list) \<Rightarrow> 'a list \<Rightarrow> 'e + 'b list" where
  "collect f [] = Ok []"
| "collect f (x # xs) = rbind (f x) (\<lambda>ys. rbind (collect f xs) (\<lambda>zs. Ok (ys @ zs)))"

definition domain_file :: "(string \<rightharpoonup> string) \<Rightarrow> string \<Rightarrow> string \<Rightarrow> DomainsError + Pattern list" where
  "domain_file files service file_name =
    rbind (ok_or (MissingFile service file_name) (files file_name)) (\<lambda>body.
      collect (domain_line file_name) (enumerate 0 (lines body)))"

definition parse_service :: "(string \<rightharpoonup> string) \<Rightarrow> RawService \<Rightarrow> DomainsError + Service list" where
  "parse_service files raw =
    rbind (collect (domain_file files (raw_name raw)) (raw_domain_files raw)) (\<lambda>patterns.
      Ok [\<lparr>sv_name = raw_name raw, sv_description = raw_description raw,
           sv_patterns = remdups_adj (sort patterns)\<rparr>])"

definition DomainList_parse ::
  "(string \<Rightarrow> string + RawService list) \<Rightarrow> string \<Rightarrow> (string \<rightharpoonup> string) \<Rightarrow> DomainsError + DomainList" where
  "DomainList_parse json index_json files =
    rbind (map_err DomainsJson (json index_json)) (\<lambda>raws.
      rbind (collect (parse_service files) raws) (\<lambda>services.
        let list = \<lparr>dl_services = services\<rparr> in
        if pattern_count list = 0 then Err DomainsEmpty else Ok list))"

section \<open>Loading\<close>

datatype load_error = LoadIo string | LoadDomains DomainsError

text \<open>A directory entry: its name and what reading it gives.\<close>

primrec read_files ::
  "(string + (string \<times> (string + string))) list \<Rightarrow> (string \<times> string) list \<Rightarrow> load_error + (string \<times> string) list" where
  "read_files [] acc = Ok acc"
| "read_files (e # es) acc =
    rbind (map_err LoadIo e) (\<lambda>(name, text).
      if ends_with name ''.txt'' then
        rbind (map_err LoadIo text) (\<lambda>body. read_files es (btree_insert name body acc))
      else read_files es acc)"

definition load_dir ::
  "(string \<Rightarrow> string + RawService list) \<Rightarrow> string + string
   \<Rightarrow> string + (string + (string \<times> (string + string))) list \<Rightarrow> load_error + DomainList" where
  "load_dir json index_text entries =
    rbind (map_err LoadIo index_text) (\<lambda>index.
      rbind (map_err LoadIo entries) (\<lambda>es.
        rbind (read_files es []) (\<lambda>files.
          map_err LoadDomains (DomainList_parse json index (map_of files)))))"

definition BUNDLED_FILES :: "string list" where
  "BUNDLED_FILES =
    [''arenanet.txt'', ''blizzard.txt'', ''bsg.txt'', ''cityofheroes.txt'', ''cod.txt'', ''daybreak.txt'',
     ''epicgames.txt'', ''frontier.txt'', ''neverwinter.txt'', ''nexusmods.txt'', ''nintendo.txt'',
     ''origin.txt'', ''pathofexile.txt'', ''renegadex.txt'', ''riot.txt'', ''rockstar.txt'', ''sony.txt'',
     ''square.txt'', ''steam.txt'', ''teso.txt'', ''test.txt'', ''uplay.txt'', ''warframe.txt'',
     ''wargaming.net.txt'', ''windowsupdates.txt'', ''xboxlive.txt'']"

definition bundled ::
  "(string \<Rightarrow> string + RawService list) \<Rightarrow> (string \<Rightarrow> string) \<Rightarrow> DomainsError + DomainList" where
  "bundled json include_str =
    DomainList_parse json (include_str ''cache_domains.json'')
      (map_of (foldl (\<lambda>m name. btree_insert name (include_str name) m) [] BUNDLED_FILES))"

section \<open>Properties\<close>

lemma collect_OkD:
  "collect f xs = Ok ys \<Longrightarrow> \<exists>yss. list_all2 (\<lambda>x y. f x = Ok y) xs yss \<and> ys = concat yss"
proof (induction xs arbitrary: ys)
  case (Cons x xs)
  then obtain y zs where y: "f x = Ok y" "collect f xs = Ok zs" "ys = y @ zs" by (auto simp: rbind_Ok)
  with Cons.IH obtain yss where "list_all2 (\<lambda>x y. f x = Ok y) xs yss" "zs = concat yss" by blast
  with y have "list_all2 (\<lambda>x y. f x = Ok y) (x # xs) (y # yss) \<and> ys = concat (y # yss)" by simp
  then show ?case ..
qed simp

lemma collect_Ok_set:
  assumes "collect f xs = Ok ys"
  shows "set ys = {y. \<exists>x \<in> set xs. \<exists>l. f x = Ok l \<and> y \<in> set l}" and "\<forall>x \<in> set xs. \<exists>l. f x = Ok l"
proof -
  obtain yss where "list_all2 (\<lambda>x y. f x = Ok y) xs yss" "ys = concat yss"
    using collect_OkD [OF assms] by blast
  then show "set ys = {y. \<exists>x \<in> set xs. \<exists>l. f x = Ok l \<and> y \<in> set l}" "\<forall>x \<in> set xs. \<exists>l. f x = Ok l"
    by (induction arbitrary: ys) auto
qed

text \<open>The patterns a domain file holds: those of its lines that are neither blank nor comments.\<close>

definition file_patterns :: "string \<Rightarrow> Pattern set" where
  "file_patterns body =
    {p. \<exists>l \<in> set (lines body). trim l \<noteq> [] \<and> \<not> starts_with (trim l) ''#'' \<and> Pattern_parse (trim l) = Some p}"

lemma set_enumerate: "snd ` set (enumerate n xs) = set xs"
  by (metis list.set_map map_snd_enumerate)

lemma domain_line_Ok:
  "domain_line f (i, l) = Ok ps \<Longrightarrow>
     set ps = {p. trim l \<noteq> [] \<and> \<not> starts_with (trim l) ''#'' \<and> Pattern_parse (trim l) = Some p}
     \<and> (trim l \<noteq> [] \<longrightarrow> \<not> starts_with (trim l) ''#'' \<longrightarrow> (\<exists>p. Pattern_parse (trim l) = Some p))"
  by (auto simp: domain_line_def Let_def split: if_splits option.splits)

lemma domain_file_Ok:
  assumes "domain_file files service f = Ok ps"
  shows "\<exists>body. files f = Some body \<and> set ps = file_patterns body
    \<and> (\<forall>l \<in> set (lines body). trim l \<noteq> [] \<longrightarrow> \<not> starts_with (trim l) ''#'' \<longrightarrow>
          (\<exists>p. Pattern_parse (trim l) = Some p))"
proof -
  obtain body where body: "files f = Some body"
      "collect (domain_line f) (enumerate 0 (lines body)) = Ok ps"
    using assms by (auto simp: domain_file_def rbind_Ok ok_or_Ok)
  note c = collect_Ok_set [OF body(2)]
  have line: "\<exists>i. (i, l) \<in> set (enumerate 0 (lines body))" if "l \<in> set (lines body)" for l
    using that set_enumerate [of 0 "lines body"] by force
  have "set ps = file_patterns body"
  proof (intro set_eqI iffI)
    fix p assume "p \<in> set ps"
    then obtain i l ps' where "(i, l) \<in> set (enumerate 0 (lines body))" "domain_line f (i, l) = Ok ps'" "p \<in> set ps'"
      using c(1) by auto
    then show "p \<in> file_patterns body"
      using domain_line_Ok [of f i l ps'] set_enumerate [of 0 "lines body"]
      by (force simp: file_patterns_def)
  next
    fix p assume "p \<in> file_patterns body"
    then obtain l where l: "l \<in> set (lines body)" "trim l \<noteq> []" "\<not> starts_with (trim l) ''#''"
        "Pattern_parse (trim l) = Some p" by (auto simp: file_patterns_def)
    obtain i where i: "(i, l) \<in> set (enumerate 0 (lines body))" using line [OF l(1)] by blast
    then obtain ps' where "domain_line f (i, l) = Ok ps'" using c(2) by blast
    then show "p \<in> set ps" using c(1) i l domain_line_Ok [of f i l ps'] by fastforce
  qed
  moreover have "\<exists>p. Pattern_parse (trim l) = Some p"
    if l: "l \<in> set (lines body)" "trim l \<noteq> []" "\<not> starts_with (trim l) ''#''" for l
  proof -
    obtain i where "(i, l) \<in> set (enumerate 0 (lines body))" using line [OF l(1)] by blast
    then obtain ps' where "domain_line f (i, l) = Ok ps'" using c(2) by blast
    from domain_line_Ok [OF this] l(2,3) show ?thesis by blast
  qed
  ultimately show ?thesis using body(1) by blast
qed

text \<open>
  A wildcard is never rooted where an attacker can register a host. A wildcard pattern that parses
  has a parent of at least two non-empty labels outside the list of public suffixes, an exact pattern
  has no leading star, and a bare star or a star without a parent is refused.
\<close>

theorem wildcard_has_owner:
  "(Pattern_parse raw = Some (Suffix parent) \<longrightarrow>
      2 \<le> length (filter (\<lambda>l. l \<noteq> []) (split (CHR ''.'') parent)) \<and> parent \<notin> set PUBLIC_SUFFIXES
      \<and> to_ascii_lowercase (trim_end_matches (CHR ''.'') (trim raw)) = ''*.'' @ parent)
   \<and> (Pattern_parse raw = Some (Exact host) \<longrightarrow>
      host \<noteq> [] \<and> hd host \<noteq> CHR ''*'' \<and> host = to_ascii_lowercase (trim_end_matches (CHR ''.'') (trim raw)))"
proof -
  have hd: "\<not> starts_with h ''*'' \<Longrightarrow> h \<noteq> [] \<Longrightarrow> hd h \<noteq> CHR ''*''" for h
    by (cases h) auto
  show ?thesis
    by (auto simp: Pattern_parse_def Let_def hd strip_prefix_Some split: if_splits option.splits)
qed

theorem wildcard_has_owner_witness:
  "Pattern_parse ''*.windowsupdate.com'' = Some (Suffix ''windowsupdate.com'')
   \<and> ''windowsupdate.com'' \<notin> set PUBLIC_SUFFIXES
   \<and> Pattern_parse ''*.co.uk'' = None \<and> Pattern_parse ''*.com'' = None \<and> Pattern_parse ''*'' = None"
proof -
  have p: "Pattern_parse ''*.windowsupdate.com'' = Some (Suffix ''windowsupdate.com'')" by code_simp
  have "Pattern_parse ''*.co.uk'' = None" "Pattern_parse ''*.com'' = None" "Pattern_parse ''*'' = None"
    by code_simp+
  with p show ?thesis using wildcard_has_owner [of "''*.windowsupdate.com''" "''windowsupdate.com''" "[]"] by blast
qed

lemma distinct_dedup: "sorted xs \<Longrightarrow> distinct (remdups_adj xs)"
  by (induction xs rule: remdups_adj.induct) (auto simp: order.antisym)

lemma sorted_patterns: "sorted (remdups_adj (sort ps)) \<and> distinct (remdups_adj (sort ps))"
  by (simp add: sorted_remdups_adj distinct_dedup)

text \<open>A service of the list belongs to its entry of the index.\<close>

definition service_of :: "(string \<rightharpoonup> string) \<Rightarrow> RawService \<Rightarrow> Service \<Rightarrow> bool" where
  "service_of files raw s \<longleftrightarrow>
    sv_name s = raw_name raw \<and> sv_description s = raw_description raw
    \<and> sorted (sv_patterns s) \<and> distinct (sv_patterns s)
    \<and> set (sv_patterns s) = (\<Union>f \<in> set (raw_domain_files raw). file_patterns (the (files f)))
    \<and> (\<forall>f \<in> set (raw_domain_files raw). \<exists>body. files f = Some body
         \<and> (\<forall>l \<in> set (lines body). trim l \<noteq> [] \<longrightarrow> \<not> starts_with (trim l) ''#'' \<longrightarrow>
              (\<exists>p. Pattern_parse (trim l) = Some p)))"

lemma parse_service_Ok:
  assumes "parse_service files raw = Ok l"
  shows "\<exists>s. l = [s] \<and> service_of files raw s"
proof -
  let ?F = "set (raw_domain_files raw)"
  obtain ps where ps: "collect (domain_file files (raw_name raw)) (raw_domain_files raw) = Ok ps"
      "l = [\<lparr>sv_name = raw_name raw, sv_description = raw_description raw,
             sv_patterns = remdups_adj (sort ps)\<rparr>]"
    using assms by (auto simp: parse_service_def rbind_Ok)
  note c = collect_Ok_set [OF ps(1)]
  have key: "\<exists>l. domain_file files (raw_name raw) f = Ok l \<and> set l = file_patterns (the (files f))"
    and body: "\<exists>body. files f = Some body \<and> (\<forall>l \<in> set (lines body). trim l \<noteq> [] \<longrightarrow>
      \<not> starts_with (trim l) ''#'' \<longrightarrow> (\<exists>p. Pattern_parse (trim l) = Some p))" if f: "f \<in> ?F" for f
  proof -
    obtain l where l: "domain_file files (raw_name raw) f = Ok l" using bspec [OF c(2) f] by (elim exE)
    obtain b where b: "files f = Some b" "set l = file_patterns b"
        "\<forall>l \<in> set (lines b). trim l \<noteq> [] \<longrightarrow> \<not> starts_with (trim l) ''#'' \<longrightarrow>
           (\<exists>p. Pattern_parse (trim l) = Some p)"
      using domain_file_Ok [OF l] by (elim exE conjE)
    from l b(1,2) show "\<exists>l. domain_file files (raw_name raw) f = Ok l \<and> set l = file_patterns (the (files f))"
      by simp
    from b(1,3) show "\<exists>body. files f = Some body \<and> (\<forall>l \<in> set (lines body). trim l \<noteq> [] \<longrightarrow>
      \<not> starts_with (trim l) ''#'' \<longrightarrow> (\<exists>p. Pattern_parse (trim l) = Some p))"
      by (intro exI [of _ b] conjI)
  qed
  have eq: "{y. \<exists>l. domain_file files (raw_name raw) f = Ok l \<and> y \<in> set l} = file_patterns (the (files f))"
    if f: "f \<in> ?F" for f
  proof -
    obtain l where "domain_file files (raw_name raw) f = Ok l" "set l = file_patterns (the (files f))"
      using key [OF f] by (elim exE conjE)
    then show ?thesis by simp
  qed
  have "{y. \<exists>f \<in> ?F. \<exists>l. domain_file files (raw_name raw) f = Ok l \<and> y \<in> set l}
      = (\<Union>f \<in> ?F. {y. \<exists>l. domain_file files (raw_name raw) f = Ok l \<and> y \<in> set l})" by blast
  also have "\<dots> = (\<Union>f \<in> ?F. file_patterns (the (files f)))" by (rule SUP_cong [OF refl eq])
  finally have "set ps = (\<Union>f \<in> ?F. file_patterns (the (files f)))" unfolding c(1) .
  with ps(2) body show ?thesis by (simp add: service_of_def sorted_patterns)
qed

text \<open>
  A domain list loads in one piece or not at all. When it loads, its services are those of the
  index in order, each with exactly the patterns of all its files, sorted and without duplicates, no
  line was skipped as unparseable, and the list is not empty; a missing file, a bad line or an
  empty result is an error.
\<close>

theorem domain_list_all_or_nothing:
  assumes "json index = Ok raws" "DomainList_parse json index files = Ok list"
  shows "list_all2 (service_of files) raws (dl_services list) \<and> 0 < pattern_count list"
proof -
  obtain ss where ss: "collect (parse_service files) raws = Ok ss" "list = \<lparr>dl_services = ss\<rparr>"
      "0 < pattern_count list"
    using assms by (auto simp: DomainList_parse_def rbind_Ok Let_def split: if_splits)
  obtain sss where s: "list_all2 (\<lambda>raw l. parse_service files raw = Ok l) raws sss" "ss = concat sss"
    using collect_OkD [OF ss(1)] by blast
  have "list_all2 (service_of files) raws (concat sss)"
    using s(1) by (induction rule: list_all2_induct) (auto dest!: parse_service_Ok)
  with ss s(2) show ?thesis by simp
qed

theorem domain_list_all_or_nothing_witness:
  "\<exists>list. DomainList_parse (\<lambda>_. Ok [\<lparr>raw_name = ''steam'', raw_description = [], raw_domain_files = [''a'']\<rparr>]) ''x''
      [''a'' \<mapsto> ''cdn.steam.com''] = Ok list
    \<and> 0 < pattern_count list"
proof -
  let ?j = "\<lambda>_ :: string. Ok [\<lparr>raw_name = ''steam'', raw_description = [], raw_domain_files = [''a'']\<rparr>]"
  have "domain_line ''a'' (0, ''cdn.steam.com'') = Ok [Exact ''cdn.steam.com'']" by code_simp
  moreover have "lines ''cdn.steam.com'' = [''cdn.steam.com'']" by code_simp
  ultimately obtain list where l: "DomainList_parse ?j ''x'' [''a'' \<mapsto> ''cdn.steam.com''] = Ok list"
    by (simp add: DomainList_parse_def parse_service_def domain_file_def pattern_count_def)
  show ?thesis using domain_list_all_or_nothing [OF refl l] l by blast
qed

end
