(* ===== verification/Services_Matcher.thy ===== *)
theory Services_Matcher
  imports Services_Domains
begin

text \<open>
  \<open>services/matcher.rs\<close>: which service a host belongs to. The two hash maps are maps from host or
  parent domain to the index of a service. The lemmas relate the compiled matcher to the domain list
  it was built from: an exact pattern wins, otherwise the longest parent domain with a wildcard does,
  and of several services with the same pattern the last one listed.
\<close>

record Matcher =
  mt_exact :: "string \<rightharpoonup> nat"
  mt_suffix :: "string \<rightharpoonup> nat"
  mt_names :: "string list"

definition insert_pattern :: "nat \<Rightarrow> Matcher \<Rightarrow> Pattern \<Rightarrow> Matcher" where
  "insert_pattern index m p =
    (case p of
       Exact host \<Rightarrow> m\<lparr>mt_exact := (mt_exact m)(host \<mapsto> index)\<rparr>
     | Suffix parent \<Rightarrow> m\<lparr>mt_suffix := (mt_suffix m)(parent \<mapsto> index)\<rparr>)"

definition Matcher_build :: "DomainList \<Rightarrow> Matcher" where
  "Matcher_build list =
    foldl (\<lambda>m (index, service).
        foldl (insert_pattern index) (m\<lparr>mt_names := mt_names m @ [sv_name service]\<rparr>) (sv_patterns service))
      \<lparr>mt_exact = Map.empty, mt_suffix = Map.empty, mt_names = []\<rparr> (enumerate 0 (dl_services list))"

definition normalise_host :: "string \<Rightarrow> string" where
  "normalise_host host =
    (let host = trim host;
         without_port =
           (case strip_prefix host ''['' of
              Some rest \<Rightarrow>
                (case split_once (CHR '']'') rest of Some (inner, _) \<Rightarrow> inner | None \<Rightarrow> rest)
            | None \<Rightarrow>
                (case rsplit_once (CHR '':'') host of
                   Some (before, after) \<Rightarrow> if list_all is_digit after then before else host
                 | None \<Rightarrow> host))
     in to_ascii_lowercase (trim_end_matches (CHR ''.'') without_port))"

function walk_parents :: "(string \<rightharpoonup> nat) \<Rightarrow> string \<Rightarrow> nat option" where
  "walk_parents sfx rest =
    (case split_once (CHR ''.'') rest of
       None \<Rightarrow> None
     | Some (_, parent) \<Rightarrow>
         if parent = [] then None
         else (case sfx parent of
                 Some index \<Rightarrow> Some index
               | None \<Rightarrow> walk_parents sfx parent))"
  by pat_completeness auto
termination
  by (relation "measure (\<lambda>(m, s). length s)") (auto dest!: split_once_SomeD)

declare walk_parents.simps [simp del]

definition name_at :: "Matcher \<Rightarrow> nat \<Rightarrow> string option" where
  "name_at m i = (if i < length (mt_names m) then Some (mt_names m ! i) else None)"

definition service_for :: "Matcher \<Rightarrow> string \<Rightarrow> string option" where
  "service_for m host =
    (let host = normalise_host host in
     if host = [] then None
     else (case mt_exact m host of
             Some index \<Rightarrow> name_at m index
           | None \<Rightarrow>
               (case walk_parents (mt_suffix m) host of
                  Some index \<Rightarrow> name_at m index
                | None \<Rightarrow> None)))"

definition service_count :: "Matcher \<Rightarrow> nat" where
  "service_count m = length (mt_names m)"

definition matcher_pattern_count :: "Matcher \<Rightarrow> nat" where
  "matcher_pattern_count m = card (dom (mt_exact m)) + card (dom (mt_suffix m))"

section \<open>The matcher and its list\<close>

text \<open>The last service of a list that has a pattern.\<close>

definition owner :: "Service list \<Rightarrow> Pattern \<Rightarrow> string option" where
  "owner services p =
    (let having = filter (\<lambda>s. p \<in> set (sv_patterns s)) services
     in if having = [] then None else Some (sv_name (last having)))"

lemma owner_snoc:
  "owner (ss @ [s]) p = (if p \<in> set (sv_patterns s) then Some (sv_name s) else owner ss p)"
  by (simp add: owner_def)

lemma insert_patterns:
  "mt_exact (foldl (insert_pattern i) m ps) h = (if Exact h \<in> set ps then Some i else mt_exact m h)"
  "mt_suffix (foldl (insert_pattern i) m ps) h = (if Suffix h \<in> set ps then Some i else mt_suffix m h)"
  "mt_names (foldl (insert_pattern i) m ps) = mt_names m"
  by (induction ps arbitrary: m) (auto simp: insert_pattern_def split: Pattern.splits)

lemma Matcher_build_snoc:
  "Matcher_build \<lparr>dl_services = ss @ [s]\<rparr> =
    (let m = Matcher_build \<lparr>dl_services = ss\<rparr> in
     foldl (insert_pattern (length ss)) (m\<lparr>mt_names := mt_names m @ [sv_name s]\<rparr>) (sv_patterns s))"
  by (simp add: Matcher_build_def enumerate_append_eq Let_def)

text \<open>An entry of a map is the index of the service that owns the pattern.\<close>

definition indexes :: "Service list \<Rightarrow> nat option \<Rightarrow> string option \<Rightarrow> bool" where
  "indexes ss i n \<longleftrightarrow> n = map_option (\<lambda>i. sv_name (ss ! i)) i \<and> (\<forall>j. i = Some j \<longrightarrow> j < length ss)"

lemma indexes_snoc:
  "indexes ss i n \<Longrightarrow> indexes (ss @ [s]) i n"
  "indexes (ss @ [s]) (Some (length ss)) (Some (sv_name s))"
  by (cases i) (auto simp: indexes_def nth_append)

lemma Matcher_build_indexes:
  "mt_names (Matcher_build \<lparr>dl_services = ss\<rparr>) = map sv_name ss
   \<and> indexes ss (mt_exact (Matcher_build \<lparr>dl_services = ss\<rparr>) h) (owner ss (Exact h))
   \<and> indexes ss (mt_suffix (Matcher_build \<lparr>dl_services = ss\<rparr>) h) (owner ss (Suffix h))"
proof (induction ss rule: rev_induct)
  case Nil
  then show ?case by (simp add: Matcher_build_def owner_def indexes_def)
next
  case (snoc s ss)
  then show ?case
    by (simp add: Let_def Matcher_build_snoc insert_patterns owner_snoc indexes_snoc)
qed

lemma Matcher_build_maps:
  fixes ss :: "Service list"
  defines "m \<equiv> Matcher_build \<lparr>dl_services = ss\<rparr>"
  shows "(case mt_exact m h of None \<Rightarrow> None | Some i \<Rightarrow> name_at m i) = owner ss (Exact h)"
    and "(case mt_suffix m h of None \<Rightarrow> None | Some i \<Rightarrow> name_at m i) = owner ss (Suffix h)"
    and "mt_exact m h = None \<longleftrightarrow> owner ss (Exact h) = None"
    and "mt_suffix m h = None \<longleftrightarrow> owner ss (Suffix h) = None"
  using Matcher_build_indexes [of ss h] unfolding m_def [symmetric]
  by (auto simp: indexes_def name_at_def split: option.splits)

text \<open>The walk finds the longest parent domain that has an entry.\<close>

definition parent_of :: "string \<Rightarrow> string \<Rightarrow> bool" where
  "parent_of host parent \<longleftrightarrow> parent \<noteq> [] \<and> (\<exists>pre. host = pre @ ''.'' @ parent)"

lemma parent_of_step:
  assumes "split_once (CHR ''.'') host = Some (label, parent)"
  shows "parent_of host p \<longleftrightarrow> p \<noteq> [] \<and> (p = parent \<or> parent_of parent p)"
proof -
  have h: "host = label @ CHR ''.'' # parent" "CHR ''.'' \<notin> set label"
    using split_once_SomeD [OF assms] by auto
  have "(\<exists>pre. host = pre @ CHR ''.'' # p) \<longleftrightarrow> p = parent \<or> (\<exists>pre. parent = pre @ CHR ''.'' # p)"
  proof
    assume "\<exists>pre. host = pre @ CHR ''.'' # p"
    then obtain pre where pre: "label @ CHR ''.'' # parent = pre @ CHR ''.'' # p" using h(1) by auto
    then obtain us where "label = pre @ us \<and> us @ CHR ''.'' # parent = CHR ''.'' # p
        \<or> label @ us = pre \<and> CHR ''.'' # parent = us @ CHR ''.'' # p"
      unfolding append_eq_append_conv2 by blast
    then show "p = parent \<or> (\<exists>pre. parent = pre @ CHR ''.'' # p)"
      using h(2) by (cases us) auto
  qed (auto simp: h(1))
  then show ?thesis by (auto simp: parent_of_def)
qed

lemma no_parent: "split_once (CHR ''.'') host = None \<Longrightarrow> \<not> parent_of host p"
  by (auto simp: parent_of_def split_once_None)

lemma parent_nonempty: "parent_of host p \<Longrightarrow> p \<noteq> []"
  by (simp add: parent_of_def)

lemma parent_shorter: "parent_of host p \<Longrightarrow> length p < length host"
  by (auto simp: parent_of_def)

lemma walk_parents_None:
  "walk_parents m host = None \<longleftrightarrow> (\<forall>p. parent_of host p \<longrightarrow> m p = None)"
proof (induction m host rule: walk_parents.induct)
  case (1 m host)
  show ?case
  proof (cases "split_once (CHR ''.'') host")
    case None
    then show ?thesis using no_parent by (auto simp: walk_parents.simps [of m host])
  next
    case (Some lp)
    obtain l q where lp: "lp = (l, q)" by (cases lp)
    have s: "split_once (CHR ''.'') host = Some (l, q)" using Some lp by simp
    note step = parent_of_step [OF s]
    show ?thesis
    proof (cases "q = []")
      case True
      then have "\<not> parent_of host p" for p using step [of p] parent_shorter [of q p] by auto
      with True show ?thesis by (simp add: walk_parents.simps [of m host] s)
    next
      case False
      show ?thesis
      proof (cases "m q")
        case None
        then have "walk_parents m host = walk_parents m q"
          using False by (simp add: walk_parents.simps [of m host] s)
        moreover have "(\<forall>p. parent_of host p \<longrightarrow> m p = None) \<longleftrightarrow> (\<forall>p. parent_of q p \<longrightarrow> m p = None)"
          using None step parent_nonempty by metis
        ultimately show ?thesis using 1 [OF Some lp [symmetric] False None] by simp
      next
        case (Some j)
        then have "walk_parents m host = Some j"
          using False by (simp add: walk_parents.simps [of m host] s)
        moreover have "parent_of host q" using step False by simp
        ultimately show ?thesis using Some by force
      qed
    qed
  qed
qed

lemma walk_parents_Some:
  "walk_parents m host = Some i \<Longrightarrow>
     \<exists>p. parent_of host p \<and> m p = Some i \<and> (\<forall>p'. parent_of host p' \<and> length p < length p' \<longrightarrow> m p' = None)"
proof (induction m host rule: walk_parents.induct)
  case (1 m host)
  then obtain l q where lq: "split_once (CHR ''.'') host = Some (l, q)" "q \<noteq> []"
    by (auto simp: walk_parents.simps [of m host] split: option.splits prod.splits if_splits)
  note step = parent_of_step [OF lq(1)]
  show ?case
  proof (cases "m q")
    case (Some j)
    then have "j = i" using 1(2) lq by (simp add: walk_parents.simps [of m host])
    have "parent_of host q" using step lq(2) by simp
    moreover have "\<not> length q < length p'" if "parent_of host p'" for p'
      using that step [of p'] parent_shorter [of q p'] by auto
    ultimately show ?thesis using Some \<open>j = i\<close> by blast
  next
    case None
    then have "walk_parents m q = Some i" using 1(2) lq by (simp add: walk_parents.simps [of m host])
    from 1(1) [OF lq(1) refl lq(2) None this] obtain p where
      p: "parent_of q p" "m p = Some i" "\<forall>p'. parent_of q p' \<and> length p < length p' \<longrightarrow> m p' = None" by blast
    have "parent_of host p" using step [of p] p(1) parent_nonempty by blast
    moreover have "m p' = None" if "parent_of host p'" "length p < length p'" for p'
      using that step [of p'] p(3) None by auto
    ultimately show ?thesis using p(2) by blast
  qed
qed

section \<open>Properties\<close>

text \<open>
  A host goes to the service that names it most specifically. After normalisation, a host with an
  exact pattern belongs to the last service listing it; otherwise to the last service listing the
  wildcard of its longest listed parent domain; otherwise to none. A wildcard never matches its own
  parent.
\<close>

theorem service_for_longest_match:
  fixes ss :: "Service list"
  assumes "h = normalise_host host"
  shows "(h = [] \<longrightarrow> service_for (Matcher_build \<lparr>dl_services = ss\<rparr>) host = None)
    \<and> (h \<noteq> [] \<longrightarrow> owner ss (Exact h) \<noteq> None \<longrightarrow>
         service_for (Matcher_build \<lparr>dl_services = ss\<rparr>) host = owner ss (Exact h))
    \<and> (h \<noteq> [] \<longrightarrow> owner ss (Exact h) = None \<longrightarrow>
        (case service_for (Matcher_build \<lparr>dl_services = ss\<rparr>) host of
           None \<Rightarrow> (\<forall>p. parent_of h p \<longrightarrow> owner ss (Suffix p) = None)
         | Some n \<Rightarrow> (\<exists>p. parent_of h p \<and> p \<noteq> h \<and> owner ss (Suffix p) = Some n
              \<and> (\<forall>p'. parent_of h p' \<and> length p < length p' \<longrightarrow> owner ss (Suffix p') = None))))"
proof -
  let ?m = "Matcher_build \<lparr>dl_services = ss\<rparr>"
  note maps = Matcher_build_maps [of ss]
  show ?thesis
  proof (cases "h = [] \<or> owner ss (Exact h) \<noteq> None")
    case True
    then show ?thesis
      using maps(1) [of h] assms by (auto simp: service_for_def Let_def split: option.splits)
  next
    case False
    then have e: "mt_exact ?m h = None" using maps(3) by simp
    show ?thesis
    proof (cases "walk_parents (mt_suffix ?m) h")
      case None
      then have "service_for ?m host = None" using False e assms by (simp add: service_for_def)
      with None False show ?thesis using maps(4) by (simp add: walk_parents_None)
    next
      case (Some i)
      from walk_parents_Some [OF this] obtain p where
        p: "parent_of h p" "mt_suffix ?m p = Some i"
          "\<forall>p'. parent_of h p' \<and> length p < length p' \<longrightarrow> mt_suffix ?m p' = None" by blast
      have s: "service_for ?m host = name_at ?m i" using Some False e assms by (simp add: service_for_def)
      have o: "name_at ?m i = owner ss (Suffix p)" using maps(2) [of p] p(2) by simp
      moreover have "owner ss (Suffix p) \<noteq> None" using maps(4) [of p] p(2) by simp
      moreover have "p \<noteq> h" using parent_shorter [OF p(1)] by auto
      ultimately show ?thesis using s p(1,3) False maps(4) by auto
    qed
  qed
qed

theorem service_for_longest_match_witness:
  "service_for (Matcher_build \<lparr>dl_services =
      [\<lparr>sv_name = ''a'', sv_description = [], sv_patterns = [Suffix ''x.com'']\<rparr>,
       \<lparr>sv_name = ''b'', sv_description = [], sv_patterns = [Exact ''q.x.com'', Suffix ''cdn.x.com'']\<rparr>]\<rparr>)
     ''Q.x.com:80'' = Some ''b''"
proof -
  let ?ss = "[\<lparr>sv_name = ''a'', sv_description = [], sv_patterns = [Suffix ''x.com'']\<rparr>,
       \<lparr>sv_name = ''b'', sv_description = [], sv_patterns = [Exact ''q.x.com'', Suffix ''cdn.x.com'']\<rparr>]"
  have n: "''q.x.com'' = normalise_host ''Q.x.com:80''" by code_simp
  have "owner ?ss (Exact ''q.x.com'') = Some ''b''" by (simp add: owner_def)
  then show ?thesis using service_for_longest_match [OF n, of ?ss] by simp
qed

end
