(* ===== verification/Config_Rules.thy ===== *)
theory Config_Rules
  imports Config_Units
begin

text \<open>
  \<open>config/rules.rs\<close> and \<open>services/defaults.rs\<close>: the per-service rules, their validation, the rules
  shipped by default and how an operator's file is laid over them. The TOML reader is a parameter.
  Patterns are regular expressions and stay text here; \<open>Services_Key\<close> compiles them.
\<close>

section \<open>Rules\<close>

record ServiceRule =
  sr_keep_query :: bool
  sr_include_host :: bool
  sr_honour_upstream_cache_control :: bool
  sr_upstream_https :: bool
  sr_slice_size :: "string option"
  sr_max_inflight :: "nat option"
  sr_include_paths :: "string list"
  sr_exclude_paths :: "string list"

definition ServiceRule_default :: ServiceRule where
  "ServiceRule_default =
    \<lparr>sr_keep_query = False, sr_include_host = False, sr_honour_upstream_cache_control = False,
     sr_upstream_https = False, sr_slice_size = None, sr_max_inflight = None,
     sr_include_paths = [], sr_exclude_paths = []\<rparr>"

record Rules =
  ru_defaults :: ServiceRule
  ru_services :: "(string \<times> ServiceRule) list"

datatype rule_reason = BadSliceSize ParseError | SliceSizeNotPowerOfTwo string | MaxInflightZero

datatype RulesError = RulesRead string | RulesParse string | RulesInvalid string rule_reason

definition validate_rule :: "string \<Rightarrow> ServiceRule \<Rightarrow> RulesError + unit" where
  "validate_rule name rule =
    rbind (case sr_slice_size rule of
             None \<Rightarrow> Ok ()
           | Some sl \<Rightarrow>
               rbind (map_err (\<lambda>e. RulesInvalid name (BadSliceSize e)) (parse_size sl)) (\<lambda>size.
                 if size = 0 \<or> \<not> is_power_of_two size
                 then Err (RulesInvalid name (SliceSizeNotPowerOfTwo sl)) else Ok ()))
      (\<lambda>_. if sr_max_inflight rule = Some 0 then Err (RulesInvalid name MaxInflightZero) else Ok ())"

primrec validate_services :: "(string \<times> ServiceRule) list \<Rightarrow> RulesError + unit" where
  "validate_services [] = Ok ()"
| "validate_services (e # es) = rbind (validate_rule (fst e) (snd e)) (\<lambda>_. validate_services es)"

definition Rules_validate :: "Rules \<Rightarrow> RulesError + unit" where
  "Rules_validate rules = validate_services (ru_services rules)"

definition Rules_load :: "(string \<Rightarrow> string + Rules) \<Rightarrow> string + string \<Rightarrow> RulesError + Rules" where
  "Rules_load toml file_text =
    rbind (map_err RulesRead file_text) (\<lambda>text.
      rbind (map_err RulesParse (toml text)) (\<lambda>rules.
        rbind (Rules_validate rules) (\<lambda>_. Ok rules)))"

definition for_service :: "Rules \<Rightarrow> string \<Rightarrow> ServiceRule" where
  "for_service rules service =
    (case map_of (ru_services rules) service of Some r \<Rightarrow> r | None \<Rightarrow> ru_defaults rules)"

section \<open>Shipped defaults\<close>

abbreviation bslash :: string where "bslash \<equiv> [CHR 0x5C]"

definition shipped :: Rules where
  "shipped =
    (let excluding = (\<lambda>ps. ServiceRule_default\<lparr>sr_exclude_paths := ps\<rparr>);
         s1 = btree_insert ''riot'' (excluding [''releaselisting_'', bslash @ ''.version$'']) [];
         s2 = btree_insert ''arenanet'' (excluding [''^/latest64'']) s1;
         s3 = btree_insert ''wsus''
                (excluding [''(?i)authrootstl'' @ bslash @ ''.cab$'', ''(?i)pinrulesstl'' @ bslash @ ''.cab$'',
                            ''(?i)disallowedcertstl'' @ bslash @ ''.cab$'']) s2;
         s4 = btree_insert ''steam'' (excluding [''^/server-status$'']) s3
     in \<lparr>ru_defaults = ServiceRule_default, ru_services = s4\<rparr>)"

definition merge :: "Rules \<Rightarrow> Rules" where
  "merge operator =
    shipped\<lparr>ru_defaults := ru_defaults operator,
            ru_services := foldl (\<lambda>m e. btree_insert (fst e) (snd e) m) (ru_services shipped) (ru_services operator)\<rparr>"

section \<open>Properties\<close>

lemma map_of_foldl_insert:
  "btree es \<Longrightarrow> map_of (foldl (\<lambda>m e. btree_insert (fst e) (snd e) m) m0 es) = map_of m0 ++ map_of es"
proof (induction es arbitrary: m0)
  case (Cons e es)
  have b: "btree es" and "fst e \<notin> fst ` set es" using Cons.prems by (auto simp: btree_def)
  then have "fst e \<notin> dom (map_of es)" by (simp add: dom_map_of_conv_image_fst)
  with Cons.IH [OF b] show ?case by (cases e) (auto simp: map_add_def fun_eq_iff split: option.splits)
qed simp

text \<open>
  An operator's rule file wins service by service. After the merge a service the operator names has
  exactly the operator's rule, a shipped service the operator leaves out keeps the shipped rule,
  and every other service gets the operator's defaults.
\<close>

theorem merge_precedence:
  assumes "btree (ru_services operator)"
  shows "for_service (merge operator) s =
    (case map_of (ru_services operator) s of
       Some r \<Rightarrow> r
     | None \<Rightarrow> (case map_of (ru_services shipped) s of Some r \<Rightarrow> r | None \<Rightarrow> ru_defaults operator))"
  using map_of_foldl_insert [OF assms, of "ru_services shipped"]
  by (simp add: for_service_def merge_def map_add_def split: option.splits)

theorem merge_precedence_witness:
  "for_service (merge \<lparr>ru_defaults = ServiceRule_default,
       ru_services = [(''steam'', ServiceRule_default\<lparr>sr_keep_query := True\<rparr>)]\<rparr>) ''steam''
     = ServiceRule_default\<lparr>sr_keep_query := True\<rparr>"
  using merge_precedence [of "\<lparr>ru_defaults = ServiceRule_default,
       ru_services = [(''steam'', ServiceRule_default\<lparr>sr_keep_query := True\<rparr>)]\<rparr>" "''steam''"]
  by (simp add: btree_def)

text \<open>
  A rules file that loads is usable: every service's slice size, when given, parses to a
  power of two, and no service is limited to zero concurrent fetches.
\<close>

theorem loaded_rules_valid:
  assumes "Rules_load toml text = Ok rules"
  shows "\<forall>(name, rule) \<in> set (ru_services rules).
      (\<forall>sl. sr_slice_size rule = Some sl \<longrightarrow> (\<exists>n k. parse_size sl = Ok n \<and> unat n = 2 ^ k))
      \<and> sr_max_inflight rule \<noteq> Some 0"
proof -
  have one: "(\<forall>sl. sr_slice_size r = Some sl \<longrightarrow> (\<exists>n k. parse_size sl = Ok n \<and> unat n = 2 ^ k))
      \<and> sr_max_inflight r \<noteq> Some 0" if "validate_rule name r = Ok u" for name r u
    using that
    by (cases "sr_slice_size r")
      (auto simp: validate_rule_def rbind_Ok map_err_def is_power_of_two_iff split: sum.splits if_splits)
  have "\<forall>e \<in> set es. \<exists>u. validate_rule (fst e) (snd e) = Ok u" if "validate_services es = Ok u" for es u
    using that by (induction es) (auto simp: rbind_Ok)
  moreover obtain u where "validate_services (ru_services rules) = Ok u"
    using assms by (auto simp: Rules_load_def Rules_validate_def rbind_Ok)
  ultimately show ?thesis using one by fastforce
qed

theorem loaded_rules_valid_witness:
  "Rules_load (\<lambda>_. Ok shipped) (Ok ''text'') = Ok shipped
   \<and> (\<forall>(name, rule) \<in> set (ru_services shipped). sr_max_inflight rule \<noteq> Some 0)"
proof -
  have "Rules_load (\<lambda>_. Ok shipped) (Ok ''text'') = Ok shipped"
    by (simp add: Rules_load_def Rules_validate_def shipped_def validate_rule_def ServiceRule_default_def)
  from this loaded_rules_valid [OF this] show ?thesis by auto
qed

end
