(* ===== verification/Services_Key.thy ===== *)
theory Services_Key
  imports Services_Matcher Config_Rules Store_Slice
begin

text \<open>
  \<open>services/key.rs\<close>: the cache key of a request and the object id derived from it. The regular
  expression engine is a parameter (whether a pattern compiles, whether it matches) and so is
  \<open>blake3\<close>. Normalisation decodes percent escapes, collapses slashes and resolves dots; by default it
  drops the host and the query.
\<close>

section \<open>Rules\<close>

record CompiledRule =
  cr_keep_query :: bool
  cr_include_host :: bool
  cr_upstream_https :: bool
  cr_include :: "string list option"
  cr_exclude :: "string list option"

definition CompiledRule_default :: CompiledRule where
  "CompiledRule_default =
    \<lparr>cr_keep_query = False, cr_include_host = False, cr_upstream_https = False, cr_include = None,
     cr_exclude = None\<rparr>"

record CompileError =
  ce_service :: string
  ce_field :: string
  ce_pattern :: "string list"

text \<open>\<open>compiles\<close> says whether a list of patterns builds as a set; a single one is its singleton.\<close>

definition build_set ::
  "(string list \<Rightarrow> bool) \<Rightarrow> string \<Rightarrow> string \<Rightarrow> string list \<Rightarrow> CompileError + string list option" where
  "build_set compiles service field patterns =
    (if patterns = [] then Ok None
     else (case find (\<lambda>p. \<not> compiles [p]) patterns of
             Some p \<Rightarrow> Err \<lparr>ce_service = service, ce_field = field, ce_pattern = [p]\<rparr>
           | None \<Rightarrow>
               if compiles patterns then Ok (Some patterns)
               else Err \<lparr>ce_service = service, ce_field = field, ce_pattern = patterns\<rparr>))"

definition CompiledRule_compile ::
  "(string list \<Rightarrow> bool) \<Rightarrow> string \<Rightarrow> ServiceRule \<Rightarrow> CompileError + CompiledRule" where
  "CompiledRule_compile compiles service rule =
    rbind (build_set compiles service ''include_paths'' (sr_include_paths rule)) (\<lambda>inc.
      rbind (build_set compiles service ''exclude_paths'' (sr_exclude_paths rule)) (\<lambda>exc.
        Ok \<lparr>cr_keep_query = sr_keep_query rule, cr_include_host = sr_include_host rule,
            cr_upstream_https = sr_upstream_https rule, cr_include = inc, cr_exclude = exc\<rparr>))"

definition set_is_match :: "(string \<Rightarrow> string \<Rightarrow> bool) \<Rightarrow> string list \<Rightarrow> string \<Rightarrow> bool" where
  "set_is_match is_match patterns path = list_ex (\<lambda>p. is_match p path) patterns"

definition is_cacheable :: "(string \<Rightarrow> string \<Rightarrow> bool) \<Rightarrow> CompiledRule \<Rightarrow> string \<Rightarrow> bool" where
  "is_cacheable is_match rule path =
    (if (case cr_exclude rule of Some ex \<Rightarrow> set_is_match is_match ex path | None \<Rightarrow> False) then False
     else (case cr_include rule of Some inc \<Rightarrow> set_is_match is_match inc path | None \<Rightarrow> True))"

section \<open>Keys\<close>

record CacheKey =
  ck_key :: string
  ck_service :: string

definition object_preimage :: "CacheKey \<Rightarrow> bytes" where
  "object_preimage k = str_bytes (ck_service k) @ [0] @ str_bytes (ck_key k)"

definition object_id :: "(bytes \<Rightarrow> bytes) \<Rightarrow> CacheKey \<Rightarrow> ObjectId" where
  "object_id blake3 k = take 16 (blake3 (object_preimage k))"

definition hex_value :: "char \<Rightarrow> nat option" where
  "hex_value c =
    (if 48 \<le> code c \<and> code c \<le> 57 then Some (code c - 48)
     else if 97 \<le> code c \<and> code c \<le> 102 then Some (code c - 97 + 10)
     else if 65 \<le> code c \<and> code c \<le> 70 then Some (code c - 65 + 10)
     else None)"

fun decode_escapes :: "string \<Rightarrow> string" where
  "decode_escapes (c # h # l # r) =
    (if c = CHR ''%'' then
       (case (hex_value h, hex_value l) of
          (Some hi, Some lo) \<Rightarrow> char_of (16 * hi + lo) # decode_escapes r
        | _ \<Rightarrow> c # decode_escapes (h # l # r))
     else c # decode_escapes (h # l # r))"
| "decode_escapes s = s"

definition percent_decode :: "string \<Rightarrow> string" where
  "percent_decode input =
    (if CHR ''%'' \<notin> set input then input
     else let out = decode_escapes input in if utf8_valid out then out else input)"

definition push_segment :: "string list \<Rightarrow> string \<Rightarrow> string list" where
  "push_segment segments segment =
    (if segment = [] \<or> segment = ''.'' then segments
     else if segment = ''..'' then butlast segments
     else segments @ [segment])"

definition normalise_path :: "string \<Rightarrow> string" where
  "normalise_path path =
    (let decoded = percent_decode path;
         segments = foldl push_segment [] (split (CHR ''/'') decoded);
         out = concat (map (\<lambda>s. CHR ''/'' # s) segments)
     in if out = [] then ''/''
        else if ends_with decoded ''/'' then out @ ''/''
        else out)"

definition split_target :: "string \<Rightarrow> string \<times> string option" where
  "split_target target =
    (case split_once (CHR ''?'') target of Some (path, query) \<Rightarrow> (path, Some query) | None \<Rightarrow> (target, None))"

definition normalise :: "string \<Rightarrow> string \<Rightarrow> string \<Rightarrow> CompiledRule \<Rightarrow> CacheKey" where
  "normalise service host target rule =
    (case split_target target of (path, query) \<Rightarrow>
      \<lparr>ck_key =
         (if cr_include_host rule then normalise_host host else [])
         @ normalise_path path
         @ (if cr_keep_query rule then (case query of Some q \<Rightarrow> ''?'' @ q | None \<Rightarrow> []) else []),
       ck_service = service\<rparr>)"

section \<open>Normal paths\<close>

definition plain_segment :: "string \<Rightarrow> bool" where
  "plain_segment s \<longleftrightarrow> s \<noteq> [] \<and> s \<noteq> ''.'' \<and> s \<noteq> ''..'' \<and> CHR ''/'' \<notin> set s"

lemma push_segments_plain:
  assumes "\<forall>s \<in> set acc. plain_segment s" "\<forall>s \<in> set ps. CHR ''/'' \<notin> set s"
  shows "\<forall>s \<in> set (foldl push_segment acc ps). plain_segment s"
  using assms
proof (induction ps arbitrary: acc)
  case (Cons p ps)
  have "\<forall>s \<in> set (push_segment acc p). plain_segment s"
    using Cons.prems by (auto simp: push_segment_def plain_segment_def dest: in_set_butlastD)
  with Cons show ?case by simp
qed simp

lemma push_plain: "\<forall>s \<in> set ps. plain_segment s \<Longrightarrow> foldl push_segment acc ps = acc @ ps"
  by (induction ps arbitrary: acc) (auto simp: push_segment_def plain_segment_def)

lemma push_segment_Nil [simp]: "push_segment acc [] = acc"
  by (simp add: push_segment_def)

lemma split_segments:
  "\<forall>s \<in> set segs. CHR ''/'' \<notin> set s \<Longrightarrow> segs \<noteq> [] \<Longrightarrow>
   split (CHR ''/'') (concat (map (\<lambda>s. CHR ''/'' # s) segs)) = [] # segs"
proof (induction segs)
  case (Cons s segs)
  show ?case
  proof (cases "segs = []")
    case True
    with Cons.prems show ?thesis by (simp add: split_no_sep_id)
  next
    case False
    then obtain r where r: "concat (map (\<lambda>s. CHR ''/'' # s) segs) = CHR ''/'' # r"
      by (cases segs) auto
    with Cons False have "split (CHR ''/'') r = segs" by simp
    with Cons.prems r show ?thesis by (simp add: split_append_sep)
  qed
qed simp

text \<open>A normal path: plain segments behind slashes, perhaps with a slash at the end.\<close>

definition normal_path :: "string \<Rightarrow> bool" where
  "normal_path s \<longleftrightarrow>
    (\<exists>segs t. (\<forall>x \<in> set segs. plain_segment x)
       \<and> s = (if segs = [] then ''/''
              else concat (map (\<lambda>x. CHR ''/'' # x) segs) @ (if t then ''/'' else [])))"

lemma concat_segments_Nil: "concat (map (\<lambda>x. CHR ''/'' # x) segs) = [] \<longleftrightarrow> segs = []"
  by (cases segs) auto

lemma normalise_path_normal: "normal_path (normalise_path p)"
proof -
  let ?segs = "foldl push_segment [] (split (CHR ''/'') (percent_decode p))"
  have "\<forall>x \<in> set ?segs. plain_segment x"
    by (rule push_segments_plain) (auto dest: split_no_sep)
  then show ?thesis
    unfolding normal_path_def
    by (intro exI [of _ ?segs] exI [of _ "ends_with (percent_decode p) ''/''"])
      (auto simp: normalise_path_def Let_def)
qed

lemma split_snoc_sep: "split c (s @ [c]) = split c s @ [[]]"
proof (induction s)
  case (Cons x s)
  then show ?case by (cases "split c s") auto
qed simp

lemma ends_with_snoc: "ends_with (s @ [a]) [b] \<longleftrightarrow> a = b"
  by (auto simp: ends_with_iff)

lemma last_segment:
  "segs \<noteq> [] \<Longrightarrow> \<forall>x \<in> set segs. plain_segment x \<Longrightarrow>
   \<exists>r a. concat (map (\<lambda>x. CHR ''/'' # x) segs) = r @ [a] \<and> a \<noteq> CHR ''/''"
proof (induction segs rule: rev_induct)
  case (snoc x xs)
  then have "x \<noteq> []" "CHR ''/'' \<notin> set x" by (auto simp: plain_segment_def)
  then obtain y a where "x = y @ [a]" "a \<noteq> CHR ''/''" by (cases x rule: rev_cases) auto
  then show ?case by auto
qed simp

lemma normalise_normal_path:
  assumes "normal_path s" "CHR ''%'' \<notin> set s"
  shows "normalise_path s = s"
proof -
  obtain segs t where seg: "\<forall>x \<in> set segs. plain_segment x"
    and s: "s = (if segs = [] then ''/'' else concat (map (\<lambda>x. CHR ''/'' # x) segs) @ (if t then ''/'' else []))"
    using assms(1) by (auto simp: normal_path_def)
  have d: "percent_decode s = s" using assms(2) by (simp add: percent_decode_def)
  show ?thesis
  proof (cases "segs = []")
    case True
    then show ?thesis using s d by (simp add: normalise_path_def)
  next
    case False
    let ?c = "concat (map (\<lambda>x. CHR ''/'' # x) segs)"
    have "\<forall>x \<in> set segs. CHR ''/'' \<notin> set x" using seg by (auto simp: plain_segment_def)
    then have sp: "split (CHR ''/'') ?c = [] # segs" using False by (rule split_segments)
    obtain r a where ra: "?c = r @ [a]" "a \<noteq> CHR ''/''" using last_segment [OF False seg] by blast
    then have ne: "\<not> ends_with ?c ''/''" by (simp only: ends_with_snoc) simp
    have "split (CHR ''/'') s = [] # segs @ (if t then [[]] else [])"
      using s False sp by (simp add: split_snoc_sep)
    then have "foldl push_segment [] (split (CHR ''/'') s) = segs"
      using push_plain [OF seg, of "[]"] by simp
    moreover have "ends_with s ''/'' \<longleftrightarrow> t" using s False ne by (simp add: ends_with_snoc)
    ultimately show ?thesis using d s False by (simp add: normalise_path_def concat_segments_Nil)
  qed
qed

section \<open>Properties\<close>

text \<open>
  Cache paths are in normal form. Whatever a client sends, the path in the key starts with a slash
  and has no empty, dot or dot-dot segment, so it never walks above the root; a path that already
  is in that form and has no escapes is its own key.
\<close>

theorem key_path_normal:
  "normal_path (normalise_path p)
   \<and> (CHR ''%'' \<notin> set (normalise_path p) \<longrightarrow> normalise_path (normalise_path p) = normalise_path p)"
  using normalise_path_normal normalise_normal_path by blast

theorem key_path_normal_witness:
  "normalise_path ''/a/../b//./c%20d/'' = ''/b/c d/''
   \<and> normalise_path ''/b/c d/'' = ''/b/c d/''"
proof -
  have n: "normalise_path ''/a/../b//./c%20d/'' = ''/b/c d/''" by code_simp
  then show ?thesis using key_path_normal [of "''/a/../b//./c%20d/''"] by simp
qed

text \<open>
  Two cache keys share an object id only by a hash collision: for services whose names have no
  NUL byte the hashed bytes determine both the service and the key.
\<close>

theorem object_id_injective:
  assumes "object_id blake3 a = object_id blake3 b"
    and "CHR 0x00 \<notin> set (ck_service a)" "CHR 0x00 \<notin> set (ck_service b)"
  shows "a = b \<or> (\<exists>x y. x \<noteq> y \<and> take 16 (blake3 x) = take 16 (blake3 y))"
proof (cases "object_preimage a = object_preimage b")
  case True
  have z: "[0] = str_bytes [CHR 0x00]" by (simp add: str_bytes_def)
  from True have "ck_service a @ CHR 0x00 # ck_key a = ck_service b @ CHR 0x00 # ck_key b"
    unfolding object_preimage_def z str_bytes_append [symmetric] str_bytes_inject by simp
  with assms(2,3) have "ck_service a = ck_service b \<and> ck_key a = ck_key b"
    using split_once_append by (metis Pair_inject option.inject)
  then have "a = b" by (cases a; cases b) simp
  then show ?thesis ..
next
  case False
  then show ?thesis using assms(1) unfolding object_id_def by blast
qed

theorem object_id_injective_witness:
  "\<lparr>ck_key = ''c'', ck_service = ''ab''\<rparr> = \<lparr>ck_key = ''c'', ck_service = ''ab''\<rparr>
   \<or> (\<exists>x y :: bytes. x \<noteq> y \<and> take 16 (id x) = take 16 (id y))"
  by (rule object_id_injective) simp_all

text \<open>
  One stored copy for all hosts. Under the default rule the cache key depends on the service and
  the normalised path alone: neither the host nor the query string of the request enters it.
\<close>

theorem default_key_ignores_host_and_query:
  assumes "\<not> cr_include_host rule" "\<not> cr_keep_query rule"
    and "normalise_path (fst (split_target t1)) = normalise_path (fst (split_target t2))"
  shows "normalise service h1 t1 rule = normalise service h2 t2 rule
    \<and> ck_key (normalise service h1 t1 rule) = normalise_path (fst (split_target t1))"
  using assms by (auto simp: normalise_def split: prod.splits)

theorem default_key_ignores_host_and_query_witness:
  "normalise ''epic'' ''cdn1.epicgames.com'' ''/x?token=1'' CompiledRule_default
   = normalise ''epic'' ''cdn2.epicgames.com'' ''/x?token=2'' CompiledRule_default"
  using default_key_ignores_host_and_query [of CompiledRule_default "''/x?token=1''" "''/x?token=2''"]
  by (simp add: CompiledRule_default_def split_target_def)

text \<open>
  With the query kept, an escaped question mark in the path makes two different requests
  share a key.
\<close>

theorem escaped_query_collides:
  assumes "cr_keep_query rule" "\<not> cr_include_host rule"
  shows "''/a%3Fx=1'' \<noteq> ''/a?x=1''
    \<and> normalise service host ''/a%3Fx=1'' rule = normalise service host ''/a?x=1'' rule"
proof -
  have "normalise_path ''/a%3Fx=1'' = ''/a?x=1''" "normalise_path ''/a'' = ''/a''" by code_simp+
  with assms show ?thesis by (simp add: normalise_def split_target_def)
qed

theorem escaped_query_collides_witness:
  "normalise ''s'' ''h'' ''/a%3Fx=1'' (CompiledRule_default\<lparr>cr_keep_query := True\<rparr>)
   = normalise ''s'' ''h'' ''/a?x=1'' (CompiledRule_default\<lparr>cr_keep_query := True\<rparr>)"
  using escaped_query_collides [of "CompiledRule_default\<lparr>cr_keep_query := True\<rparr>" "''s''" "''h''"]
  by (simp add: CompiledRule_default_def)

end
