(* ===== verification/Rust_Net.thy ===== *)
theory Rust_Net
  imports Rust_Str
begin

text \<open>
  The parts of \<open>std::net\<close> the code uses: addresses, their classification predicates and the parser of
  \<open>IpAddr\<close>. The parser follows the library's: a decimal octet has one to three digits and no leading
  zero, a group of an IPv6 address one to four hexadecimal digits, \<open>::\<close> stands for at least one group, and
  the last two groups may be written as an IPv4 address.
\<close>

datatype Ipv4Addr = V4 u8 u8 u8 u8
datatype Ipv6Addr = V6 u16 u16 u16 u16 u16 u16 u16 u16
datatype IpAddr = IpV4 Ipv4Addr | IpV6 Ipv6Addr

record SocketAddr =
  sa_ip :: IpAddr
  sa_port :: u16

section \<open>Classification\<close>

definition v4_is_unspecified :: "Ipv4Addr \<Rightarrow> bool" where
  "v4_is_unspecified a = (a = V4 0 0 0 0)"

definition v4_is_loopback :: "Ipv4Addr \<Rightarrow> bool" where
  "v4_is_loopback a = (case a of V4 o0 _ _ _ \<Rightarrow> o0 = 127)"

definition v4_is_private :: "Ipv4Addr \<Rightarrow> bool" where
  "v4_is_private a =
    (case a of V4 o0 o1 _ _ \<Rightarrow>
      o0 = 10 \<or> (o0 = 172 \<and> 16 \<le> o1 \<and> o1 \<le> 31) \<or> (o0 = 192 \<and> o1 = 168))"

definition v4_is_link_local :: "Ipv4Addr \<Rightarrow> bool" where
  "v4_is_link_local a = (case a of V4 o0 o1 _ _ \<Rightarrow> o0 = 169 \<and> o1 = 254)"

definition v4_is_multicast :: "Ipv4Addr \<Rightarrow> bool" where
  "v4_is_multicast a = (case a of V4 o0 _ _ _ \<Rightarrow> 224 \<le> o0 \<and> o0 \<le> 239)"

definition v4_is_broadcast :: "Ipv4Addr \<Rightarrow> bool" where
  "v4_is_broadcast a = (a = V4 255 255 255 255)"

definition v6_is_unspecified :: "Ipv6Addr \<Rightarrow> bool" where
  "v6_is_unspecified a = (a = V6 0 0 0 0 0 0 0 0)"

definition v6_is_loopback :: "Ipv6Addr \<Rightarrow> bool" where
  "v6_is_loopback a = (a = V6 0 0 0 0 0 0 0 1)"

definition v6_is_multicast :: "Ipv6Addr \<Rightarrow> bool" where
  "v6_is_multicast a = (case a of V6 s0 _ _ _ _ _ _ _ \<Rightarrow> s0 AND 0xff00 = 0xff00)"

text \<open>The IPv4 address in two 16-bit segments.\<close>

definition v4_of_segments :: "u16 \<Rightarrow> u16 \<Rightarrow> Ipv4Addr" where
  "v4_of_segments a b = V4 (ucast (drop_bit 8 a)) (ucast a) (ucast (drop_bit 8 b)) (ucast b)"

definition to_ipv4_mapped :: "Ipv6Addr \<Rightarrow> Ipv4Addr option" where
  "to_ipv4_mapped a =
    (case a of V6 s0 s1 s2 s3 s4 s5 s6 s7 \<Rightarrow>
      if s0 = 0 \<and> s1 = 0 \<and> s2 = 0 \<and> s3 = 0 \<and> s4 = 0 \<and> s5 = 0xffff
      then Some (v4_of_segments s6 s7) else None)"

section \<open>Parsing\<close>

definition digit_value :: "nat \<Rightarrow> char \<Rightarrow> nat option" where
  "digit_value radix c =
    (let v = (if 48 \<le> code c \<and> code c \<le> 57 then Some (code c - 48)
              else if 97 \<le> code c \<and> code c \<le> 102 then Some (code c - 87)
              else if 65 \<le> code c \<and> code c \<le> 70 then Some (code c - 55)
              else None)
     in case v of Some n \<Rightarrow> if n < radix then Some n else None | None \<Rightarrow> None)"

text \<open>The run of digits at the front: their values and what follows.\<close>

primrec digit_run :: "nat \<Rightarrow> string \<Rightarrow> nat list \<times> string" where
  "digit_run radix [] = ([], [])"
| "digit_run radix (c # r) =
    (case digit_value radix c of
       Some d \<Rightarrow> (case digit_run radix r of (ds, rest) \<Rightarrow> (d # ds, rest))
     | None \<Rightarrow> ([], c # r))"

definition read_number :: "nat \<Rightarrow> nat \<Rightarrow> bool \<Rightarrow> nat \<Rightarrow> string \<Rightarrow> (nat \<times> string) option" where
  "read_number radix max_digits allow_zero_prefix limit s =
    (case digit_run radix s of (ds, rest) \<Rightarrow>
      let n = foldl (\<lambda>a d. radix * a + d) 0 ds in
      if ds = [] \<or> max_digits < length ds \<or> limit \<le> n
         \<or> (\<not> allow_zero_prefix \<and> hd ds = 0 \<and> 1 < length ds)
      then None else Some (n, rest))"

definition read_given_char :: "char \<Rightarrow> string \<Rightarrow> string option" where
  "read_given_char c s = (case s of [] \<Rightarrow> None | x # r \<Rightarrow> if x = c then Some r else None)"

definition read_separator :: "char \<Rightarrow> nat \<Rightarrow> (string \<Rightarrow> ('a \<times> string) option) \<Rightarrow> string \<Rightarrow> ('a \<times> string) option" where
  "read_separator sep index inner s =
    (if index = 0 then inner s
     else case read_given_char sep s of Some r \<Rightarrow> inner r | None \<Rightarrow> None)"

definition read_octet :: "string \<Rightarrow> (nat \<times> string) option" where
  "read_octet = read_number 10 3 False 256"

definition read_ipv4 :: "string \<Rightarrow> (Ipv4Addr \<times> string) option" where
  "read_ipv4 s =
    Option.bind (read_separator (CHR ''.'') 0 read_octet s) (\<lambda>(a, r).
    Option.bind (read_separator (CHR ''.'') 1 read_octet r) (\<lambda>(b, r).
    Option.bind (read_separator (CHR ''.'') 2 read_octet r) (\<lambda>(c, r).
    Option.bind (read_separator (CHR ''.'') 3 read_octet r) (\<lambda>(d, r).
      Some (V4 (of_nat a) (of_nat b) (of_nat c) (of_nat d), r)))))"

text \<open>Up to \<open>n\<close> more groups after the \<open>i\<close> already read; also whether an IPv4 address ended them.\<close>

primrec read_groups :: "nat \<Rightarrow> nat \<Rightarrow> string \<Rightarrow> u16 list \<times> bool \<times> string" where
  "read_groups 0 i s = ([], False, s)"
| "read_groups (Suc n) i s =
    (case (if 0 < n then read_separator (CHR '':'') i read_ipv4 s else None) of
       Some (V4 a b c d, r) \<Rightarrow> ([push_bit 8 (ucast a) OR ucast b, push_bit 8 (ucast c) OR ucast d], True, r)
     | None \<Rightarrow>
         (case read_separator (CHR '':'') i (read_number 16 4 True 65536) s of
            None \<Rightarrow> ([], False, s)
          | Some (g, r) \<Rightarrow> (case read_groups n (Suc i) r of (gs, v4, r') \<Rightarrow> (of_nat g # gs, v4, r'))))"

definition v6_of_list :: "u16 list \<Rightarrow> Ipv6Addr" where
  "v6_of_list gs = V6 (gs ! 0) (gs ! 1) (gs ! 2) (gs ! 3) (gs ! 4) (gs ! 5) (gs ! 6) (gs ! 7)"

definition read_ipv6 :: "string \<Rightarrow> (Ipv6Addr \<times> string) option" where
  "read_ipv6 s =
    (case read_groups 8 0 s of (head, head_v4, r) \<Rightarrow>
      if length head = 8 then Some (v6_of_list head, r)
      else if head_v4 then None
      else
        Option.bind (read_given_char (CHR '':'') r) (\<lambda>r.
        Option.bind (read_given_char (CHR '':'') r) (\<lambda>r.
          case read_groups (8 - (length head + 1)) 0 r of (tail, _, r) \<Rightarrow>
            Some (v6_of_list (head @ replicate (8 - length head - length tail) 0 @ tail), r))))"

definition parse_ip :: "string \<Rightarrow> IpAddr option" where
  "parse_ip s =
    (case (case read_ipv4 s of
             Some (a, r) \<Rightarrow> Some (IpV4 a, r)
           | None \<Rightarrow> map_option (\<lambda>(a, r). (IpV6 a, r)) (read_ipv6 s)) of
       Some (a, []) \<Rightarrow> Some a
     | _ \<Rightarrow> None)"

text \<open>A name that starts with neither a hexadecimal digit nor a colon is not an address.\<close>

lemma not_an_ip:
  assumes "digit_value 16 c = None" "c \<noteq> CHR '':''"
  shows "parse_ip (c # s) = None"
proof -
  have d: "digit_value 10 c = None"
    using assms(1) by (auto simp: digit_value_def Let_def split: if_splits option.splits)
  have n: "read_number 10 m z l (c # s) = None" "read_number 16 m z l (c # s) = None" for m z l
    using assms(1) d by (simp_all add: read_number_def)
  then have v4: "read_ipv4 (c # s) = None"
    by (simp add: read_ipv4_def read_separator_def read_octet_def)
  then have "read_groups k 0 (c # s) = ([], False, c # s)" for k
    using n by (cases k) (simp_all add: read_separator_def)
  with v4 show ?thesis
    using assms(2) by (simp add: parse_ip_def read_ipv6_def read_given_char_def)
qed

end
