(* ===== verification/Upstream_Guard.thy ===== *)
theory Upstream_Guard
  imports Rust_Net
begin

text \<open>
  \<open>upstream/guard.rs\<close>: which resolved addresses may be fetched from. The main lemma says that the
  IPv4 check is membership in a list of address blocks; the IPv6 check judges every form that embeds
  an IPv4 address by the same list.
\<close>

datatype Refusal = Loopback | Private | LinkLocal | Unspecified | MulticastOrBroadcast | Reserved

definition Refusal_ALL :: "string list" where
  "Refusal_ALL =
    [''loopback'', ''private'', ''link_local'', ''unspecified'', ''multicast_or_broadcast'', ''reserved'']"

definition Refusal_reason :: "Refusal \<Rightarrow> string" where
  "Refusal_reason r =
    (case r of Loopback \<Rightarrow> ''loopback'' | Private \<Rightarrow> ''private'' | LinkLocal \<Rightarrow> ''link_local''
     | Unspecified \<Rightarrow> ''unspecified'' | MulticastOrBroadcast \<Rightarrow> ''multicast_or_broadcast''
     | Reserved \<Rightarrow> ''reserved'')"

definition check_v4 :: "Ipv4Addr \<Rightarrow> Refusal + unit" where
  "check_v4 a =
    (if v4_is_unspecified a then Err Unspecified
     else if v4_is_loopback a then Err Loopback
     else if v4_is_private a then Err Private
     else if v4_is_link_local a then Err LinkLocal
     else if v4_is_multicast a \<or> v4_is_broadcast a then Err MulticastOrBroadcast
     else (case a of V4 o0 o1 o2 _ \<Rightarrow>
       if o0 = 100 \<and> 64 \<le> o1 \<and> o1 < 128 then Err Reserved
       else if o0 = 0 \<or> 240 \<le> o0 then Err Reserved
       else if list_ex (\<lambda>(p0, p1, p2). o0 = p0 \<and> o1 = p1 \<and> o2 = p2)
                 [(192, 0, 0), (192, 0, 2), (198, 51, 100), (203, 0, 113)] then Err Reserved
       else if o0 = 198 \<and> 18 \<le> o1 \<and> o1 < 20 then Err Reserved
       else Ok ()))"

definition embedded_v4 :: "Ipv6Addr \<Rightarrow> Ipv4Addr option" where
  "embedded_v4 a =
    (case a of V6 s0 s1 s2 s3 s4 s5 s6 s7 \<Rightarrow>
      if s0 = 0 \<and> s1 = 0 \<and> s2 = 0 \<and> s3 = 0 \<and> s4 = 0 \<and> s5 = 0 then Some (v4_of_segments s6 s7)
      else if s0 = 0x0064 \<and> s1 = 0xff9b then Some (v4_of_segments s6 s7)
      else if s0 = 0x2002 then Some (v4_of_segments s1 s2)
      else None)"

definition check_v6 :: "Ipv6Addr \<Rightarrow> Refusal + unit" where
  "check_v6 a =
    (if v6_is_unspecified a then Err Unspecified
     else if v6_is_loopback a then Err Loopback
     else if v6_is_multicast a then Err MulticastOrBroadcast
     else (case to_ipv4_mapped a of
       Some v4 \<Rightarrow> check_v4 v4
     | None \<Rightarrow>
         (case embedded_v4 a of
            Some v4 \<Rightarrow> check_v4 v4
          | None \<Rightarrow>
              (case a of V6 s0 s1 _ _ _ _ _ _ \<Rightarrow>
                if s0 = 0x2001 \<and> s1 = 0x0000 then Err Reserved
                else if s0 AND 0xfe00 = 0xfc00 then Err Private
                else if s0 AND 0xffc0 = 0xfe80 then Err LinkLocal
                else if s0 = 0x2001 \<and> s1 = 0x0db8 then Err Reserved
                else Ok ()))))"

definition check_addr :: "IpAddr \<Rightarrow> bool \<Rightarrow> Refusal + unit" where
  "check_addr addr allow_private =
    (if allow_private then Ok ()
     else case addr of IpV4 v4 \<Rightarrow> check_v4 v4 | IpV6 v6 \<Rightarrow> check_v6 v6)"

section \<open>Address blocks\<close>

definition v4_number :: "Ipv4Addr \<Rightarrow> nat" where
  "v4_number a =
    (case a of V4 o0 o1 o2 o3 \<Rightarrow> ((unat o0 * 256 + unat o1) * 256 + unat o2) * 256 + unat o3)"

text \<open>\<open>in_block base n a\<close>: the first \<open>n\<close> bits of the address are those of the base.\<close>

definition in_block :: "Ipv4Addr \<Rightarrow> nat \<Rightarrow> Ipv4Addr \<Rightarrow> bool" where
  "in_block base n a \<longleftrightarrow> v4_number a div 2 ^ (32 - n) = v4_number base div 2 ^ (32 - n)"

definition refused_blocks :: "(Ipv4Addr \<times> nat) list" where
  "refused_blocks =
    [(V4 0 0 0 0, 8), (V4 10 0 0 0, 8), (V4 100 64 0 0, 10), (V4 127 0 0 0, 8), (V4 169 254 0 0, 16),
     (V4 172 16 0 0, 12), (V4 192 0 0 0, 24), (V4 192 0 2 0, 24), (V4 192 168 0 0, 16),
     (V4 198 18 0 0, 15), (V4 198 51 100 0, 24), (V4 203 0 113 0, 24), (V4 224 0 0 0, 4),
     (V4 240 0 0 0, 4)]"

lemma unat_u8: "unat (x :: u8) < 256"
  using unsigned_less [of x, where ?'a = nat] by simp

lemma v4_number_div:
  "v4_number (V4 o0 o1 o2 o3) div 2 ^ 28 = unat o0 div 16"
  "v4_number (V4 o0 o1 o2 o3) div 2 ^ 24 = unat o0"
  "v4_number (V4 o0 o1 o2 o3) div 2 ^ 22 = unat o0 * 4 + unat o1 div 64"
  "v4_number (V4 o0 o1 o2 o3) div 2 ^ 20 = unat o0 * 16 + unat o1 div 16"
  "v4_number (V4 o0 o1 o2 o3) div 2 ^ 17 = unat o0 * 128 + unat o1 div 2"
  "v4_number (V4 o0 o1 o2 o3) div 2 ^ 16 = unat o0 * 256 + unat o1"
  "v4_number (V4 o0 o1 o2 o3) div 2 ^ 8 = (unat o0 * 256 + unat o1) * 256 + unat o2"
  using unat_u8 [of o0] unat_u8 [of o1] unat_u8 [of o2] unat_u8 [of o3]
  by (simp_all add: v4_number_def)

text \<open>The conditions of \<open>check_v4\<close> on the values of the octets.\<close>

definition refused_octets :: "nat \<Rightarrow> nat \<Rightarrow> nat \<Rightarrow> bool" where
  "refused_octets a b c \<longleftrightarrow>
     a = 0 \<or> a = 10 \<or> (a = 100 \<and> b div 64 = 1) \<or> a = 127 \<or> (a = 169 \<and> b = 254)
     \<or> (a = 172 \<and> b div 16 = 1) \<or> (a = 192 \<and> b = 0 \<and> c = 0) \<or> (a = 192 \<and> b = 0 \<and> c = 2)
     \<or> (a = 192 \<and> b = 168) \<or> (a = 198 \<and> b div 2 = 9) \<or> (a = 198 \<and> b = 51 \<and> c = 100)
     \<or> (a = 203 \<and> b = 0 \<and> c = 113) \<or> a div 16 = 14 \<or> a div 16 = 15"

lemma base_digits:
  assumes "y < B" "q < B"
  shows "x * B + y = p * B + q \<longleftrightarrow> x = p \<and> y = (q :: nat)"
proof
  assume e: "x * B + y = p * B + q"
  have "x = (x * B + y) div B" "p = (p * B + q) div B" using assms by simp_all
  with e show "x = p \<and> y = q" by simp
qed simp

lemma in_block_cases:
  "in_block (V4 p 0 0 0) 4 (V4 o0 o1 o2 o3) \<longleftrightarrow> unat o0 div 16 = unat p div 16"
  "in_block (V4 p 0 0 0) 8 (V4 o0 o1 o2 o3) \<longleftrightarrow> unat o0 = unat p"
  "in_block (V4 p q 0 0) 10 (V4 o0 o1 o2 o3) \<longleftrightarrow> unat o0 = unat p \<and> unat o1 div 64 = unat q div 64"
  "in_block (V4 p q 0 0) 12 (V4 o0 o1 o2 o3) \<longleftrightarrow> unat o0 = unat p \<and> unat o1 div 16 = unat q div 16"
  "in_block (V4 p q 0 0) 15 (V4 o0 o1 o2 o3) \<longleftrightarrow> unat o0 = unat p \<and> unat o1 div 2 = unat q div 2"
  "in_block (V4 p q 0 0) 16 (V4 o0 o1 o2 o3) \<longleftrightarrow> unat o0 = unat p \<and> unat o1 = unat q"
  "in_block (V4 p q r 0) 24 (V4 o0 o1 o2 o3) \<longleftrightarrow> unat o0 = unat p \<and> unat o1 = unat q \<and> unat o2 = unat r"
proof -
  have small: "unat x div 64 < 4" "unat x div 16 < 16" "unat x div 2 < 128" "unat x < 256" for x :: u8
    using unat_u8 [of x] by auto
  have sh: "32 - 4 = (28 :: nat)" "32 - 8 = (24 :: nat)" "32 - 10 = (22 :: nat)" "32 - 12 = (20 :: nat)"
    "32 - 15 = (17 :: nat)" "32 - 16 = (16 :: nat)" "32 - 24 = (8 :: nat)" by simp_all
  show "in_block (V4 p 0 0 0) 4 (V4 o0 o1 o2 o3) \<longleftrightarrow> unat o0 div 16 = unat p div 16"
    "in_block (V4 p 0 0 0) 8 (V4 o0 o1 o2 o3) \<longleftrightarrow> unat o0 = unat p"
    "in_block (V4 p q 0 0) 10 (V4 o0 o1 o2 o3) \<longleftrightarrow> unat o0 = unat p \<and> unat o1 div 64 = unat q div 64"
    "in_block (V4 p q 0 0) 12 (V4 o0 o1 o2 o3) \<longleftrightarrow> unat o0 = unat p \<and> unat o1 div 16 = unat q div 16"
    "in_block (V4 p q 0 0) 15 (V4 o0 o1 o2 o3) \<longleftrightarrow> unat o0 = unat p \<and> unat o1 div 2 = unat q div 2"
    "in_block (V4 p q 0 0) 16 (V4 o0 o1 o2 o3) \<longleftrightarrow> unat o0 = unat p \<and> unat o1 = unat q"
    "in_block (V4 p q r 0) 24 (V4 o0 o1 o2 o3) \<longleftrightarrow> unat o0 = unat p \<and> unat o1 = unat q \<and> unat o2 = unat r"
    unfolding in_block_def
    by (simp_all only: sh v4_number_div base_digits [OF small(1) small(1)]
        base_digits [OF small(2) small(2)] base_digits [OF small(3) small(3)]
        base_digits [OF small(4) small(4)] conj_assoc)
qed

lemma in_refused_block:
  "list_ex (\<lambda>(base, n). in_block base n (V4 o0 o1 o2 o3)) refused_blocks
     \<longleftrightarrow> refused_octets (unat o0) (unat o1) (unat o2)"
  by (simp add: refused_blocks_def in_block_cases refused_octets_def)

lemma octet_ranges:
  fixes b :: nat
  shows "b div 64 = 1 \<longleftrightarrow> 64 \<le> b \<and> b < 128" "b div 16 = 1 \<longleftrightarrow> 16 \<le> b \<and> b \<le> 31"
    "b div 2 = 9 \<longleftrightarrow> 18 \<le> b \<and> b < 20" "b div 16 = 14 \<longleftrightarrow> 224 \<le> b \<and> b \<le> 239"
    "b < 256 \<Longrightarrow> b div 16 = 15 \<longleftrightarrow> 240 \<le> b"
  by linarith+

lemma check_v4_octets:
  "check_v4 (V4 o0 o1 o2 o3) = Ok () \<longleftrightarrow> \<not> refused_octets (unat o0) (unat o1) (unat o2)"
proof -
  have refused: "refused_octets (unat o0) (unat o1) (unat o2) \<longleftrightarrow>
      o0 = 0 \<or> o0 = 10 \<or> (o0 = 100 \<and> 64 \<le> o1 \<and> o1 < 128) \<or> o0 = 127 \<or> (o0 = 169 \<and> o1 = 254)
      \<or> (o0 = 172 \<and> 16 \<le> o1 \<and> o1 \<le> 31) \<or> (o0 = 192 \<and> o1 = 0 \<and> o2 = 0) \<or> (o0 = 192 \<and> o1 = 0 \<and> o2 = 2)
      \<or> (o0 = 192 \<and> o1 = 168) \<or> (o0 = 198 \<and> 18 \<le> o1 \<and> o1 < 20) \<or> (o0 = 198 \<and> o1 = 51 \<and> o2 = 100)
      \<or> (o0 = 203 \<and> o1 = 0 \<and> o2 = 113) \<or> (224 \<le> o0 \<and> o0 \<le> 239) \<or> 240 \<le> o0"
    unfolding refused_octets_def octet_ranges(1-4) octet_ranges(5) [OF unat_u8]
    by (simp add: word_unat_eq_iff word_le_nat_alt word_less_nat_alt)
  show ?thesis
    unfolding refused
    by (simp add: check_v4_def v4_is_unspecified_def v4_is_loopback_def v4_is_private_def v4_is_link_local_def
        v4_is_multicast_def v4_is_broadcast_def)
qed

section \<open>Properties\<close>

lemma check_v4_blocks:
  "check_v4 a = Ok () \<longleftrightarrow> \<not> list_ex (\<lambda>(base, n). in_block base n a) refused_blocks"
  by (cases a) (simp only: in_refused_block check_v4_octets)



text \<open>
  No IPv6 spelling smuggles a refused IPv4 address. An IPv6 address that passes the guard is not
  loopback, unspecified, multicast, unique local, link local, documentation or Teredo, and every IPv4
  address it carries, mapped, compatible, NAT64 or 6to4, passes the IPv4 block list itself.
\<close>

theorem no_embedded_bypass:
  assumes "check_addr (IpV6 (V6 s0 s1 s2 s3 s4 s5 s6 s7)) False = Ok ()"
  shows "(\<forall>v4 \<in> set_option (to_ipv4_mapped (V6 s0 s1 s2 s3 s4 s5 s6 s7))
             \<union> set_option (embedded_v4 (V6 s0 s1 s2 s3 s4 s5 s6 s7)).
           \<forall>(base, n) \<in> set refused_blocks. \<not> in_block base n v4)
    \<and> V6 s0 s1 s2 s3 s4 s5 s6 s7 \<notin> {V6 0 0 0 0 0 0 0 0, V6 0 0 0 0 0 0 0 1}
    \<and> s0 AND 0xff00 \<noteq> 0xff00 \<and> s0 AND 0xfe00 \<noteq> 0xfc00 \<and> s0 AND 0xffc0 \<noteq> 0xfe80
    \<and> (s0, s1) \<notin> {(0x2001, 0x0000), (0x2001, 0x0db8)}"
proof -
  let ?a = "V6 s0 s1 s2 s3 s4 s5 s6 s7"
  have "check_v6 ?a = Ok ()" using assms by (simp add: check_addr_def)
  then have c: "\<not> v6_is_unspecified ?a" "\<not> v6_is_loopback ?a" "\<not> v6_is_multicast ?a"
      "(case to_ipv4_mapped ?a of Some v4 \<Rightarrow> check_v4 v4 = Ok () | None \<Rightarrow>
         (case embedded_v4 ?a of Some v4 \<Rightarrow> check_v4 v4 = Ok () | None \<Rightarrow>
            (s0, s1) \<notin> {(0x2001, 0x0000), (0x2001, 0x0db8)} \<and> s0 AND 0xfe00 \<noteq> 0xfc00 \<and> s0 AND 0xffc0 \<noteq> 0xfe80))"
    by (auto simp: check_v6_def split: if_splits option.splits)
  have m: "to_ipv4_mapped ?a \<noteq> None \<Longrightarrow> s0 = 0 \<and> embedded_v4 ?a = None"
    by (auto simp: to_ipv4_mapped_def embedded_v4_def split: if_splits)
  have e: "embedded_v4 ?a \<noteq> None \<Longrightarrow> s0 \<in> {0, 0x64, 0x2002}"
    by (auto simp: embedded_v4_def split: if_splits)
  have "(\<forall>v4 \<in> set_option (to_ipv4_mapped ?a) \<union> set_option (embedded_v4 ?a). check_v4 v4 = Ok ())"
    using c(4) m by (auto split: option.splits)
  moreover have "s0 AND 0xfe00 \<noteq> 0xfc00 \<and> s0 AND 0xffc0 \<noteq> 0xfe80 \<and> (s0, s1) \<notin> {(0x2001, 0x0000), (0x2001, 0x0db8)}"
    using c(4) m e by (auto split: option.splits)
  moreover have "s0 AND 0xff00 \<noteq> 0xff00" using c(3) by (simp add: v6_is_multicast_def)
  moreover have "?a \<notin> {V6 0 0 0 0 0 0 0 0, V6 0 0 0 0 0 0 0 1}"
    using c(1,2) by (simp add: v6_is_unspecified_def v6_is_loopback_def)
  ultimately show ?thesis by (simp add: check_v4_blocks list_ex_iff case_prod_beta)
qed

theorem no_embedded_bypass_witness:
  "check_addr (IpV6 (V6 0x2a00 0x1450 0 0 0 0 0 0x200e)) False = Ok ()
   \<and> (0x2a00 :: u16) AND 0xfe00 \<noteq> 0xfc00
   \<and> check_addr (IpV6 (V6 0 0 0 0 0 0xffff 0xc0a8 0x0101)) False = Err Private"
proof -
  have ok: "check_addr (IpV6 (V6 0x2a00 0x1450 0 0 0 0 0 0x200e)) False = Ok ()"
    by (simp add: check_addr_def check_v6_def v6_is_unspecified_def v6_is_loopback_def v6_is_multicast_def
        to_ipv4_mapped_def embedded_v4_def)
  have "check_addr (IpV6 (V6 0 0 0 0 0 0xffff 0xc0a8 0x0101)) False = Err Private"
    by (simp add: check_addr_def check_v6_def v6_is_unspecified_def v6_is_loopback_def v6_is_multicast_def
        to_ipv4_mapped_def v4_of_segments_def check_v4_def v4_is_unspecified_def v4_is_loopback_def v4_is_private_def)
  with ok no_embedded_bypass [OF ok] show ?thesis by blast
qed

end
