(* ===== verification/Upstream_Resolver.thy ===== *)
theory Upstream_Resolver
  imports Upstream_Guard
begin

text \<open>
  \<open>upstream/resolver.rs\<close>: the resolver of upstream hosts. The DNS client hickory is a parameter:
  a function that builds a lookup from a configuration, which is modelled in full, since which servers
  it names and that it never reads the hosts file is the point of the module. A resolver carries its
  lookup and, when metrics are attached, the refusal counters by label.
\<close>

definition DNS_PORT :: u16 where "DNS_PORT = 53"

datatype Protocol = Udp | Tcp
datatype ResolveHosts = Always | Auto | Never

record NameServerConfig =
  ns_ip :: IpAddr
  ns_trust_negative :: bool
  ns_connections :: "(Protocol \<times> u16) list"

record ResolverConfig =
  rc_name_servers :: "NameServerConfig list"
  rc_use_hosts_file :: ResolveHosts

type_synonym lookup = "string \<Rightarrow> string + IpAddr list"

record UpstreamResolver =
  ur_inner :: lookup
  ur_allow_private :: bool
  ur_metrics :: "(string \<Rightarrow> u64) option"

datatype ResolveError =
    NoResolvers
  | Build string
  | Lookup string string
  | NoAddresses string
  | Refused string Refusal

definition resolver_config :: "SocketAddr list \<Rightarrow> ResolverConfig" where
  "resolver_config servers =
    \<lparr>rc_name_servers =
       map (\<lambda>server. \<lparr>ns_ip = sa_ip server, ns_trust_negative = True,
              ns_connections = map (\<lambda>protocol. (protocol, sa_port server)) [Udp, Tcp]\<rparr>) servers,
     rc_use_hosts_file = Never\<rparr>"

definition with_servers ::
  "(ResolverConfig \<Rightarrow> string + lookup) \<Rightarrow> SocketAddr list \<Rightarrow> bool \<Rightarrow> ResolveError + UpstreamResolver" where
  "with_servers build servers allow_private =
    (if servers = [] then Err NoResolvers
     else rbind (map_err Build (build (resolver_config servers))) (\<lambda>inner.
       Ok \<lparr>ur_inner = inner, ur_allow_private = allow_private, ur_metrics = None\<rparr>))"

definition UpstreamResolver_new ::
  "(ResolverConfig \<Rightarrow> string + lookup) \<Rightarrow> IpAddr list \<Rightarrow> bool \<Rightarrow> ResolveError + UpstreamResolver" where
  "UpstreamResolver_new build servers allow_private =
    with_servers build (map (\<lambda>ip. \<lparr>sa_ip = ip, sa_port = DNS_PORT\<rparr>) servers) allow_private"

definition with_metrics :: "UpstreamResolver \<Rightarrow> UpstreamResolver" where
  "with_metrics r = r\<lparr>ur_metrics := Some (\<lambda>_. 0)\<rparr>"

definition count_refusal :: "UpstreamResolver \<Rightarrow> Refusal \<Rightarrow> UpstreamResolver" where
  "count_refusal r refusal =
    r\<lparr>ur_metrics := map_option (\<lambda>m. m(Refusal_reason refusal := m (Refusal_reason refusal) + 1)) (ur_metrics r)\<rparr>"

text \<open>The loop over the answers: the allowed addresses and the first refusal.\<close>

primrec sift :: "bool \<Rightarrow> u16 \<Rightarrow> IpAddr list \<Rightarrow> SocketAddr list \<Rightarrow> Refusal option \<Rightarrow> SocketAddr list \<times> Refusal option" where
  "sift allow port [] allowed first_refusal = (allowed, first_refusal)"
| "sift allow port (ip # ips) allowed first_refusal =
    (case check_addr ip allow of
       Inr _ \<Rightarrow> sift allow port ips (allowed @ [\<lparr>sa_ip = ip, sa_port = port\<rparr>]) first_refusal
     | Inl refusal \<Rightarrow>
         sift allow port ips allowed (case first_refusal of None \<Rightarrow> Some refusal | Some f \<Rightarrow> Some f))"

definition resolve_host ::
  "UpstreamResolver \<Rightarrow> string \<Rightarrow> u16 \<Rightarrow> UpstreamResolver \<times> (ResolveError + SocketAddr list)" where
  "resolve_host r host port =
    (case parse_ip host of
       Some ip \<Rightarrow>
         (case check_addr ip (ur_allow_private r) of
            Inr _ \<Rightarrow> (r, Ok [\<lparr>sa_ip = ip, sa_port = port\<rparr>])
          | Inl refusal \<Rightarrow> (count_refusal r refusal, Err (Refused host refusal)))
     | None \<Rightarrow>
         (case ur_inner r host of
            Inl e \<Rightarrow> (r, Err (Lookup host e))
          | Inr ips \<Rightarrow>
              (case sift (ur_allow_private r) port ips [] None of (allowed, first_refusal) \<Rightarrow>
                if ips = [] then (r, Err (NoAddresses host))
                else if allowed = [] then
                  let refusal = (case first_refusal of Some f \<Rightarrow> f | None \<Rightarrow> Private)
                  in (count_refusal r refusal, Err (Refused host refusal))
                else (r, Ok allowed))))"

text \<open>The adapter that makes the HTTP client dial through the resolver.\<close>

definition GuardedResolver_resolve ::
  "UpstreamResolver \<Rightarrow> string \<Rightarrow> UpstreamResolver \<times> (ResolveError + SocketAddr list)" where
  "GuardedResolver_resolve r name = resolve_host r name 0"

section \<open>Properties\<close>

definition passes :: "bool \<Rightarrow> IpAddr \<Rightarrow> bool" where
  "passes allow ip \<longleftrightarrow> check_addr ip allow = Ok ()"

lemma sift_filter:
  "fst (sift allow port ips acc f) = acc @ map (\<lambda>ip. \<lparr>sa_ip = ip, sa_port = port\<rparr>) (filter (passes allow) ips)"
  by (induction ips arbitrary: acc f) (auto simp: passes_def split: sum.splits)

text \<open>What the name gives before the guard: itself when it is an address, else the lookup's answer.\<close>

definition answers :: "UpstreamResolver \<Rightarrow> string \<Rightarrow> string + IpAddr list" where
  "answers r host = (case parse_ip host of Some ip \<Rightarrow> Ok [ip] | None \<Rightarrow> ur_inner r host)"

lemma resolve_host_answers:
  assumes "answers r host = Ok ips"
  shows "(\<exists>addrs. snd (resolve_host r host port) = Ok addrs
            \<and> addrs = map (\<lambda>ip. \<lparr>sa_ip = ip, sa_port = port\<rparr>) (filter (passes (ur_allow_private r)) ips)
            \<and> addrs \<noteq> [])
    \<or> (filter (passes (ur_allow_private r)) ips = [] \<and> (\<exists>e. snd (resolve_host r host port) = Err e))"
proof (cases "parse_ip host")
  case (Some ip)
  with assms show ?thesis
    by (auto simp: answers_def resolve_host_def passes_def split: sum.splits)
next
  case None
  have "fst (sift (ur_allow_private r) port ips [] None)
      = map (\<lambda>ip. \<lparr>sa_ip = ip, sa_port = port\<rparr>) (filter (passes (ur_allow_private r)) ips)"
    by (simp add: sift_filter)
  with None assms show ?thesis
    by (cases "sift (ur_allow_private r) port ips [] None")
      (auto simp: answers_def resolve_host_def Let_def)
qed

lemma resolve_host_guarded:
  assumes "snd (resolve_host r host port) = Ok addrs"
  shows "\<forall>a \<in> set addrs. passes (ur_allow_private r) (sa_ip a) \<and> sa_port a = port"
proof -
  obtain ips where ips: "answers r host = Ok ips"
    using assms by (auto simp: answers_def resolve_host_def split: option.splits sum.splits)
  with resolve_host_answers [OF ips, of port] assms show ?thesis by auto
qed

text \<open>
  C28: the cache dials only guarded addresses. Whatever a name resolves to, every address returned passed
  the guard, carries the requested port, and comes from the literal address or the answer of the
  configured servers, in order and none dropped that passes; when none passes the result is an error,
  never an empty list.
\<close>

theorem only_guarded_addresses:
  "(\<forall>addrs. snd (resolve_host r host port) = Ok addrs \<longrightarrow>
      addrs \<noteq> []
      \<and> (\<exists>ips. answers r host = Ok ips
           \<and> addrs = map (\<lambda>ip. \<lparr>sa_ip = ip, sa_port = port\<rparr>) (filter (passes (ur_allow_private r)) ips)))
   \<and> (\<forall>ips ip. answers r host = Ok ips \<longrightarrow> ip \<in> set ips \<longrightarrow> passes (ur_allow_private r) ip \<longrightarrow>
        (\<exists>addrs. snd (resolve_host r host port) = Ok addrs))"
proof (intro conjI allI impI)
  fix addrs assume ok: "snd (resolve_host r host port) = Ok addrs"
  obtain ips where ips: "answers r host = Ok ips"
    using ok by (auto simp: answers_def resolve_host_def split: option.splits sum.splits)
  with resolve_host_answers [OF ips, of port] ok
  show "addrs \<noteq> []" "\<exists>ips. answers r host = Ok ips
      \<and> addrs = map (\<lambda>ip. \<lparr>sa_ip = ip, sa_port = port\<rparr>) (filter (passes (ur_allow_private r)) ips)" by auto
next
  fix ips ip assume "answers r host = Ok ips" "ip \<in> set ips" "passes (ur_allow_private r) ip"
  with resolve_host_answers [of r host ips port]
  show "\<exists>addrs. snd (resolve_host r host port) = Ok addrs" by (auto simp: filter_empty_conv)
qed

definition sample_resolver :: UpstreamResolver where
  "sample_resolver =
    \<lparr>ur_inner = (\<lambda>_. Ok [IpV4 (V4 192 168 1 1), IpV4 (V4 8 8 8 8)]), ur_allow_private = False, ur_metrics = None\<rparr>"

lemma sample_resolution_of:
  assumes "digit_value 16 c = None" "c \<noteq> CHR '':''"
  shows "resolve_host sample_resolver (c # name) port = (sample_resolver, Ok [\<lparr>sa_ip = IpV4 (V4 8 8 8 8), sa_port = port\<rparr>])"
proof -
  have "parse_ip (c # name) = None" by (rule not_an_ip [OF assms])
  moreover have "check_addr (IpV4 (V4 8 8 8 8)) False = Ok ()" "check_v4 (V4 192 168 1 1) = Err Private"
    by (simp_all add: check_addr_def check_v4_octets refused_octets_def)
      (simp add: check_v4_def v4_is_unspecified_def v4_is_loopback_def v4_is_private_def)
  ultimately show ?thesis by (simp add: resolve_host_def sample_resolver_def check_addr_def)
qed

lemma sample_resolution:
  "resolve_host sample_resolver ''steam.com'' port = (sample_resolver, Ok [\<lparr>sa_ip = IpV4 (V4 8 8 8 8), sa_port = port\<rparr>])"
  by (rule sample_resolution_of) (simp_all add: digit_value_def)

theorem only_guarded_addresses_witness:
  "\<exists>addrs. snd (resolve_host sample_resolver ''steam.com'' 80) = Ok addrs
     \<and> addrs = [\<lparr>sa_ip = IpV4 (V4 8 8 8 8), sa_port = 80\<rparr>]"
proof -
  have p: "parse_ip ''steam.com'' = None"
    by (rule not_an_ip) (simp_all add: digit_value_def)
  have g: "passes False (IpV4 (V4 8 8 8 8))" "\<not> passes False (IpV4 (V4 192 168 1 1))"
    by (simp_all add: passes_def check_addr_def check_v4_octets refused_octets_def)
  have a: "answers sample_resolver ''steam.com'' = Ok [IpV4 (V4 192 168 1 1), IpV4 (V4 8 8 8 8)]"
    using p by (simp add: answers_def sample_resolver_def)
  have "\<exists>addrs. snd (resolve_host sample_resolver ''steam.com'' 80) = Ok addrs"
    using only_guarded_addresses [of sample_resolver "''steam.com''" 80] a g(1)
    by (auto simp: sample_resolver_def)
  then obtain addrs where addrs: "snd (resolve_host sample_resolver ''steam.com'' 80) = Ok addrs" ..
  with only_guarded_addresses [of sample_resolver "''steam.com''" 80] a g
  have "addrs = [\<lparr>sa_ip = IpV4 (V4 8 8 8 8), sa_port = 80\<rparr>]" by (auto simp: sample_resolver_def)
  with addrs show ?thesis by blast
qed

text \<open>
  Upstream names are resolved through the configured servers and nothing else: the configuration
  handed to the DNS client names exactly those servers, over UDP and TCP on the given port, and
  never consults the hosts file; with no server there is no resolver.
\<close>

theorem only_configured_servers:
  "(UpstreamResolver_new build servers allow = Ok r \<longrightarrow>
      servers \<noteq> []
      \<and> (\<exists>cfg. build cfg = Ok (ur_inner r) \<and> rc_use_hosts_file cfg = Never
           \<and> map ns_ip (rc_name_servers cfg) = servers
           \<and> (\<forall>ns \<in> set (rc_name_servers cfg). ns_connections ns = [(Udp, 53), (Tcp, 53)])))
   \<and> UpstreamResolver_new build [] allow = Err NoResolvers"
proof (intro conjI impI)
  assume ok: "UpstreamResolver_new build servers allow = Ok r"
  let ?cfg = "resolver_config (map (\<lambda>ip. \<lparr>sa_ip = ip, sa_port = DNS_PORT\<rparr>) servers)"
  show "servers \<noteq> []" using ok by (auto simp: UpstreamResolver_new_def with_servers_def)
  have "build ?cfg = Ok (ur_inner r)"
    using ok by (auto simp: UpstreamResolver_new_def with_servers_def rbind_Ok map_err_def split: sum.splits if_splits)
  then show "\<exists>cfg. build cfg = Ok (ur_inner r) \<and> rc_use_hosts_file cfg = Never
      \<and> map ns_ip (rc_name_servers cfg) = servers
      \<and> (\<forall>ns \<in> set (rc_name_servers cfg). ns_connections ns = [(Udp, 53), (Tcp, 53)])"
    by (intro exI [of _ ?cfg]) (auto simp: resolver_config_def comp_def DNS_PORT_def)
qed (simp add: UpstreamResolver_new_def with_servers_def)

theorem only_configured_servers_witness:
  "\<exists>r. UpstreamResolver_new (\<lambda>cfg. Ok (\<lambda>_. Ok (map ns_ip (rc_name_servers cfg)))) [IpV4 (V4 1 1 1 1)] False = Ok r
     \<and> [IpV4 (V4 1 1 1 1)] \<noteq> []"
proof -
  obtain r where r: "UpstreamResolver_new (\<lambda>cfg. Ok (\<lambda>_. Ok (map ns_ip (rc_name_servers cfg)))) [IpV4 (V4 1 1 1 1)] False = Ok r"
    by (simp add: UpstreamResolver_new_def with_servers_def)
  with only_configured_servers [of "\<lambda>cfg. Ok (\<lambda>_. Ok (map ns_ip (rc_name_servers cfg)))" "[IpV4 (V4 1 1 1 1)]" False r]
  show ?thesis by blast
qed

end
