(* ===== verification/Proxy_Limits.thy ===== *)
theory Proxy_Limits
  imports Rust_Net "HOL-Library.Multiset"
begin

text \<open>
  \<open>proxy/limits.rs\<close>: the ceilings on open client connections, globally and per peer. The operations are
  given as they run alone, and as the atomic steps of concurrent tasks: a task holds the peer map's
  lock for one step, and the compare-and-swap loop of the global count is interleaved with the
  other tasks.
\<close>

section \<open>Counting by guards\<close>

text \<open>
  The contract of a counter kept by guards: entering may be refused, and otherwise counts one more,
  leaving counts one less. Its users hold one guard for each successful entry.
\<close>

datatype guard_op = Enter | Leave

locale raii_count =
  fixes enter :: "'s \<Rightarrow> 's option"
    and leave :: "'s \<Rightarrow> 's"
    and held :: "'s \<Rightarrow> u64"
  assumes enter_counts: "enter s = Some s' \<Longrightarrow> held s' = held s + 1"
    and leave_counts: "held (leave s) = held s - 1"
begin

primrec run :: "guard_op list \<Rightarrow> nat \<Rightarrow> 's \<Rightarrow> (nat \<times> 's)" where
  "run [] guards s = (guards, s)"
| "run (op # ops) guards s =
    (case op of
       Enter \<Rightarrow> (case enter s of Some s' \<Rightarrow> run ops (Suc guards) s' | None \<Rightarrow> run ops guards s)
     | Leave \<Rightarrow> (if guards = 0 then run ops guards s else run ops (guards - 1) (leave s)))"

lemma held_is_guards:
  assumes "held s = of_nat guards" and "run ops guards s = (guards', s')"
  shows "held s' = of_nat guards'"
  using assms
proof (induction ops arbitrary: guards s)
  case (Cons op ops)
  show ?case
  proof (cases op)
    case Enter
    then show ?thesis
      using Cons.prems Cons.IH [of s guards] Cons.IH [of _ "Suc guards"] enter_counts [of s]
      by (cases "enter s") (simp_all add: add.commute)
  next
    case Leave
    then show ?thesis
      using Cons.prems Cons.IH [of s guards] Cons.IH [of "leave s" "guards - 1"]
      by (cases guards) (simp_all add: leave_counts)
  qed
qed simp

end

section \<open>The limit and its operations\<close>

record ConnectionLimit =
  cl_open :: u64
  cl_max :: u64
  cl_rejected :: u64
  cl_per_peer :: "u64 option"
  cl_peers :: "IpAddr \<rightharpoonup> u64"
  cl_rejected_per_peer :: u64

record ConnectionPermit =
  cp_peer :: "IpAddr option"

definition ConnectionLimit_new :: "u64 \<Rightarrow> ConnectionLimit" where
  "ConnectionLimit_new maximum =
    \<lparr>cl_open = 0, cl_max = maximum, cl_rejected = 0, cl_per_peer = None, cl_peers = Map.empty,
     cl_rejected_per_peer = 0\<rparr>"

definition with_per_peer :: "u64 \<Rightarrow> u64 \<Rightarrow> ConnectionLimit" where
  "with_per_peer maximum per_peer =
    \<lparr>cl_open = 0, cl_max = maximum, cl_rejected = 0, cl_per_peer = Some per_peer, cl_peers = Map.empty,
     cl_rejected_per_peer = 0\<rparr>"

text \<open>Giving a peer's slot back, under the lock.\<close>

definition give_back :: "IpAddr \<Rightarrow> ConnectionLimit \<Rightarrow> ConnectionLimit" where
  "give_back peer l =
    (case cl_peers l peer of
       None \<Rightarrow> l
     | Some cnt \<Rightarrow>
         (let cnt = cnt - 1
          in if cnt = 0 then l\<lparr>cl_peers := (cl_peers l)(peer := None)\<rparr>
             else l\<lparr>cl_peers := (cl_peers l)(peer \<mapsto> cnt)\<rparr>))"

definition drop_open :: "ConnectionLimit \<Rightarrow> ConnectionLimit" where
  "drop_open l = l\<lparr>cl_open := cl_open l - 1\<rparr>"

definition drop_permit :: "ConnectionPermit \<Rightarrow> ConnectionLimit \<Rightarrow> ConnectionLimit" where
  "drop_permit permit l =
    (let l = drop_open l
     in case cp_peer permit of Some peer \<Rightarrow> give_back peer l | None \<Rightarrow> l)"

text \<open>Claiming a peer's slot, under the lock; the flag says whether it was granted.\<close>

definition claim_peer :: "IpAddr \<Rightarrow> u64 \<Rightarrow> ConnectionLimit \<Rightarrow> bool \<times> ConnectionLimit" where
  "claim_peer peer per_peer l =
    (let cnt = (case cl_peers l peer of Some c \<Rightarrow> c | None \<Rightarrow> 0);
         peers = (cl_peers l)(peer \<mapsto> cnt)
     in if per_peer \<le> cnt then
          let l = l\<lparr>cl_rejected_per_peer := cl_rejected_per_peer l + 1, cl_rejected := cl_rejected l + 1\<rparr>
          in (False, l\<lparr>cl_peers := (if cnt = 0 then peers(peer := None) else peers)\<rparr>)
        else (True, l\<lparr>cl_peers := peers(peer \<mapsto> cnt + 1)\<rparr>))"

text \<open>One round of the loop on the global count: refused at the ceiling, else a compare-and-swap,
  which may fail spuriously.\<close>

definition refuse_global :: "ConnectionLimit \<Rightarrow> ConnectionLimit" where
  "refuse_global l = l\<lparr>cl_rejected := cl_rejected l + 1\<rparr>"

definition compare_exchange :: "u64 \<Rightarrow> u64 \<Rightarrow> ConnectionLimit \<Rightarrow> u64 + ConnectionLimit" where
  "compare_exchange current new l =
    (if cl_open l = current then Inr (l\<lparr>cl_open := new\<rparr>) else Inl (cl_open l))"

text \<open>The loop without interference: the first exchange that does not fail spuriously succeeds.\<close>

definition acquire_global :: "ConnectionLimit \<Rightarrow> ConnectionPermit option \<times> ConnectionLimit" where
  "acquire_global l =
    (let current = cl_open l
     in if cl_max l \<le> current then (None, refuse_global l)
        else case compare_exchange current (current + 1) l of
               Inr l' \<Rightarrow> (Some \<lparr>cp_peer = None\<rparr>, l')
             | Inl _ \<Rightarrow> (None, l))"

definition try_acquire :: "ConnectionLimit \<Rightarrow> ConnectionPermit option \<times> ConnectionLimit" where
  "try_acquire l = acquire_global l"

definition try_acquire_for :: "IpAddr \<Rightarrow> ConnectionLimit \<Rightarrow> ConnectionPermit option \<times> ConnectionLimit" where
  "try_acquire_for peer l =
    (case cl_per_peer l of
       Some per_peer \<Rightarrow>
         (case claim_peer peer per_peer l of
            (False, l) \<Rightarrow> (None, l)
          | (True, l) \<Rightarrow>
              (case acquire_global l of
                 (Some permit, l) \<Rightarrow> (Some (permit\<lparr>cp_peer := Some peer\<rparr>), l)
               | (None, l) \<Rightarrow> (None, give_back peer l)))
     | None \<Rightarrow> acquire_global l)"

section \<open>Concurrent tasks\<close>

text \<open>
  A task is waiting to load the count, holds a loaded count it will compare, gives its peer slot
  back after a global refusal, holds a permit, or is in the middle of dropping one.
\<close>

datatype phase =
    Loading "IpAddr option"
  | Swapping "IpAddr option" u64
  | Refunding IpAddr
  | Holding "IpAddr option"
  | Dropping IpAddr

fun owner :: "phase \<Rightarrow> IpAddr option" where
  "owner (Loading p) = p"
| "owner (Swapping p _) = p"
| "owner (Refunding p) = Some p"
| "owner (Holding p) = p"
| "owner (Dropping p) = Some p"

fun is_holding :: "phase \<Rightarrow> bool" where
  "is_holding (Holding _) = True"
| "is_holding _ = False"

definition after_refusal :: "IpAddr option \<Rightarrow> phase multiset" where
  "after_refusal p = (case p of Some peer \<Rightarrow> {#Refunding peer#} | None \<Rightarrow> {#})"

definition after_drop :: "IpAddr option \<Rightarrow> phase multiset" where
  "after_drop p = (case p of Some peer \<Rightarrow> {#Dropping peer#} | None \<Rightarrow> {#})"

inductive limit_step :: "ConnectionLimit \<times> phase multiset \<Rightarrow> ConnectionLimit \<times> phase multiset \<Rightarrow> bool" where
  arrive_unattributed: "limit_step (l, ts) (l, add_mset (Loading None) ts)"
| arrive_granted:
    "cl_per_peer l = Some per_peer \<Longrightarrow> claim_peer peer per_peer l = (True, l') \<Longrightarrow>
     limit_step (l, ts) (l', add_mset (Loading (Some peer)) ts)"
| arrive_refused:
    "cl_per_peer l = Some per_peer \<Longrightarrow> claim_peer peer per_peer l = (False, l') \<Longrightarrow>
     limit_step (l, ts) (l', ts)"
| load: "limit_step (l, add_mset (Loading p) ts) (l, add_mset (Swapping p (cl_open l)) ts)"
| at_ceiling:
    "cl_max l \<le> current \<Longrightarrow>
     limit_step (l, add_mset (Swapping p current) ts) (refuse_global l, after_refusal p + ts)"
| swapped:
    "\<not> cl_max l \<le> current \<Longrightarrow> compare_exchange current (current + 1) l = Inr l' \<Longrightarrow>
     limit_step (l, add_mset (Swapping p current) ts) (l', add_mset (Holding p) ts)"
| lost:
    "\<not> cl_max l \<le> current \<Longrightarrow>
     limit_step (l, add_mset (Swapping p current) ts) (l, add_mset (Swapping p (cl_open l)) ts)"
| refund: "limit_step (l, add_mset (Refunding peer) ts) (give_back peer l, ts)"
| release_open: "limit_step (l, add_mset (Holding p) ts) (drop_open l, after_drop p + ts)"
| release_peer: "limit_step (l, add_mset (Dropping peer) ts) (give_back peer l, ts)"

inductive_cases limit_stepE: "limit_step s s'"

definition owned :: "IpAddr \<Rightarrow> phase multiset \<Rightarrow> nat" where
  "owned peer ts = size (filter_mset (\<lambda>t. owner t = Some peer) ts)"

definition peer_count :: "ConnectionLimit \<Rightarrow> IpAddr \<Rightarrow> nat" where
  "peer_count l peer = (case cl_peers l peer of Some c \<Rightarrow> unat c | None \<Rightarrow> 0)"

definition peer_cap :: "ConnectionLimit \<Rightarrow> nat" where
  "peer_cap l = (case cl_per_peer l of Some c \<Rightarrow> unat c | None \<Rightarrow> 0)"

definition limit_inv :: "ConnectionLimit \<times> phase multiset \<Rightarrow> bool" where
  "limit_inv s \<longleftrightarrow>
    (let l = fst s; ts = snd s
     in unat (cl_open l) = size (filter_mset is_holding ts) \<and> cl_open l \<le> cl_max l
        \<and> (\<forall>peer. peer_count l peer = owned peer ts \<and> cl_peers l peer \<noteq> Some 0
             \<and> owned peer ts \<le> peer_cap l))"

lemma owned_add [simp]:
  "owned peer (add_mset t ts) = (if owner t = Some peer then Suc (owned peer ts) else owned peer ts)"
  by (simp add: owned_def)

lemma owned_after [simp]:
  "owned peer (after_refusal p + ts) = (if p = Some peer then Suc (owned peer ts) else owned peer ts)"
  "owned peer (after_drop p + ts) = (if p = Some peer then Suc (owned peer ts) else owned peer ts)"
  by (auto simp: owned_def after_refusal_def after_drop_def split: option.splits)

lemma holding_after [simp]:
  "t \<in># after_refusal p \<Longrightarrow> \<not> is_holding t"
  "t \<in># after_drop p \<Longrightarrow> \<not> is_holding t"
  by (auto simp: after_refusal_def after_drop_def split: option.splits)

lemma give_back_keeps [simp]:
  "cl_open (give_back p l) = cl_open l" "cl_max (give_back p l) = cl_max l"
  "cl_per_peer (give_back p l) = cl_per_peer l"
  by (simp_all add: give_back_def Let_def split: option.splits)

lemma give_back_count:
  assumes "cl_peers l peer \<noteq> Some 0"
  shows "peer_count (give_back peer l) p = (if p = peer then peer_count l p - 1 else peer_count l p)"
  using assms
  by (cases "cl_peers l peer") (auto simp: give_back_def peer_count_def Let_def unat_pred)

lemma give_back_positive:
  assumes "cl_peers l p \<noteq> Some 0"
  shows "cl_peers (give_back peer l) p \<noteq> Some 0"
  using assms by (auto simp: give_back_def Let_def split: option.splits)

lemma claim_granted:
  assumes "claim_peer peer cap l = (True, l')" "cl_peers l p \<noteq> Some 0"
  shows "peer_count l' p = (if p = peer then Suc (peer_count l p) else peer_count l p)"
    and "cl_peers l' p \<noteq> Some 0" and "peer_count l peer < unat cap"
    and "cl_open l' = cl_open l" "cl_max l' = cl_max l" "cl_per_peer l' = cl_per_peer l"
proof -
  let ?c = "case cl_peers l peer of Some c \<Rightarrow> c | None \<Rightarrow> 0"
  have c: "?c < cap" and l': "l' = l\<lparr>cl_peers := (cl_peers l)(peer \<mapsto> ?c + 1)\<rparr>"
    using assms(1) by (auto simp: claim_peer_def Let_def split: if_splits)
  have n: "unat (?c + 1) = Suc (unat ?c)" using c by (rule unat_next)
  then have nz: "?c + 1 \<noteq> 0" by (metis nat.distinct(1) unat_0)
  have pc: "unat ?c = peer_count l peer" by (simp add: peer_count_def split: option.splits)
  show "peer_count l' p = (if p = peer then Suc (peer_count l p) else peer_count l p)"
    using n pc by (simp add: l' peer_count_def)
  show "cl_peers l' p \<noteq> Some 0" using assms(2) nz by (simp add: l')
  show "peer_count l peer < unat cap" using c pc by (simp add: word_less_nat_alt)
  show "cl_open l' = cl_open l" "cl_max l' = cl_max l" "cl_per_peer l' = cl_per_peer l" by (simp_all add: l')
qed

lemma claim_refused:
  assumes "claim_peer peer cap l = (False, l')" "cl_peers l peer \<noteq> Some 0"
  shows "peer_count l' p = peer_count l p" and "cl_peers l p \<noteq> Some 0 \<Longrightarrow> cl_peers l' p \<noteq> Some 0"
    and "cl_open l' = cl_open l" "cl_max l' = cl_max l" "cl_per_peer l' = cl_per_peer l"
  using assms by (auto simp: claim_peer_def Let_def peer_count_def split: if_splits option.splits)

lemma limit_inv_start:
  "limit_inv (ConnectionLimit_new maximum, {#})" "limit_inv (with_per_peer maximum cap, {#})"
  by (simp_all add: limit_inv_def ConnectionLimit_new_def with_per_peer_def peer_count_def owned_def peer_cap_def)

lemma give_back_inv:
  assumes "limit_inv (l, add_mset t ts)" "owner t = Some peer" "\<not> is_holding t"
  shows "limit_inv (give_back peer l, ts)"
proof -
  have c: "peer_count l p = owned p (add_mset t ts)" "cl_peers l p \<noteq> Some 0"
    "owned p (add_mset t ts) \<le> peer_cap l" for p
    using assms(1) by (simp_all add: limit_inv_def)
  have "peer_count (give_back peer l) p = owned p ts" "owned p ts \<le> peer_cap l" for p
    using c(1,3) [of p] c(2) [of peer] assms(2) by (auto simp: give_back_count split: if_splits)
  then show ?thesis
    using assms c(2) by (simp add: limit_inv_def give_back_positive peer_cap_def)
qed

lemma limit_inv_step:
  assumes "limit_step s s'" and "limit_inv s"
  shows "limit_inv s' \<and> cl_max (fst s') = cl_max (fst s) \<and> cl_per_peer (fst s') = cl_per_peer (fst s)"
  using assms
proof cases
  case (arrive_unattributed l ts)
  then show ?thesis using assms(2) by (simp add: limit_inv_def)
next
  case (arrive_granted l per_peer peer l' ts)
  note g = claim_granted [OF arrive_granted(4)]
  have nz: "cl_peers l p \<noteq> Some 0" for p using assms(2) by (simp add: limit_inv_def arrive_granted)
  have cap: "Suc (owned peer ts) \<le> peer_cap l"
    using g(3) [OF nz] assms(2) arrive_granted by (simp add: limit_inv_def peer_cap_def Suc_le_eq)
  show ?thesis
    using assms(2) g(1,2,4,5,6) [OF nz] cap arrive_granted
    by (simp add: limit_inv_def peer_cap_def)
next
  case (arrive_refused l per_peer peer l' ts)
  have nz: "cl_peers l p \<noteq> Some 0" for p using assms(2) by (simp add: limit_inv_def arrive_refused)
  note g = claim_refused [OF arrive_refused(4) nz]
  show ?thesis
    using assms(2) g(1) g(2) [OF nz] g(3-5) arrive_refused by (simp add: limit_inv_def peer_cap_def)
next
  case (load l p ts)
  then show ?thesis using assms(2) by (simp add: limit_inv_def)
next
  case (at_ceiling l current p ts)
  then show ?thesis using assms(2) by (simp add: limit_inv_def refuse_global_def peer_count_def peer_cap_def)
next
  case (swapped l current l' p ts)
  then have "cl_open l = current" "l' = l\<lparr>cl_open := current + 1\<rparr>"
    by (auto simp: compare_exchange_def split: if_splits)
  moreover have "current < cl_max l" using swapped by simp
  ultimately show ?thesis
    using assms(2) swapped unat_next [of current "cl_max l"] inc_le [of current "cl_max l"]
    by (simp add: limit_inv_def peer_count_def peer_cap_def add.commute)
next
  case (lost l current p ts)
  then show ?thesis using assms(2) by (simp add: limit_inv_def)
next
  case (refund l peer ts)
  then show ?thesis using assms(2) give_back_inv [of l _ ts peer] by simp
next
  case (release_open l p ts)
  have "cl_open l \<noteq> 0" using assms(2) release_open by (auto simp: limit_inv_def)
  moreover have "cl_open l - 1 \<le> cl_max l"
    using assms(2) release_open calculation
    by (auto simp: limit_inv_def word_le_nat_alt unat_pred)
  ultimately show ?thesis
    using assms(2) release_open
    by (simp add: limit_inv_def drop_open_def peer_count_def peer_cap_def unat_pred)
next
  case (release_peer l peer ts)
  then show ?thesis using assms(2) give_back_inv [of l _ ts peer] by simp
qed

lemma limit_inv_reachable:
  assumes "limit_step\<^sup>*\<^sup>* s s'" and "limit_inv s"
  shows "limit_inv s' \<and> cl_max (fst s') = cl_max (fst s) \<and> cl_per_peer (fst s') = cl_per_peer (fst s)"
  using assms by (induction rule: rtranclp_induct) (auto dest: limit_inv_step)

section \<open>Properties\<close>

lemma acquire_global_counts:
  "acquire_global l = (Some permit, l') \<Longrightarrow> cl_open l' = cl_open l + 1"
  by (auto simp: acquire_global_def compare_exchange_def Let_def split: if_splits)

interpretation conn: raii_count
  "\<lambda>l. (case try_acquire l of (Some _, l') \<Rightarrow> Some l' | (None, _) \<Rightarrow> None)"
  "drop_permit \<lparr>cp_peer = None\<rparr>" cl_open
  by unfold_locales
     (auto simp: try_acquire_def drop_permit_def drop_open_def dest: acquire_global_counts
           split: prod.splits option.splits)

lemma holders_of_peer: "size (filter_mset (\<lambda>t. t = Holding (Some peer)) ts) \<le> owned peer ts"
  by (induction ts) (auto simp: owned_def)

text \<open>
  C17: the connection ceilings hold under every interleaving. At every moment the open count is the
  number of permits held and is at most the global ceiling, no peer holds more permits than the
  per-peer ceiling, and once every task has finished no count is left behind.
\<close>

theorem connection_ceilings_hold:
  assumes "limit_step\<^sup>*\<^sup>* (with_per_peer maximum cap, {#}) (l, ts)"
  shows "unat (cl_open l) = size (filter_mset is_holding ts) \<and> cl_open l \<le> maximum
    \<and> size (filter_mset (\<lambda>t. t = Holding (Some peer)) ts) \<le> unat cap
    \<and> (ts = {#} \<longrightarrow> cl_open l = 0 \<and> cl_peers l = Map.empty)"
proof -
  have i: "limit_inv (l, ts)" "cl_max l = maximum" "cl_per_peer l = Some cap"
    using limit_inv_reachable [OF assms limit_inv_start(2)] by (simp_all add: with_per_peer_def)
  have "owned peer ts \<le> unat cap" using i by (simp add: limit_inv_def peer_cap_def)
  then have p: "size (filter_mset (\<lambda>t. t = Holding (Some peer)) ts) \<le> unat cap"
    using holders_of_peer le_trans by blast
  have "cl_peers l q = None" if "ts = {#}" for q
    using i(1) that
    by (cases "cl_peers l q") (auto simp: limit_inv_def peer_count_def owned_def unat_eq_0 dest!: spec [of _ q])
  then have "ts = {#} \<longrightarrow> cl_open l = 0 \<and> cl_peers l = Map.empty"
    using i(1) by (auto simp: limit_inv_def unat_eq_0)
  then show ?thesis using i p by (simp add: limit_inv_def)
qed

text \<open>Two tasks race for the single slot: one loads the count, the other takes the slot, and the first
  exchange then fails.\<close>

lemma ceiling_race:
  "limit_step\<^sup>*\<^sup>* (with_per_peer 1 2, {#})
     ((with_per_peer 1 2)\<lparr>cl_open := 1, cl_peers := Map.empty(IpV4 ip \<mapsto> 1)\<rparr>,
      {#Holding (Some (IpV4 ip)), Swapping None 1#})"
proof -
  let ?l0 = "with_per_peer 1 2"
  let ?l1 = "?l0\<lparr>cl_peers := Map.empty(IpV4 ip \<mapsto> 1)\<rparr>"
  let ?l2 = "?l0\<lparr>cl_open := 1, cl_peers := Map.empty(IpV4 ip \<mapsto> 1)\<rparr>"
  let ?p = "Some (IpV4 ip)"
  have c: "claim_peer (IpV4 ip) 2 ?l0 = (True, ?l1)" "cl_per_peer ?l0 = Some 2"
    by (simp_all add: claim_peer_def with_per_peer_def)
  have o: "cl_open ?l0 = 0" "cl_open ?l1 = 0" "cl_open ?l2 = 1" "cl_max ?l1 = 1" "cl_max ?l2 = 1"
    by (simp_all add: with_per_peer_def)
  have x: "compare_exchange 0 (0 + 1) ?l1 = Inr ?l2" by (simp add: compare_exchange_def with_per_peer_def)
  have 1: "limit_step (?l0, {#}) (?l0, {#Loading None#})" by (rule arrive_unattributed)
  have 2: "limit_step (?l0, {#Loading None#}) (?l0, {#Swapping None 0#})"
    using load [of ?l0 None "{#}"] by (simp add: o)
  have 3: "limit_step (?l0, {#Swapping None 0#}) (?l1, {#Loading ?p, Swapping None 0#})"
    using c by (intro arrive_granted)
  have 4: "limit_step (?l1, {#Loading ?p, Swapping None 0#}) (?l1, {#Swapping ?p 0, Swapping None 0#})"
    using load [of ?l1 ?p "{#Swapping None 0#}"] by (simp add: o)
  have 5: "limit_step (?l1, {#Swapping ?p 0, Swapping None 0#}) (?l2, {#Holding ?p, Swapping None 0#})"
    by (rule swapped [OF _ x]) (simp add: o)
  have 6: "limit_step (?l2, {#Swapping None 0, Holding ?p#}) (?l2, {#Swapping None 1, Holding ?p#})"
    using lost [of ?l2 0 None "{#Holding ?p#}"] by (simp add: o)
  show ?thesis
    using 1 2 3 4 5 6 by (simp add: add_mset_commute)
qed

theorem connection_ceilings_hold_witness:
  "cl_open ((with_per_peer 1 2)\<lparr>cl_open := 1, cl_peers := Map.empty(IpV4 (V4 10 0 0 1) \<mapsto> 1)\<rparr>) \<le> 1
   \<and> size (filter_mset (\<lambda>t. t = Holding (Some (IpV4 (V4 10 0 0 1))))
       {#Holding (Some (IpV4 (V4 10 0 0 1))), Swapping None 1#}) \<le> unat (2 :: u64)"
  using connection_ceilings_hold [OF ceiling_race [of "V4 10 0 0 1"], of "IpV4 (V4 10 0 0 1)"] by blast

text \<open>
  One attempt on its own. A connection is admitted exactly when its peer and the whole cache are
  below their ceilings; a refusal leaves every count as it was, and dropping the permit gives back
  what was taken.
\<close>

theorem admission_exact:
  assumes "cl_per_peer l = Some cap" and "\<forall>p. cl_peers l p \<noteq> Some 0"
    and "try_acquire_for peer l = (r, l')"
  shows "(r \<noteq> None \<longleftrightarrow> peer_count l peer < unat cap \<and> cl_open l < cl_max l)
    \<and> (r = None \<longrightarrow> cl_open l' = cl_open l \<and> peer_count l' = peer_count l)
    \<and> (\<forall>permit. r = Some permit \<longrightarrow>
         cl_open l' = cl_open l + 1 \<and> peer_count l' peer = Suc (peer_count l peer)
         \<and> cl_open (drop_permit permit l') = cl_open l \<and> peer_count (drop_permit permit l') = peer_count l)"
proof (cases "claim_peer peer cap l")
  case (Pair granted l1)
  have nz: "cl_peers l p \<noteq> Some 0" for p using assms(2) by simp
  show ?thesis
  proof (cases granted)
    case False
    have cf: "claim_peer peer cap l = (False, l1)" using Pair False by simp
    note g = claim_refused [OF cf nz]
    have "r = None" "l' = l1" using assms(1,3) Pair False by (auto simp: try_acquire_for_def)
    moreover have "unat cap \<le> peer_count l peer"
      using Pair False by (auto simp: claim_peer_def Let_def peer_count_def word_le_nat_alt split: if_splits option.splits)
    ultimately show ?thesis using g by (simp add: fun_eq_iff)
  next
    case True
    have ct: "claim_peer peer cap l = (True, l1)" using Pair True by simp
    note g = claim_granted [OF ct nz]
    have nz1: "cl_peers l1 p \<noteq> Some 0" for p using g(2) by simp
    have bk: "peer_count (give_back peer l1) = peer_count l"
      using g(1) by (auto simp: fun_eq_iff give_back_count [OF nz1])
    have upd: "peer_count (m\<lparr>cl_open := x\<rparr>) = peer_count m" "give_back peer (m\<lparr>cl_open := x\<rparr>) = (give_back peer m)\<lparr>cl_open := x\<rparr>"
      "peer_count (refuse_global m) = peer_count m" "cl_open (refuse_global m) = cl_open m"
      "give_back peer (refuse_global m) = refuse_global (give_back peer m)" for m x
      by (auto simp: fun_eq_iff peer_count_def give_back_def refuse_global_def Let_def split: option.splits)
    show ?thesis
      using assms(1,3) Pair True g bk
      by (auto simp: try_acquire_for_def acquire_global_def compare_exchange_def drop_permit_def drop_open_def
        upd Let_def split: if_splits)
  qed
qed

theorem admission_exact_witness:
  "try_acquire_for (IpV4 (V4 10 0 0 1)) (with_per_peer 5 2)
     = (Some \<lparr>cp_peer = Some (IpV4 (V4 10 0 0 1))\<rparr>,
        (with_per_peer 5 2)\<lparr>cl_open := 1, cl_peers := Map.empty(IpV4 (V4 10 0 0 1) \<mapsto> 1)\<rparr>)
   \<and> peer_count (with_per_peer 5 2) (IpV4 (V4 10 0 0 1)) < unat (2 :: u64)"
proof -
  let ?p = "IpV4 (V4 10 0 0 1)"
  have t: "try_acquire_for ?p (with_per_peer 5 2)
     = (Some \<lparr>cp_peer = Some ?p\<rparr>, (with_per_peer 5 2)\<lparr>cl_open := 1, cl_peers := Map.empty(?p \<mapsto> 1)\<rparr>)"
    by (simp add: try_acquire_for_def with_per_peer_def claim_peer_def acquire_global_def compare_exchange_def Let_def)
  show ?thesis
    using admission_exact [OF _ _ t, of 2] t by (simp add: with_per_peer_def)
qed

end
