(* ===== verification/Proxy_Shutdown.thy ===== *)
theory Proxy_Shutdown
  imports Proxy_Limits
begin

text \<open>
  \<open>proxy/shutdown.rs\<close>: counting work in flight and waiting for it at shutdown. The operations come
  first, then the atomic steps of the tasks that enter and leave while one task drains; the notifier
  is a flag of the waiting future, set by a notification sent after the future was created.
\<close>

section \<open>Operations\<close>

record Drain =
  dr_inflight :: u64
  dr_draining :: bool

definition Drain_new :: Drain where
  "Drain_new = \<lparr>dr_inflight = 0, dr_draining = False\<rparr>"

definition enter_unconditional :: "Drain \<Rightarrow> Drain" where
  "enter_unconditional d = d\<lparr>dr_inflight := dr_inflight d + 1\<rparr>"

definition drain_enter :: "Drain \<Rightarrow> Drain option" where
  "drain_enter d = (if dr_draining d then None else Some (d\<lparr>dr_inflight := dr_inflight d + 1\<rparr>))"

text \<open>Dropping a guard; the flag says whether waiters are to be woken.\<close>

definition drop_guard :: "Drain \<Rightarrow> bool \<times> Drain" where
  "drop_guard d = (dr_inflight d = 1, d\<lparr>dr_inflight := dr_inflight d - 1\<rparr>)"

interpretation work: raii_count drain_enter "\<lambda>d. snd (drop_guard d)" dr_inflight
  by unfold_locales (auto simp: drain_enter_def drop_guard_def split: if_splits)

interpretation fills: raii_count "\<lambda>d. Some (enter_unconditional d)" "\<lambda>d. snd (drop_guard d)" dr_inflight
  by unfold_locales (auto simp: enter_unconditional_def drop_guard_def)

section \<open>A drain beside other tasks\<close>

text \<open>
  Where the draining task stands: before \<open>drain\<close>, after setting the flag, at the head of the wait
  loop, with a future registered or awaited (and whether it was notified), or returned.
\<close>

datatype drainer =
    Serving | Flagged | Looping | Registered bool | Awaiting bool | Returned bool

record drain_state =
  ds_drain :: Drain
  ds_entering :: nat
  ds_guards :: nat
  ds_notifying :: nat
  ds_drainer :: drainer

definition notify_waiters :: "drainer \<Rightarrow> drainer" where
  "notify_waiters w = (case w of Registered _ \<Rightarrow> Registered True | Awaiting _ \<Rightarrow> Awaiting True | _ \<Rightarrow> w)"

definition drain_start :: drain_state where
  "drain_start = \<lparr>ds_drain = Drain_new, ds_entering = 0, ds_guards = 0, ds_notifying = 0, ds_drainer = Serving\<rparr>"

text \<open>
  Entering reads the flag and adds to the count in two steps. A process cannot hold as many guards
  as a 64-bit counter can count, so the count is added to below its maximum.
\<close>

inductive drain_step :: "drain_state \<Rightarrow> drain_state \<Rightarrow> bool" where
  enter_check:
    "\<not> dr_draining (ds_drain s) \<Longrightarrow> drain_step s (s\<lparr>ds_entering := Suc (ds_entering s)\<rparr>)"
| enter_add:
    "0 < ds_entering s \<Longrightarrow> dr_inflight (ds_drain s) \<noteq> - 1 \<Longrightarrow>
     drain_step s (s\<lparr>ds_drain := enter_unconditional (ds_drain s), ds_entering := ds_entering s - 1,
                     ds_guards := Suc (ds_guards s)\<rparr>)"
| enter_fill:
    "dr_inflight (ds_drain s) \<noteq> - 1 \<Longrightarrow>
     drain_step s (s\<lparr>ds_drain := enter_unconditional (ds_drain s), ds_guards := Suc (ds_guards s)\<rparr>)"
| leave_guard:
    "0 < ds_guards s \<Longrightarrow> drop_guard (ds_drain s) = (wake, d) \<Longrightarrow>
     drain_step s (s\<lparr>ds_drain := d, ds_guards := ds_guards s - 1,
                     ds_notifying := (if wake then Suc (ds_notifying s) else ds_notifying s)\<rparr>)"
| notify:
    "0 < ds_notifying s \<Longrightarrow>
     drain_step s (s\<lparr>ds_notifying := ds_notifying s - 1, ds_drainer := notify_waiters (ds_drainer s)\<rparr>)"
| begin_drain:
    "ds_drainer s = Serving \<Longrightarrow>
     drain_step s (s\<lparr>ds_drain := (ds_drain s)\<lparr>dr_draining := True\<rparr>, ds_drainer := Flagged\<rparr>)"
| first_check:
    "ds_drainer s = Flagged \<Longrightarrow>
     drain_step s (s\<lparr>ds_drainer := (if dr_inflight (ds_drain s) = 0 then Returned True else Looping)\<rparr>)"
| register:
    "ds_drainer s = Looping \<Longrightarrow> drain_step s (s\<lparr>ds_drainer := Registered False\<rparr>)"
| check_again:
    "ds_drainer s = Registered notified \<Longrightarrow>
     drain_step s (s\<lparr>ds_drainer := (if dr_inflight (ds_drain s) = 0 then Returned True else Awaiting notified)\<rparr>)"
| woken:
    "ds_drainer s = Awaiting True \<Longrightarrow> drain_step s (s\<lparr>ds_drainer := Looping\<rparr>)"
| timed_out:
    "ds_drainer s \<in> {Looping, Registered b, Awaiting b} \<Longrightarrow> drain_step s (s\<lparr>ds_drainer := Returned False\<rparr>)"

definition drain_inv :: "drain_state \<Rightarrow> bool" where
  "drain_inv s \<longleftrightarrow>
    unat (dr_inflight (ds_drain s)) = ds_guards s
    \<and> (ds_drainer s = Awaiting False \<longrightarrow> ds_guards s = 0 \<longrightarrow> 0 < ds_notifying s)
    \<and> (ds_drainer s \<noteq> Serving \<longrightarrow> dr_draining (ds_drain s))"

lemma drain_inv_start: "drain_inv drain_start"
  by (simp add: drain_inv_def drain_start_def Drain_new_def)

lemma unat_entered [simp]:
  "dr_inflight d \<noteq> - 1 \<Longrightarrow> unat (dr_inflight (enter_unconditional d)) = Suc (unat (dr_inflight d))"
  "dr_draining (enter_unconditional d) = dr_draining d"
  using unat_next [of "dr_inflight d" "- 1"] word_order.not_eq_extremum [of "dr_inflight d"]
  by (simp_all add: enter_unconditional_def)

lemma drop_guard_counts:
  assumes "drop_guard d = (wake, d')" "0 < unat (dr_inflight d)"
  shows "unat (dr_inflight d') = unat (dr_inflight d) - 1" "wake \<longleftrightarrow> unat (dr_inflight d') = 0"
    "dr_draining d' = dr_draining d"
proof -
  have "dr_inflight d \<noteq> 0" using assms(2) by auto
  moreover have "dr_inflight d = 1 \<longleftrightarrow> unat (dr_inflight d) = 1"
    by (simp add: word_unat_eq_iff)
  ultimately show "unat (dr_inflight d') = unat (dr_inflight d) - 1" "wake \<longleftrightarrow> unat (dr_inflight d') = 0"
    "dr_draining d' = dr_draining d"
    using assms by (auto simp: drop_guard_def unat_pred)
qed

lemma drain_inv_step:
  assumes "drain_step s s'" "drain_inv s"
  shows "drain_inv s'"
  using assms
proof cases
  case (leave_guard wake d)
  then show ?thesis
    using assms(2) drop_guard_counts [OF leave_guard(3)] by (auto simp: drain_inv_def)
next
  case notify
  then show ?thesis using assms(2) by (auto simp: drain_inv_def notify_waiters_def split: drainer.splits)
qed (auto simp: drain_inv_def unat_eq_0)

lemma drain_inv_reachable:
  assumes "drain_step\<^sup>*\<^sup>* drain_start s"
  shows "drain_inv s"
  using assms by (induction rule: rtranclp_induct) (auto intro: drain_inv_start drain_inv_step)

section \<open>Properties\<close>

text \<open>
  C19: draining is exact and loses no wake-up. In every reachable state the count is the number of
  guards alive; a draining task asleep with nothing left in flight has been notified or the
  notification is still to be sent; \<open>drain\<close> reports success only in a state with nothing in flight;
  and once draining has begun new work is refused.
\<close>

theorem drain_waits_exactly:
  assumes "drain_step\<^sup>*\<^sup>* drain_start s"
  shows "unat (dr_inflight (ds_drain s)) = ds_guards s
    \<and> (ds_drainer s = Awaiting False \<longrightarrow> ds_guards s = 0 \<longrightarrow> 0 < ds_notifying s)
    \<and> (drain_step s s' \<longrightarrow> ds_drainer s \<noteq> Returned True \<longrightarrow> ds_drainer s' = Returned True \<longrightarrow> ds_guards s' = 0)
    \<and> (ds_drainer s \<noteq> Serving \<longrightarrow> drain_enter (ds_drain s) = None)"
proof -
  note i = drain_inv_reachable [OF assms]
  have "ds_guards s' = 0"
    if step: "drain_step s s'" and "ds_drainer s \<noteq> Returned True" "ds_drainer s' = Returned True"
    using step that(2,3) i
    by cases (auto simp: drain_inv_def notify_waiters_def unat_eq_0 split: if_splits drainer.splits)
  then show ?thesis using i by (auto simp: drain_inv_def drain_enter_def)
qed

lemma drain_steps:
  "drain_step\<^sup>*\<^sup>* drain_start (drain_start\<lparr>ds_drain := \<lparr>dr_inflight = 1, dr_draining = True\<rparr>, ds_guards := 1,
     ds_drainer := Awaiting False\<rparr>)"
  (is "drain_step\<^sup>*\<^sup>* _ ?s5")
proof -
  let ?s1 = "drain_start\<lparr>ds_drain := \<lparr>dr_inflight = 1, dr_draining = False\<rparr>, ds_guards := 1\<rparr>"
  let ?s2 = "drain_start\<lparr>ds_drain := \<lparr>dr_inflight = 1, dr_draining = True\<rparr>, ds_guards := 1, ds_drainer := Flagged\<rparr>"
  let ?s3 = "?s2\<lparr>ds_drainer := Looping\<rparr>" and ?s4 = "?s2\<lparr>ds_drainer := Registered False\<rparr>"
  have 1: "drain_step drain_start ?s1"
    using enter_fill [of drain_start] by (simp add: drain_start_def Drain_new_def enter_unconditional_def)
  have 2: "drain_step ?s1 ?s2" using begin_drain [of ?s1] by (simp add: drain_start_def)
  have 3: "drain_step ?s2 ?s3" using first_check [of ?s2] by (simp add: drain_start_def)
  have 4: "drain_step ?s3 ?s4" using register [of ?s3] by simp
  have 5: "drain_step ?s4 ?s5" using check_again [of ?s4 False] by simp
  show ?thesis using 1 2 3 4 5 by (meson converse_rtranclp_into_rtranclp rtranclp.rtrancl_refl)
qed

theorem drain_waits_exactly_witness:
  "unat (dr_inflight (ds_drain (drain_start\<lparr>ds_drain := \<lparr>dr_inflight = 1, dr_draining = True\<rparr>, ds_guards := 1,
     ds_drainer := Awaiting False\<rparr>))) = 1
   \<and> drain_enter \<lparr>dr_inflight = 1, dr_draining = True\<rparr> = None"
  using drain_waits_exactly [OF drain_steps, of drain_start] by simp

text \<open>
  Entering and draining race. A request that read the flag before it was set may add itself to
  the count after \<open>drain\<close> found the count at zero, so \<open>drain\<close> can report that everything finished while
  a request is about to run.
\<close>

theorem drain_misses_entering:
  "\<exists>s. drain_step\<^sup>*\<^sup>* drain_start s \<and> ds_drainer s = Returned True \<and> ds_guards s = 1
     \<and> dr_inflight (ds_drain s) = 1"
proof -
  let ?d = "\<lparr>dr_inflight = 0, dr_draining = True\<rparr>"
  let ?s1 = "drain_start\<lparr>ds_entering := 1\<rparr>"
  let ?s2 = "?s1\<lparr>ds_drain := ?d, ds_drainer := Flagged\<rparr>"
  let ?s3 = "?s2\<lparr>ds_drainer := Returned True\<rparr>"
  let ?s4 = "?s3\<lparr>ds_drain := ?d\<lparr>dr_inflight := 1\<rparr>, ds_entering := 0, ds_guards := 1\<rparr>"
  have 1: "drain_step drain_start ?s1"
    using enter_check [of drain_start] by (simp add: drain_start_def Drain_new_def)
  have 2: "drain_step ?s1 ?s2" using begin_drain [of ?s1] by (simp add: drain_start_def Drain_new_def)
  have 3: "drain_step ?s2 ?s3" using first_check [of ?s2] by simp
  have 4: "drain_step ?s3 ?s4" using enter_add [of ?s3] by (simp add: drain_start_def enter_unconditional_def)
  have "drain_step\<^sup>*\<^sup>* drain_start ?s4"
    using 1 2 3 4 by (meson converse_rtranclp_into_rtranclp rtranclp.rtrancl_refl)
  then show ?thesis by (intro exI [of _ ?s4]) simp
qed

end
