(* ===== verification/Proxy_Headers.thy ===== *)
theory Proxy_Headers
  imports Rust_Str
begin

text \<open>
  \<open>proxy/headers.rs\<close> and \<open>proxy/heartbeat.rs\<close>: which headers go to an origin, which come back, and the
  headers added to every response. A header map is the list of its entries in iteration order, with
  lower-case names as the HTTP library keeps them; a value is text when it is visible ASCII.
\<close>

section \<open>Header maps\<close>

type_synonym headers = "(string \<times> string) list"

definition visible_ascii :: "char \<Rightarrow> bool" where
  "visible_ascii c \<longleftrightarrow> (32 \<le> code c \<and> code c < 127) \<or> code c = 9"

definition to_str :: "string \<Rightarrow> string option" where
  "to_str value = (if list_all visible_ascii value then Some value else None)"

definition header_value :: "string \<Rightarrow> string option" where
  "header_value s = (if list_all visible_ascii s then Some s else None)"

definition hget :: "headers \<Rightarrow> string \<Rightarrow> string option" where
  "hget hs name = map_of hs name"

definition hget_all :: "headers \<Rightarrow> string \<Rightarrow> string list" where
  "hget_all hs name = map snd (filter (\<lambda>h. fst h = name) hs)"

definition hinsert :: "string \<Rightarrow> string \<Rightarrow> headers \<Rightarrow> headers" where
  "hinsert name value hs = filter (\<lambda>h. fst h \<noteq> name) hs @ [(name, value)]"

definition happend :: "string \<Rightarrow> string \<Rightarrow> headers \<Rightarrow> headers" where
  "happend name value hs = hs @ [(name, value)]"

lemma hget_hinsert [simp]: "hget (hinsert n v hs) m = (if m = n then Some v else hget hs m)"
proof -
  have "map_of (filter (\<lambda>h. fst h \<noteq> n) hs) m = (if m = n then None else map_of hs m)"
    by (induction hs) auto
  then show ?thesis by (auto simp: hget_def hinsert_def map_add_def split: option.splits)
qed

section \<open>Headers of requests and responses\<close>

definition HOP_BY_HOP :: "string list" where
  "HOP_BY_HOP =
    [''connection'', ''keep-alive'', ''proxy-authenticate'', ''proxy-authorization'', ''te'', ''trailer'',
     ''transfer-encoding'', ''upgrade'']"

definition PRESERVED_ENTITY :: "string list" where
  "PRESERVED_ENTITY =
    [''content-type'', ''etag'', ''last-modified'', ''cache-control'', ''content-encoding'',
     ''content-language'', ''expires'']"

definition CREDENTIAL_HEADERS :: "string list" where
  "CREDENTIAL_HEADERS = [''authorization'', ''cookie'']"

datatype CacheStatus = Hit | Miss | Partial | Bypass

definition CacheStatus_as_str :: "CacheStatus \<Rightarrow> string" where
  "CacheStatus_as_str s =
    (case s of Hit \<Rightarrow> ''HIT'' | Miss \<Rightarrow> ''MISS'' | Partial \<Rightarrow> ''PARTIAL'' | Bypass \<Rightarrow> ''BYPASS'')"

definition classify :: "u32 \<Rightarrow> u32 \<Rightarrow> CacheStatus" where
  "classify resident tot =
    (if tot = 0 \<or> resident = tot then Hit else if resident = 0 then Miss else Partial)"

definition connection_named :: "headers \<Rightarrow> string list" where
  "connection_named hs =
    filter (\<lambda>s. s \<noteq> [])
      (map (\<lambda>s. to_ascii_lowercase (trim s))
        (concat (map (split (CHR '','')) (List.map_filter to_str (hget_all hs ''connection'')))))"

definition is_hop_by_hop :: "string \<Rightarrow> string list \<Rightarrow> bool" where
  "is_hop_by_hop name named =
    (let lower = to_ascii_lowercase name in lower \<in> set HOP_BY_HOP \<or> lower \<in> set named)"

definition forwardable :: "string list \<Rightarrow> string \<Rightarrow> bool" where
  "forwardable named name =
    (if is_hop_by_hop name named then False
     else if eq_ignore_ascii_case name ''host'' then False
     else if eq_ignore_ascii_case name ''range'' then False
     else if list_ex (\<lambda>h. eq_ignore_ascii_case name h) CREDENTIAL_HEADERS then False
     else True)"

definition forwarded_request_headers :: "headers \<Rightarrow> headers" where
  "forwarded_request_headers client =
    (let named = connection_named client
     in foldl (\<lambda>out (name, value). if forwardable named name then happend name value out else out) [] client)"

definition preserved_response_headers :: "headers \<Rightarrow> headers" where
  "preserved_response_headers upstream =
    foldl (\<lambda>out name. foldl (\<lambda>out value. happend name value out) out (hget_all upstream name)) [] PRESERVED_ENTITY"

definition add_cache_headers :: "headers \<Rightarrow> CacheStatus \<Rightarrow> string \<Rightarrow> headers" where
  "add_cache_headers hs status hostname =
    (let hs = hinsert ''x-cache'' [] hs;
         hs = hinsert ''x-cache'' (case header_value (CacheStatus_as_str status) of Some v \<Rightarrow> v | None \<Rightarrow> ''MISS'') hs
     in case header_value hostname of
          Some v \<Rightarrow> hinsert ''x-lancache-processed-by'' v hs
        | None \<Rightarrow> hs)"

section \<open>The heartbeat\<close>

definition HEARTBEAT_PATH :: string where "HEARTBEAT_PATH = ''/lancache-heartbeat''"

definition is_heartbeat :: "string \<Rightarrow> bool" where
  "is_heartbeat path \<longleftrightarrow> path = HEARTBEAT_PATH"

definition heartbeat_respond :: "nat \<times> headers \<Rightarrow> string \<Rightarrow> nat \<times> headers" where
  "heartbeat_respond builder hostname =
    (let hs = snd builder @ [(''access-control-allow-origin'', ''*''), (''access-control-allow-headers'', ''*''),
                             (''access-control-expose-headers'', ''*'')]
     in (204, case header_value hostname of
                Some v \<Rightarrow> happend ''x-lancache-processed-by'' v hs
              | None \<Rightarrow> hs))"

section \<open>Properties\<close>

lemma forwarded_filter:
  "forwarded_request_headers client = filter (\<lambda>h. forwardable (connection_named client) (fst h)) client"
proof -
  have "foldl (\<lambda>out (name, value). if forwardable named name then happend name value out else out) acc hs
      = acc @ filter (\<lambda>h. forwardable named (fst h)) hs" for named acc and hs :: headers
    by (induction hs arbitrary: acc) (auto simp: happend_def)
  then show ?thesis by (simp add: forwarded_request_headers_def)
qed

text \<open>Names are kept in lower case by the HTTP library.\<close>

definition lower_names :: "headers \<Rightarrow> bool" where
  "lower_names hs \<longleftrightarrow> list_all (\<lambda>h. to_ascii_lowercase (fst h) = fst h) hs"

lemma lowercase_literals:
  "to_ascii_lowercase ''host'' = ''host''" "to_ascii_lowercase ''range'' = ''range''"
  "to_ascii_lowercase ''authorization'' = ''authorization''" "to_ascii_lowercase ''cookie'' = ''cookie''"
  by code_simp+

lemma forwardable_lower:
  assumes "to_ascii_lowercase name = name"
  shows "forwardable named name \<longleftrightarrow>
    name \<notin> set HOP_BY_HOP \<union> set named \<union> {''host'', ''range'', ''authorization'', ''cookie''}"
  using assms
  by (auto simp: forwardable_def is_hop_by_hop_def eq_ignore_ascii_case_def CREDENTIAL_HEADERS_def lowercase_literals)

text \<open>
  C31: what an origin is sent. The forwarded headers are exactly the client's, in order, without the
  hop-by-hop ones, those its Connection header names, Host, Range and the credentials; nothing
  else is dropped and nothing is added.
\<close>

theorem forwarded_headers_exact:
  assumes "lower_names client"
  shows "forwarded_request_headers client =
    filter (\<lambda>(name, _). name \<notin> set HOP_BY_HOP \<union> set (connection_named client)
        \<union> {''host'', ''range'', ''authorization'', ''cookie''}) client"
proof -
  have "forwardable (connection_named client) (fst h) \<longleftrightarrow>
      fst h \<notin> set HOP_BY_HOP \<union> set (connection_named client) \<union> {''host'', ''range'', ''authorization'', ''cookie''}"
    if "h \<in> set client" for h
    using assms that by (intro forwardable_lower) (auto simp: lower_names_def list_all_iff)
  then show ?thesis
    unfolding forwarded_filter by (intro filter_cong) (auto simp: case_prod_beta)
qed

theorem forwarded_headers_exact_witness:
  "forwarded_request_headers
     [(''host'', ''h''), (''user-agent'', ''u''), (''connection'', ''close, X-Secret''), (''x-secret'', ''s''),
      (''cookie'', ''c''), (''if-none-match'', ''e'')]
   = [(''user-agent'', ''u''), (''if-none-match'', ''e'')]"
proof -
  let ?c = "[(''host'', ''h''), (''user-agent'', ''u''), (''connection'', ''close, X-Secret''), (''x-secret'', ''s''),
      (''cookie'', ''c''), (''if-none-match'', ''e'')]"
  have l: "lower_names ?c" by code_simp
  have n: "connection_named ?c = [''close'', ''x-secret'']" by code_simp
  show ?thesis
    unfolding forwarded_headers_exact [OF l] n by (simp add: HOP_BY_HOP_def)
qed

text \<open>
  A response is marked HIT, MISS or PARTIAL by how many of its slices were resident, and always
  carries exactly one X-Cache value.
\<close>

theorem cache_status_exact:
  "(classify resident tot = Hit \<longleftrightarrow> tot = 0 \<or> resident = tot)
   \<and> (classify resident tot = Miss \<longleftrightarrow> tot \<noteq> 0 \<and> resident = 0)
   \<and> (classify resident tot = Partial \<longleftrightarrow> tot \<noteq> 0 \<and> resident \<noteq> 0 \<and> resident \<noteq> tot)
   \<and> hget_all (add_cache_headers hs (classify resident tot) hostname) ''x-cache''
       = [CacheStatus_as_str (classify resident tot)]"
proof -
  have v: "header_value (CacheStatus_as_str s) = Some (CacheStatus_as_str s)" for s
    by (cases s) (simp_all add: CacheStatus_as_str_def header_value_def visible_ascii_def)
  have "hget_all (add_cache_headers hs s hostname) ''x-cache'' = [CacheStatus_as_str s]" for s
    by (auto simp: add_cache_headers_def v hget_all_def hinsert_def Let_def filter_empty_conv split: option.splits)
  then show ?thesis by (auto simp: classify_def)
qed

end
