(* ===== verification/Upstream_Client.thy ===== *)
theory Upstream_Client
  imports Upstream_Resolver Proxy_Headers "HOL-Library.Multiset"
begin

text \<open>
  \<open>upstream/client.rs\<close>: fetching from origins. The HTTP library is a parameter: sending a request is a
  function on an arbitrary state of the network, which gives a transport error or a response whose
  body is the list of the chunks it will yield; parsing a URL is a function as well. A response's
  status, headers and declared length are data. Semaphores are their available permits; a caller
  that finds none waits, which is the value None.
\<close>

section \<open>Data\<close>

definition DEFAULT_MAX_BODY_BYTES :: u64 where "DEFAULT_MAX_BODY_BYTES = 64 * 1024 * 1024"

definition RANGE_SLACK :: u64 where "RANGE_SLACK = 64 * 1024"

record ClientConfig =
  cc_connect_timeout :: u64
  cc_request_timeout :: u64
  cc_retries :: nat
  cc_max_inflight :: nat
  cc_per_service_inflight :: "(string \<times> nat) list"
  cc_max_body_bytes :: u64

definition ClientConfig_default :: ClientConfig where
  "ClientConfig_default =
    \<lparr>cc_connect_timeout = 10, cc_request_timeout = 120, cc_retries = 1, cc_max_inflight = 256,
     cc_per_service_inflight = [], cc_max_body_bytes = DEFAULT_MAX_BODY_BYTES\<rparr>"

record TransportError =
  te_is_connect :: bool
  te_is_timeout :: bool
  te_is_request :: bool

datatype UpstreamError =
    BodyTooLarge string u64
  | ClientBuild TransportError
  | Resolve ResolveError
  | RequestFailed string TransportError
  | Status string nat
  | Redirect string string

record UpstreamResponse =
  up_status :: nat
  up_headers :: headers
  up_body :: "u8 list"

definition response_header :: "UpstreamResponse \<Rightarrow> string \<Rightarrow> string option" where
  "response_header r name = Option.bind (hget (up_headers r) name) to_str"

definition parse_u64 :: "string \<Rightarrow> u64 option" where
  "parse_u64 s = parse_uint s"

definition content_length :: "UpstreamResponse \<Rightarrow> u64 option" where
  "content_length r = Option.bind (response_header r ''content-length'') (\<lambda>v. parse_u64 (trim v))"

definition content_range_total :: "UpstreamResponse \<Rightarrow> u64 option" where
  "content_range_total r =
    Option.bind (response_header r ''content-range'') (\<lambda>v.
    Option.bind (rsplit_once (CHR ''/'') v) (\<lambda>(_, t). parse_u64 (trim t)))"

text \<open>What the HTTP library is asked and what it answers.\<close>

record HttpBuilder =
  hb_connect_timeout :: u64
  hb_timeout :: u64
  hb_follow_redirects :: bool
  hb_dns :: UpstreamResolver

record HttpRequest =
  rq_url :: string
  rq_headers :: headers

record HttpResponse =
  hr_status :: nat
  hr_headers :: headers
  hr_content_length :: "u64 option"
  hr_chunks :: "(TransportError + u8 list) list"

type_synonym 'w http = "HttpRequest \<Rightarrow> 'w \<Rightarrow> (TransportError + HttpResponse) \<times> 'w"

record ParsedUrl =
  pu_host :: "string option"
  pu_port :: "u16 option"

definition is_redirection :: "nat \<Rightarrow> bool" where
  "is_redirection status \<longleftrightarrow> 300 \<le> status \<and> status < 400"

definition is_success :: "nat \<Rightarrow> bool" where
  "is_success status \<longleftrightarrow> 200 \<le> status \<and> status < 300"

record 'w UpstreamClient =
  uc_http :: "'w http"
  uc_resolver :: UpstreamResolver
  uc_inflight :: nat
  uc_per_service :: "string \<rightharpoonup> nat"
  uc_config :: ClientConfig

section \<open>Operations\<close>

definition UpstreamClient_new ::
  "(HttpBuilder \<Rightarrow> TransportError + 'w http) \<Rightarrow> UpstreamResolver \<Rightarrow> ClientConfig \<Rightarrow>
   UpstreamError + 'w UpstreamClient" where
  "UpstreamClient_new build resolver config =
    rbind (map_err ClientBuild (build
      \<lparr>hb_connect_timeout = cc_connect_timeout config, hb_timeout = cc_request_timeout config,
       hb_follow_redirects = False, hb_dns = resolver\<rparr>)) (\<lambda>http.
      Ok \<lparr>uc_http = http, uc_resolver = resolver, uc_inflight = cc_max_inflight config,
          uc_per_service = map_of (map (\<lambda>(service, limit). (service, max limit 1)) (cc_per_service_inflight config)),
          uc_config = config\<rparr>)"

text \<open>Checking a host counts a refusal in the resolver's metrics.\<close>

definition check_host :: "string \<Rightarrow> u16 \<Rightarrow> 'w UpstreamClient \<Rightarrow> (UpstreamError + unit) \<times> 'w UpstreamClient" where
  "check_host host port c =
    (case resolve_host (uc_resolver c) host port of
       (r, result) \<Rightarrow> (rbind (map_err Resolve result) (\<lambda>_. Ok ()), c\<lparr>uc_resolver := r\<rparr>))"

definition check_url ::
  "(string \<Rightarrow> ParsedUrl option) \<Rightarrow> string \<Rightarrow> 'w UpstreamClient \<Rightarrow> (UpstreamError + unit) \<times> 'w UpstreamClient" where
  "check_url url_parse url c =
    (case url_parse url of
       None \<Rightarrow> (Err (Status url 400), c)
     | Some parsed \<Rightarrow>
         let host = (case pu_host parsed of Some h \<Rightarrow> h | None \<Rightarrow> []);
             port = (case pu_port parsed of Some p \<Rightarrow> p | None \<Rightarrow> 80)
         in check_host host port c)"

definition service_permit :: "string \<Rightarrow> 'w UpstreamClient \<Rightarrow> (bool \<times> 'w UpstreamClient) option" where
  "service_permit service c =
    (case uc_per_service c service of
       None \<Rightarrow> Some (False, c)
     | Some available \<Rightarrow>
         if available = 0 then None
         else Some (True, c\<lparr>uc_per_service := (uc_per_service c)(service \<mapsto> available - 1)\<rparr>))"

definition global_permit :: "'w UpstreamClient \<Rightarrow> 'w UpstreamClient option" where
  "global_permit c = (if uc_inflight c = 0 then None else Some (c\<lparr>uc_inflight := uc_inflight c - 1\<rparr>))"

definition drop_service_permit :: "bool \<Rightarrow> string \<Rightarrow> 'w UpstreamClient \<Rightarrow> 'w UpstreamClient" where
  "drop_service_permit taken service c =
    (if taken then c\<lparr>uc_per_service := (uc_per_service c)(service := map_option Suc (uc_per_service c service))\<rparr>
     else c)"

definition drop_global_permit :: "'w UpstreamClient \<Rightarrow> 'w UpstreamClient" where
  "drop_global_permit c = c\<lparr>uc_inflight := Suc (uc_inflight c)\<rparr>"

definition available_permits :: "'w UpstreamClient \<Rightarrow> nat" where
  "available_permits c = uc_inflight c"

definition service_permits :: "'w UpstreamClient \<Rightarrow> string \<Rightarrow> nat option" where
  "service_permits c service = uc_per_service c service"

definition range_request :: "string \<Rightarrow> headers \<Rightarrow> u64 \<Rightarrow> u64 \<Rightarrow> HttpRequest" where
  "range_request url hs start finish =
    \<lparr>rq_url = url,
     rq_headers = (''range'', ''bytes='' @ show_nat (unat start) @ ''-'' @ show_nat (unat finish)) # hs\<rparr>"

definition location_of :: "HttpResponse \<Rightarrow> string" where
  "location_of response =
    (case Option.bind (hget (hr_headers response) ''location'') to_str of Some l \<Rightarrow> l | None \<Rightarrow> [])"

definition body_limit :: "u64 \<Rightarrow> u64 \<Rightarrow> u64 \<Rightarrow> u64" where
  "body_limit max_body start finish =
    (let expected = saturating_add (saturating_sub finish start) 1
     in min (saturating_add expected RANGE_SLACK) max_body)"

primrec read_chunks ::
  "string \<Rightarrow> u64 \<Rightarrow> (TransportError + u8 list) list \<Rightarrow> u8 list \<Rightarrow> UpstreamError + u8 list" where
  "read_chunks url limit [] body = Ok body"
| "read_chunks url limit (c # cs) body =
    (case c of
       Inr chunk \<Rightarrow>
         if unat limit < length body + length chunk then Err (BodyTooLarge url limit)
         else read_chunks url limit cs (body @ chunk)
     | Inl source \<Rightarrow> Err (RequestFailed url source))"

definition accept_range :: "u64 \<Rightarrow> string \<Rightarrow> u64 \<Rightarrow> u64 \<Rightarrow> HttpResponse \<Rightarrow> UpstreamError + UpstreamResponse" where
  "accept_range max_body url start finish response =
    (let status = hr_status response
     in if is_redirection status then Err (Redirect url (location_of response))
        else if \<not> is_success status then Err (Status url status)
        else if status \<noteq> 206 then Ok \<lparr>up_status = status, up_headers = hr_headers response, up_body = []\<rparr>
        else
          let limit = body_limit max_body start finish
          in case hr_content_length response of
               Some declared \<Rightarrow>
                 if limit < declared then Err (BodyTooLarge url limit)
                 else rbind (read_chunks url limit (hr_chunks response) []) (\<lambda>body.
                   Ok \<lparr>up_status = status, up_headers = hr_headers response, up_body = body\<rparr>)
             | None \<Rightarrow>
                 rbind (read_chunks url limit (hr_chunks response) []) (\<lambda>body.
                   Ok \<lparr>up_status = status, up_headers = hr_headers response, up_body = body\<rparr>))"

function fetch_attempts ::
  "'w UpstreamClient \<Rightarrow> string \<Rightarrow> headers \<Rightarrow> u64 \<Rightarrow> u64 \<Rightarrow> nat \<Rightarrow> 'w \<Rightarrow>
   (UpstreamError + UpstreamResponse) \<times> 'w" where
  "fetch_attempts c url hs start finish attempt w =
    (case uc_http c (range_request url hs start finish) w of
       (Inr response, w) \<Rightarrow> (accept_range (cc_max_body_bytes (uc_config c)) url start finish response, w)
     | (Inl source, w) \<Rightarrow>
         if attempt < cc_retries (uc_config c) \<and> (te_is_connect source \<or> te_is_timeout source)
         then fetch_attempts c url hs start finish (attempt + 1) w
         else (Err (RequestFailed url source), w))"
  by pat_completeness auto
termination
  by (relation "measure (\<lambda>(c, _, _, _, _, attempt, _). cc_retries (uc_config c) - attempt)") auto

declare fetch_attempts.simps [simp del]

text \<open>The whole fetch: guard, permits, attempts; the permits are dropped on return.\<close>

definition fetch_range ::
  "(string \<Rightarrow> ParsedUrl option) \<Rightarrow> string \<Rightarrow> string \<Rightarrow> headers \<Rightarrow> u64 \<Rightarrow> u64 \<Rightarrow> 'w UpstreamClient \<Rightarrow> 'w \<Rightarrow>
   ((UpstreamError + UpstreamResponse) \<times> 'w UpstreamClient \<times> 'w) option" where
  "fetch_range url_parse service url hs start finish c w =
    (case check_url url_parse url c of
       (Inl e, c) \<Rightarrow> Some (Err e, c, w)
     | (Inr _, c) \<Rightarrow>
         Option.bind (service_permit service c) (\<lambda>(taken, c).
         Option.bind (global_permit c) (\<lambda>c.
           case fetch_attempts c url hs start finish 0 w of (result, w) \<Rightarrow>
             Some (result, drop_service_permit taken service (drop_global_permit c), w))))"

definition accept_stream :: "string \<Rightarrow> HttpResponse \<Rightarrow> UpstreamError + headers \<times> (TransportError + u8 list) list" where
  "accept_stream url response =
    (let status = hr_status response
     in if is_redirection status then Err (Redirect url (location_of response))
        else if \<not> is_success status then Err (Status url status)
        else Ok (hr_headers response, hr_chunks response))"

definition fetch_stream ::
  "(string \<Rightarrow> ParsedUrl option) \<Rightarrow> string \<Rightarrow> string \<Rightarrow> headers \<Rightarrow> 'w UpstreamClient \<Rightarrow> 'w \<Rightarrow>
   ((UpstreamError + headers \<times> (TransportError + u8 list) list) \<times> 'w UpstreamClient \<times> 'w) option" where
  "fetch_stream url_parse service url hs c w =
    (case check_url url_parse url c of
       (Inl e, c) \<Rightarrow> Some (Err e, c, w)
     | (Inr _, c) \<Rightarrow>
         Option.bind (service_permit service c) (\<lambda>(taken, c).
           case uc_http c \<lparr>rq_url = url, rq_headers = hs\<rparr> w of
             (Inl source, w) \<Rightarrow> Some (Err (RequestFailed url source), drop_service_permit taken service c, w)
           | (Inr response, w) \<Rightarrow> Some (accept_stream url response, drop_service_permit taken service c, w)))"

section \<open>Fetching\<close>

lemma read_chunks_Ok:
  "read_chunks url limit cs body = Ok r \<longleftrightarrow>
   (\<exists>chunks. cs = map Inr chunks \<and> r = body @ concat chunks \<and> (cs = [] \<or> length r \<le> unat limit))"
proof (induction cs arbitrary: body)
  case (Cons c cs)
  show ?case
  proof (cases c)
    case (Inr chunk)
    show ?thesis
    proof (cases "unat limit < length body + length chunk")
      case True
      then show ?thesis using Inr by auto
    next
      case False
      have "read_chunks url limit (c # cs) body = Ok r \<longleftrightarrow> read_chunks url limit cs (body @ chunk) = Ok r"
        using Inr False by simp
      also have "\<dots> \<longleftrightarrow> (\<exists>chunks. cs = map Inr chunks \<and> r = (body @ chunk) @ concat chunks \<and> (cs = [] \<or> length r \<le> unat limit))"
        by (rule Cons.IH)
      also have "\<dots> \<longleftrightarrow> (\<exists>chunks. c # cs = map Inr chunks \<and> r = body @ concat chunks \<and> (c # cs = [] \<or> length r \<le> unat limit))"
        using Inr False by (auto simp: Cons_eq_map_conv)
      finally show ?thesis .
    qed
  next
    case (Inl e)
    then show ?thesis by auto
  qed
qed auto

lemma accept_range_Ok:
  assumes "accept_range max_body url start finish response = Ok r"
  shows "is_success (up_status r) \<and> up_headers r = hr_headers response \<and> up_status r = hr_status response
    \<and> (up_status r \<noteq> 206 \<longrightarrow> up_body r = [])
    \<and> (up_status r = 206 \<longrightarrow> (\<exists>chunks. hr_chunks response = map Inr chunks \<and> up_body r = concat chunks)
         \<and> length (up_body r) \<le> unat (body_limit max_body start finish))"
  using assms
  by (auto simp: accept_range_def Let_def rbind_Ok read_chunks_Ok split: if_splits option.splits)

lemma fetch_attempts_sends:
  "\<exists>n. attempt + n \<le> max attempt (cc_retries (uc_config c)) + 1 \<and> 0 < n
     \<and> snd (fetch_attempts c url hs start finish attempt w)
         = ((\<lambda>w. snd (uc_http c (range_request url hs start finish) w)) ^^ n) w
     \<and> (\<forall>r. fst (fetch_attempts c url hs start finish attempt w) = Ok r \<longrightarrow>
         (\<exists>w' response. fst (uc_http c (range_request url hs start finish) w') = Ok response
            \<and> accept_range (cc_max_body_bytes (uc_config c)) url start finish response = Ok r))"
proof (induction c url hs start finish attempt w rule: fetch_attempts.induct)
  case (1 c url hs start finish attempt w)
  let ?send = "uc_http c (range_request url hs start finish)"
  show ?case
  proof (cases "\<exists>e w'. ?send w = (Inl e, w') \<and> attempt < cc_retries (uc_config c) \<and> (te_is_connect e \<or> te_is_timeout e)")
    case True
    then obtain e w' where e: "?send w = (Inl e, w')" "attempt < cc_retries (uc_config c)" "te_is_connect e \<or> te_is_timeout e"
      by blast
    have f: "fetch_attempts c url hs start finish attempt w = fetch_attempts c url hs start finish (attempt + 1) w'"
      using e by (subst fetch_attempts.simps) simp
    obtain n where n: "attempt + 1 + n \<le> max (attempt + 1) (cc_retries (uc_config c)) + 1" "0 < n"
      "snd (fetch_attempts c url hs start finish (attempt + 1) w') = ((\<lambda>w. snd (?send w)) ^^ n) w'"
      "\<forall>r. fst (fetch_attempts c url hs start finish (attempt + 1) w') = Ok r \<longrightarrow>
         (\<exists>w' response. fst (?send w') = Ok response
            \<and> accept_range (cc_max_body_bytes (uc_config c)) url start finish response = Ok r)"
      using 1 [OF e(1) [symmetric] refl conjI [OF e(2,3)]] by auto
    have "((\<lambda>w. snd (?send w)) ^^ Suc n) w = ((\<lambda>w. snd (?send w)) ^^ n) w'"
      by (simp only: funpow_Suc_right o_apply e(1) snd_conv)
    then show ?thesis using n e(2) by (intro exI [of _ "Suc n"]) (auto simp: f)
  next
    case False
    then have "snd (fetch_attempts c url hs start finish attempt w) = snd (?send w)
      \<and> (\<forall>r. fst (fetch_attempts c url hs start finish attempt w) = Ok r \<longrightarrow>
           (\<exists>response. fst (?send w) = Ok response
            \<and> accept_range (cc_max_body_bytes (uc_config c)) url start finish response = Ok r))"
      by (subst (1 2) fetch_attempts.simps) (auto split: sum.splits prod.splits)
    then show ?thesis by (intro exI [of _ 1]) auto
  qed
qed

lemma permits_restored:
  assumes "service_permit service c = Some (taken, c1)" "global_permit c1 = Some c2"
  shows "drop_service_permit taken service (drop_global_permit c2) = c" "uc_http c2 = uc_http c" "uc_config c2 = uc_config c"
  using assms
  by (auto simp: service_permit_def global_permit_def drop_service_permit_def drop_global_permit_def fun_upd_idem
      split: option.splits if_splits)

lemma check_url_keeps:
  assumes "check_url url_parse url c = (r, c')"
  shows "uc_http c' = uc_http c" "uc_config c' = uc_config c" "uc_inflight c' = uc_inflight c"
    "uc_per_service c' = uc_per_service c"
  using assms by (auto simp: check_url_def check_host_def Let_def split: option.splits prod.splits)

lemma unat_body_limit:
  "unat (body_limit max_body start finish) \<le> unat max_body"
  "unat (body_limit max_body start finish) \<le> unat finish - unat start + 1 + 65536"
  by (simp_all add: body_limit_def Let_def RANGE_SLACK_def word_to_nat)

text \<open>
  C12: a ranged fetch is bounded and guarded. Whatever the network does: a host the guard refuses is
  sent nothing; at most one request more than the configured retries is sent; a result is never a
  redirect or an error status; its body is empty unless the status is 206, and then it is all the
  chunks received and no longer than the range asked for with the slack or the configured ceiling;
  and every permit taken is given back.
\<close>

theorem fetch_range_exact:
  assumes "fetch_range url_parse service url hs start finish c w = Some (result, c', w')"
  shows "uc_inflight c' = uc_inflight c \<and> uc_per_service c' = uc_per_service c
    \<and> (\<forall>e. fst (check_url url_parse url c) = Err e \<longrightarrow> result = Err e \<and> w' = w)
    \<and> (\<exists>n \<le> cc_retries (uc_config c) + 1.
         w' = ((\<lambda>w. snd (uc_http c (range_request url hs start finish) w)) ^^ n) w)
    \<and> (\<forall>r. result = Ok r \<longrightarrow>
         is_success (up_status r) \<and> (up_status r \<noteq> 206 \<longrightarrow> up_body r = [])
         \<and> length (up_body r) \<le> unat finish - unat start + 1 + 65536
         \<and> length (up_body r) \<le> unat (cc_max_body_bytes (uc_config c)))"
proof (cases "check_url url_parse url c")
  case (Pair checked c0)
  note k = check_url_keeps [OF Pair]
  show ?thesis
  proof (cases checked)
    case (Inl e)
    then have "result = Err e" "c' = c0" "w' = w" using assms Pair by (auto simp: fetch_range_def)
    then show ?thesis using k Pair Inl by (auto intro: exI [of _ 0])
  next
    case (Inr u)
    obtain taken c1 c2 where p: "service_permit service c0 = Some (taken, c1)" "global_permit c1 = Some c2"
      and f: "fetch_attempts c2 url hs start finish 0 w = (result, w')"
      and c': "c' = drop_service_permit taken service (drop_global_permit c2)"
      using assms Pair Inr by (auto simp: fetch_range_def bind_eq_Some_conv case_prod_beta prod_eq_iff)
    note r = permits_restored [OF p]
    obtain n where n: "n \<le> cc_retries (uc_config c) + 1"
      "w' = ((\<lambda>w. snd (uc_http c (range_request url hs start finish) w)) ^^ n) w"
      "\<forall>r. result = Ok r \<longrightarrow> (\<exists>w' response. fst (uc_http c (range_request url hs start finish) w') = Ok response
            \<and> accept_range (cc_max_body_bytes (uc_config c)) url start finish response = Ok r)"
      using fetch_attempts_sends [of 0 c2 url hs start finish w] f r k by auto
    have "is_success (up_status x) \<and> (up_status x \<noteq> 206 \<longrightarrow> up_body x = [])
         \<and> length (up_body x) \<le> unat (body_limit (cc_max_body_bytes (uc_config c)) start finish)"
      if "result = Ok x" for x
      using n(3) that accept_range_Ok by (cases "up_status x = 206") (fastforce)+
    then show ?thesis
      using n(1,2) r k c' Pair Inr unat_body_limit [of "cc_max_body_bytes (uc_config c)" start finish]
      by (auto intro: le_trans)
  qed
qed

text \<open>A network whose first request fails to connect and whose later ones answer 206 in two chunks.\<close>

definition flaky_http :: "nat http" where
  "flaky_http rq w =
    (if w = 0 then (Inl \<lparr>te_is_connect = True, te_is_timeout = False, te_is_request = True\<rparr>, 1)
     else (Inr \<lparr>hr_status = 206, hr_headers = [], hr_content_length = None, hr_chunks = [Inr [1], Inr [2, 3]]\<rparr>, w + 1))"

definition sample_client :: "nat UpstreamClient" where
  "sample_client =
    \<lparr>uc_http = flaky_http, uc_resolver = sample_resolver, uc_inflight = 1, uc_per_service = [''steam'' \<mapsto> 2],
     uc_config = ClientConfig_default\<rparr>"

definition sample_url_parse :: "string \<Rightarrow> ParsedUrl option" where
  "sample_url_parse url = Some \<lparr>pu_host = Some ''steam.com'', pu_port = None\<rparr>"

lemma sample_fetch:
  "fetch_range sample_url_parse ''steam'' ''u'' [] 0 2 sample_client 0
     = Some (Ok \<lparr>up_status = 206, up_headers = [], up_body = [1, 2, 3]\<rparr>, sample_client, 2)"
proof -
  have u: "check_url sample_url_parse ''u'' sample_client = (Ok (), sample_client)"
    by (simp add: check_url_def check_host_def sample_url_parse_def sample_client_def sample_resolution)
  have f: "fetch_attempts c ''u'' [] 0 2 0 0 = (Ok \<lparr>up_status = 206, up_headers = [], up_body = [1, 2, 3]\<rparr>, 2)"
    if "uc_http c = flaky_http" "uc_config c = ClientConfig_default" for c
    using that
    by (subst fetch_attempts.simps, subst fetch_attempts.simps)
      (simp add: flaky_http_def ClientConfig_default_def accept_range_def is_redirection_def is_success_def
        body_limit_def Let_def saturating_add_def saturating_sub_def RANGE_SLACK_def DEFAULT_MAX_BODY_BYTES_def)
  show ?thesis
    by (simp add: fetch_range_def u service_permit_def global_permit_def f drop_service_permit_def drop_global_permit_def)
      (simp add: sample_client_def f numeral_2_eq_2)
qed

theorem fetch_range_exact_witness:
  "fetch_range sample_url_parse ''steam'' ''u'' [] 0 2 sample_client 0
     = Some (Ok \<lparr>up_status = 206, up_headers = [], up_body = [1, 2, 3]\<rparr>, sample_client, 2)
   \<and> length [1, 2, 3 :: u8] \<le> unat (2 :: u64) - unat (0 :: u64) + 1 + 65536"
  using fetch_range_exact [OF sample_fetch] sample_fetch by simp

text \<open>
  The body ceiling also refuses good answers. For a range longer than the configured ceiling, an origin that
  answers 206 with exactly the bytes asked for, however chunked, is refused.
\<close>

theorem large_range_refused:
  assumes "start \<le> finish" and "unat max_body < unat finish - unat start + 1"
    and "hr_status response = 206" and "hr_chunks response = map Inr chunks"
    and "length (concat chunks) = unat finish - unat start + 1"
  shows "\<exists>limit. accept_range max_body url start finish response = Err (BodyTooLarge url limit)"
proof -
  let ?limit = "body_limit max_body start finish"
  have l: "unat ?limit < length (concat chunks)"
    using unat_body_limit(1) [of max_body start finish] assms(2,5) by linarith
  have "read_chunks url lim (map Inr cs) body = Err (BodyTooLarge url lim)"
    if "unat lim < length (body @ concat cs)" "length body \<le> unat lim" for lim cs and body :: "u8 list"
    using that by (induction cs arbitrary: body) (auto simp: not_less)
  from this [of ?limit "[]" chunks] l
  have "read_chunks url ?limit (hr_chunks response) [] = Err (BodyTooLarge url ?limit)"
    by (simp add: assms(4))
  then show ?thesis
    by (simp add: accept_range_def assms(3) is_redirection_def is_success_def Let_def split: option.splits)
qed

theorem large_range_refused_witness:
  "\<exists>limit. accept_range 2 ''u'' 0 2
     \<lparr>hr_status = 206, hr_headers = [], hr_content_length = Some 3, hr_chunks = map Inr [[1], [2, 3]]\<rparr>
     = Err (BodyTooLarge ''u'' limit)"
  by (rule large_range_refused [where chunks = "[[1], [2, 3]]"]) simp_all

section \<open>Permits of concurrent fetches\<close>

text \<open>A fetch waits for its service's permit, then for a global one, then runs; the flag says whether a
  service permit is held.\<close>

datatype fetch_phase = WantService string | WantGlobal bool string | Fetching bool string

inductive fetch_progress ::
  "'w UpstreamClient \<times> fetch_phase multiset \<Rightarrow> 'w UpstreamClient \<times> fetch_phase multiset \<Rightarrow> bool" where
  take_service:
    "service_permit service c = Some (taken, c') \<Longrightarrow>
     fetch_progress (c, add_mset (WantService service) ts) (c', add_mset (WantGlobal taken service) ts)"
| take_global:
    "global_permit c = Some c' \<Longrightarrow>
     fetch_progress (c, add_mset (WantGlobal taken service) ts) (c', add_mset (Fetching taken service) ts)"
| finish_fetch:
    "fetch_progress (c, add_mset (Fetching taken service) ts)
       (drop_service_permit taken service (drop_global_permit c), ts)"

inductive fetch_step ::
  "'w UpstreamClient \<times> fetch_phase multiset \<Rightarrow> 'w UpstreamClient \<times> fetch_phase multiset \<Rightarrow> bool" where
  new_fetch: "fetch_step (c, ts) (c, add_mset (WantService service) ts)"
| some_progress: "fetch_progress s s' \<Longrightarrow> fetch_step s s'"

fun running :: "fetch_phase \<Rightarrow> bool" where
  "running (Fetching _ _) = True"
| "running _ = False"

fun holds :: "string \<Rightarrow> fetch_phase \<Rightarrow> bool" where
  "holds s (WantGlobal taken service) \<longleftrightarrow> taken \<and> service = s"
| "holds s (Fetching taken service) \<longleftrightarrow> taken \<and> service = s"
| "holds s (WantService _) \<longleftrightarrow> False"

fun phase_work :: "fetch_phase \<Rightarrow> nat" where
  "phase_work (WantService _) = 3"
| "phase_work (WantGlobal _ _) = 2"
| "phase_work (Fetching _ _) = 1"

definition work :: "fetch_phase multiset \<Rightarrow> nat" where
  "work ts = (\<Sum>t\<in>#ts. phase_work t)"

definition service_limit :: "ClientConfig \<Rightarrow> string \<Rightarrow> nat option" where
  "service_limit config service = map_option (\<lambda>n. max n 1) (map_of (cc_per_service_inflight config) service)"

definition permits_held :: "string \<Rightarrow> fetch_phase multiset \<Rightarrow> nat" where
  "permits_held service ts = size (filter_mset (holds service) ts)"

lemma permits_held_simps [simp]:
  "permits_held service {#} = 0"
  "permits_held service (add_mset t ts) = (if holds service t then Suc (permits_held service ts) else permits_held service ts)"
  by (simp_all add: permits_held_def)

definition permits_inv :: "'w UpstreamClient \<times> fetch_phase multiset \<Rightarrow> bool" where
  "permits_inv s \<longleftrightarrow>
    (let c = fst s; ts = snd s
     in uc_inflight c + size (filter_mset running ts) = cc_max_inflight (uc_config c)
        \<and> (\<forall>service. map_option (\<lambda>a. a + permits_held service ts) (uc_per_service c service)
              = service_limit (uc_config c) service)
        \<and> (\<forall>service. uc_per_service c service = None \<longrightarrow> permits_held service ts = 0))"

lemma permits_inv_new:
  assumes "UpstreamClient_new build resolver config = Ok c"
  shows "permits_inv (c, {#})" "uc_config c = config"
proof -
  have "map_of (map (\<lambda>(service, limit). (service, max limit 1)) xs) s = map_option (\<lambda>n. max n 1) (map_of xs s)"
    for xs :: "(string \<times> nat) list" and s
    by (induction xs) auto
  then show "permits_inv (c, {#})" "uc_config c = config"
    using assms by (auto simp: UpstreamClient_new_def rbind_Ok permits_inv_def service_limit_def option.map_ident)
qed

lemma permits_inv_progress:
  assumes "fetch_progress s s'" "permits_inv s"
  shows "permits_inv s' \<and> uc_config (fst s') = uc_config (fst s) \<and> work (snd s') < work (snd s)"
  using assms
proof cases
  case (take_service service c taken c' ts)
  show ?thesis
  proof (cases "uc_per_service c service")
    case None
    then show ?thesis using take_service assms(2) by (auto simp: service_permit_def permits_inv_def work_def)
  next
    case (Some a)
    then have a: "a \<noteq> 0" "taken" "c' = c\<lparr>uc_per_service := (uc_per_service c)(service \<mapsto> a - 1)\<rparr>"
      using take_service by (auto simp: service_permit_def split: if_splits)
    have p: "map_option (\<lambda>a. a + permits_held x ts) (uc_per_service c x) = service_limit (uc_config c) x"
      "uc_per_service c x = None \<longrightarrow> permits_held x ts = 0" for x
      using assms(2) take_service by (auto simp: permits_inv_def)
    show ?thesis
      using assms(2) take_service a p [of service] p Some by (auto simp: permits_inv_def work_def)
  qed
next
  case (take_global c c' taken service ts)
  then have c': "0 < uc_inflight c" "c' = c\<lparr>uc_inflight := uc_inflight c - 1\<rparr>"
    by (auto simp: global_permit_def split: if_splits)
  have "permits_held x (add_mset (Fetching taken service) ts) = permits_held x (add_mset (WantGlobal taken service) ts)" for x
    by simp
  then show ?thesis
    using assms(2) take_global(1,2) c' by (simp add: permits_inv_def work_def Let_def del: permits_held_simps)
next
  case (finish_fetch c taken service ts)
  have p: "map_option (\<lambda>a. a + permits_held x (add_mset (Fetching taken service) ts)) (uc_per_service c x)
      = service_limit (uc_config c) x"
    "uc_per_service c x = None \<longrightarrow> permits_held x (add_mset (Fetching taken service) ts) = 0" for x
    using assms(2) finish_fetch by (auto simp: permits_inv_def)
  let ?c = "drop_service_permit taken service (drop_global_permit c)"
  have "map_option (\<lambda>a. a + permits_held x ts) (uc_per_service ?c x) = service_limit (uc_config c) x"
    "uc_per_service ?c x = None \<longrightarrow> permits_held x ts = 0" for x
    using p [of x]
    by (cases "uc_per_service c x"; auto simp: drop_service_permit_def drop_global_permit_def split: if_splits)+
  moreover have "uc_config ?c = uc_config c" "uc_inflight ?c = Suc (uc_inflight c)"
    by (simp_all add: drop_service_permit_def drop_global_permit_def)
  ultimately show ?thesis using assms(2) finish_fetch by (simp add: permits_inv_def work_def)
qed

lemma permits_inv_reachable:
  assumes "fetch_step\<^sup>*\<^sup>* s s'" "permits_inv s"
  shows "permits_inv s' \<and> uc_config (fst s') = uc_config (fst s)"
  using assms
proof (induction rule: rtranclp_induct)
  case (step s1 s2)
  from step(2) show ?case
  proof cases
    case (new_fetch c ts service)
    then show ?thesis using step by (auto simp: permits_inv_def)
  next
    case some_progress
    then show ?thesis using permits_inv_progress step by fastforce
  qed
qed simp

lemma some_fetch_can_move:
  assumes "permits_inv (c, ts)" "0 < cc_max_inflight (uc_config c)" "ts \<noteq> {#}"
  shows "\<exists>s'. fetch_progress (c, ts) s'"
proof (cases "\<exists>t \<in># ts. running t")
  case True
  then obtain taken service where "Fetching taken service \<in># ts" by (metis running.elims(2))
  then obtain ts' where "ts = add_mset (Fetching taken service) ts'" by (metis mset_add)
  then show ?thesis using finish_fetch by blast
next
  case False
  then have none: "filter_mset running ts = {#}" by (auto simp: filter_mset_eq_conv)
  have "0 < uc_inflight c" using assms(1,2) by (simp add: permits_inv_def none)
  then obtain c' where g: "global_permit c = Some c'" by (simp add: global_permit_def)
  show ?thesis
  proof (cases "\<exists>taken service. WantGlobal taken service \<in># ts")
    case True
    then obtain taken service ts' where "ts = add_mset (WantGlobal taken service) ts'" by (metis mset_add)
    then show ?thesis using take_global [OF g] by blast
  next
    case no_global: False
    obtain t where t: "t \<in># ts" using assms(3) by blast
    then obtain service where w: "t = WantService service"
      using False no_global by (cases t) auto
    have "\<not> holds service x" if "x \<in># ts" for x using that False no_global by (cases x) auto
    then have "permits_held service ts = 0" by (auto simp: permits_held_def)
    then have "uc_per_service c service = service_limit (uc_config c) service"
      using assms(1) by (auto simp: permits_inv_def option.map_ident dest!: spec [of _ service])
    then have "uc_per_service c service \<noteq> Some 0" by (auto simp: service_limit_def)
    then obtain taken c1 where "service_permit service c = Some (taken, c1)"
      by (cases "uc_per_service c service") (auto simp: service_permit_def)
    moreover obtain ts' where "ts = add_mset (WantService service) ts'" using t w by (metis mset_add)
    ultimately show ?thesis using take_service by blast
  qed
qed



end
