(* ===== verification/Config_Main.thy ===== *)
theory Config_Main
  imports Config_Guard Config_Rules Rust_Net
begin

text \<open>
  \<open>config/mod.rs\<close>: the settings, their validation before anything is opened, and the preparation of
  a start. Reading the command line and the environment is the argument parser's; the sizes and
  durations it reads go through the modelled unit parsers.
\<close>

section \<open>Settings\<close>

datatype LogFormat = Json | Lancache

record Config =
  cf_cache_disk_size :: u64
  cf_cache_mem_size :: u64
  cf_cache_max_age :: u64
  cf_cache_slice_size :: u64
  cf_cache_direct_io :: bool
  cf_cache_flushers :: nat
  cf_cache_buffer_pool :: u64
  cf_cache_data_dir :: string
  cf_min_free_disk :: u64
  cf_force_config :: bool
  cf_http_port :: u16
  cf_https_port :: u16
  cf_admin_port :: u16
  cf_max_connections_per_peer :: u64
  cf_admin_bind :: IpAddr
  cf_upstream_dns :: "IpAddr list"
  cf_upstream_max_inflight :: nat
  cf_stale_on_error :: bool
  cf_readahead_slices :: nat
  cf_allow_private_upstreams :: bool
  cf_passthrough_unknown_hosts :: bool
  cf_cache_domains_repo :: string
  cf_cache_domains_refresh :: u64
  cf_cache_domains_dir :: "string option"
  cf_rules_file :: "string option"
  cf_log_format :: LogFormat
  cf_log_level :: string
  cf_admin_token :: string

datatype Requirement =
    AtLeastOneFlusher | FourSlicesOfPool | AtLeast4KiB | PowerOfTwo | AtMost4GiB | AtLeastOneSliceAhead
  | AtLeastOneFetch | AtLeastOneResolver | AdminPortApart | HttpsPortApart

datatype ConfigError =
    Invalid string string Requirement
  | Ordering string string string string
  | Guard GuardError
  | BadRules RulesError

definition Config_stored :: "Config \<Rightarrow> StoredConfig" where
  "Config_stored c = \<lparr>sc_slice_size = cf_cache_slice_size c, sc_store_format_version = STORE_FORMAT_VERSION\<rparr>"

definition MIN_SLICE_SIZE :: u64 where "MIN_SLICE_SIZE = 4096"

definition validate :: "Config \<Rightarrow> ConfigError + unit" where
  "validate c =
    (if cf_cache_flushers c = 0 then
       Err (Invalid ''CACHE_FLUSHERS'' (show_nat (cf_cache_flushers c)) AtLeastOneFlusher)
     else if cf_cache_buffer_pool c < saturating_mul (cf_cache_slice_size c) 4 then
       Err (Invalid ''CACHE_BUFFER_POOL'' (format_size (cf_cache_buffer_pool c)) FourSlicesOfPool)
     else if cf_cache_slice_size c < MIN_SLICE_SIZE then
       Err (Invalid ''CACHE_SLICE_SIZE'' (format_size (cf_cache_slice_size c)) AtLeast4KiB)
     else if cf_cache_slice_size c = 0 \<or> \<not> is_power_of_two (cf_cache_slice_size c) then
       Err (Invalid ''CACHE_SLICE_SIZE'' (format_size (cf_cache_slice_size c)) PowerOfTwo)
     else if ucast (- 1 :: u32) < cf_cache_slice_size c then
       Err (Invalid ''CACHE_SLICE_SIZE'' (format_size (cf_cache_slice_size c)) AtMost4GiB)
     else if cf_cache_disk_size c < cf_cache_slice_size c then
       Err (Ordering ''CACHE_SLICE_SIZE'' (format_size (cf_cache_slice_size c))
                     ''CACHE_DISK_SIZE'' (format_size (cf_cache_disk_size c)))
     else if cf_cache_mem_size c < cf_cache_slice_size c then
       Err (Ordering ''CACHE_SLICE_SIZE'' (format_size (cf_cache_slice_size c))
                     ''CACHE_MEM_SIZE'' (format_size (cf_cache_mem_size c)))
     else if cf_readahead_slices c = 0 then Err (Invalid ''READAHEAD_SLICES'' ''0'' AtLeastOneSliceAhead)
     else if cf_upstream_max_inflight c = 0 then Err (Invalid ''UPSTREAM_MAX_INFLIGHT'' ''0'' AtLeastOneFetch)
     else if cf_upstream_dns c = [] then Err (Invalid ''UPSTREAM_DNS'' ''empty'' AtLeastOneResolver)
     else if cf_http_port c = cf_admin_port c \<or> cf_https_port c = cf_admin_port c then
       Err (Invalid ''ADMIN_PORT'' (show_nat (unat (cf_admin_port c))) AdminPortApart)
     else if cf_http_port c = cf_https_port c then
       Err (Invalid ''HTTPS_PORT'' (show_nat (unat (cf_https_port c))) HttpsPortApart)
     else Ok ())"

text \<open>The preparation: validation, the guard of the cache directory (what it writes is returned), and the
  rules file; what the file system holds is an argument.\<close>

definition Rules_default :: Rules where
  "Rules_default = \<lparr>ru_defaults = ServiceRule_default, ru_services = []\<rparr>"

definition prepare ::
  "read_result \<Rightarrow> string + unit \<Rightarrow> string + unit \<Rightarrow> (string \<Rightarrow> string + Rules) \<Rightarrow> (string \<Rightarrow> string + string) \<Rightarrow>
   Config \<Rightarrow> string option \<times> (ConfigError + Rules)" where
  "prepare guard_file create_dir write toml read_file c =
    (case validate c of
       Inl e \<Rightarrow> (None, Err e)
     | Inr _ \<Rightarrow>
         (case check guard_file create_dir write (Config_stored c) (cf_force_config c) of
            (written, Inl e) \<Rightarrow> (written, Err (Guard e))
          | (written, Inr _) \<Rightarrow>
              (written,
               case cf_rules_file c of
                 Some path \<Rightarrow> map_err BadRules (Rules_load toml (read_file path))
               | None \<Rightarrow> Ok Rules_default)))"

definition readahead_bytes_per_connection :: "Config \<Rightarrow> u64" where
  "readahead_bytes_per_connection c = cf_cache_slice_size c * of_nat (cf_readahead_slices c)"

section \<open>Properties\<close>

lemma validate_Ok:
  "validate c = Ok () \<longleftrightarrow>
     cf_cache_flushers c \<noteq> 0 \<and> saturating_mul (cf_cache_slice_size c) 4 \<le> cf_cache_buffer_pool c
     \<and> MIN_SLICE_SIZE \<le> cf_cache_slice_size c \<and> is_power_of_two (cf_cache_slice_size c)
     \<and> cf_cache_slice_size c \<le> ucast (- 1 :: u32) \<and> cf_cache_slice_size c \<le> cf_cache_disk_size c
     \<and> cf_cache_slice_size c \<le> cf_cache_mem_size c \<and> cf_readahead_slices c \<noteq> 0
     \<and> cf_upstream_max_inflight c \<noteq> 0 \<and> cf_upstream_dns c \<noteq> []
     \<and> distinct [cf_http_port c, cf_https_port c, cf_admin_port c]"
  by (auto simp: validate_def MIN_SLICE_SIZE_def not_less)

lemma is_power_of_two_range:
  assumes "is_power_of_two (s :: u64)" "4096 \<le> s" "s \<le> 4294967295"
  shows "\<exists>k \<in> {12..31}. unat s = 2 ^ k"
proof -
  obtain k where k: "k < 64" "unat s = 2 ^ k" using assms(1) by (auto simp: is_power_of_two_iff)
  have "2 ^ 12 \<le> (2 :: nat) ^ k" "(2 :: nat) ^ k < 2 ^ 32"
    using assms(2,3) k(2) by (simp_all add: word_le_nat_alt)
  then have "12 \<le> k" "k < 32" by (simp_all only: power_increasing_iff power_strict_increasing_iff one_less_numeral_iff semiring_norm)
  then show ?thesis using k(2) by auto
qed

text \<open>
  A configuration that validates works. It validates exactly when: the slice size is a power of two
  between 4 KiB and 2 GiB, which a 32-bit number holds without loss; memory, disk and, four times
  over, the flush pool hold a slice; there are flushers, read-ahead, fetches and resolvers; and the three
  ports differ.
\<close>

theorem validated_config_works:
  "validate c = Ok () \<longleftrightarrow>
     (\<exists>k \<in> {12..31}. unat (cf_cache_slice_size c) = 2 ^ k \<and> unat (ucast (cf_cache_slice_size c) :: u32) = 2 ^ k
        \<and> 4 * 2 ^ k \<le> unat (cf_cache_buffer_pool c)
        \<and> 2 ^ k \<le> unat (cf_cache_disk_size c) \<and> 2 ^ k \<le> unat (cf_cache_mem_size c))
     \<and> 0 < cf_cache_flushers c \<and> 0 < cf_readahead_slices c \<and> 0 < cf_upstream_max_inflight c
     \<and> cf_upstream_dns c \<noteq> [] \<and> distinct [cf_http_port c, cf_https_port c, cf_admin_port c]"
  (is "_ \<longleftrightarrow> (\<exists>k \<in> _. ?size k) \<and> ?rest")
proof -
  let ?s = "cf_cache_slice_size c"
  have "MIN_SLICE_SIZE \<le> ?s \<and> is_power_of_two ?s \<and> ?s \<le> ucast (- 1 :: u32)
      \<longleftrightarrow> (\<exists>k \<in> {12..31}. unat ?s = 2 ^ k)" (is "?l \<longleftrightarrow> ?r")
  proof
    assume ?l
    then show ?r using is_power_of_two_range [of ?s] by (simp add: MIN_SLICE_SIZE_def)
  next
    assume ?r
    then obtain k where k: "12 \<le> k" "k \<le> 31" "unat ?s = 2 ^ k" by auto
    have "(2 :: nat) ^ 12 \<le> 2 ^ k" "(2 :: nat) ^ k \<le> 2 ^ 31" using k by (intro power_increasing; simp)+
    then show ?l
      using k by (auto simp: MIN_SLICE_SIZE_def word_le_nat_alt is_power_of_two_iff intro!: exI [of _ k])
  qed
  moreover have "?size k \<longleftrightarrow> saturating_mul ?s 4 \<le> cf_cache_buffer_pool c \<and> ?s \<le> cf_cache_disk_size c \<and> ?s \<le> cf_cache_mem_size c"
    if k: "k \<le> 31" "unat ?s = 2 ^ k" for k
  proof -
    have p: "(2 :: nat) ^ k \<le> 2 ^ 31" using k by (intro power_increasing) simp_all
    then have "unat (saturating_mul ?s 4) = 4 * 2 ^ k" "unat (ucast ?s :: u32) = 2 ^ k"
      using k by (simp_all add: word_to_nat)
    then show ?thesis using k by (simp add: word_le_nat_alt)
  qed
  ultimately show ?thesis unfolding validate_Ok by auto
qed

text \<open>The start is refused before the cache directory is touched when validation fails.\<close>

lemma prepare_validates_first:
  "validate c = Err e \<Longrightarrow> prepare guard_file create_dir write toml read_file c = (None, Err e)"
  by (simp add: prepare_def)

end
