(* ===== verification/Store_Hybrid.thy ===== *)
theory Store_Hybrid
  imports Store_Slice Config_Main
begin

text \<open>
  \<open>store/hybrid.rs\<close> and \<open>store/space.rs\<close>: the slice store and the free-space guard. The cache engine foyer is
  not part of the sources: it is a record of the operations the store calls (\<open>foyer\<close>), an argument of
  everything here, and \<open>foyer_ok\<close> says what its documentation promises: a read returns what was
  last inserted under its key or nothing, since an entry may be evicted or its write dropped at any
  time; \<open>get_or_fetch\<close> runs the fetch only when it returns no stored entry, and then returns and
  keeps what was fetched. A fetch acts on an environment of the caller's choice.

  The locale \<open>slice_cache\<close> is the contract the orchestrator uses.
\<close>

section \<open>Configuration\<close>

definition DEFAULT_FLUSHERS :: nat where "DEFAULT_FLUSHERS = 4"
definition DEFAULT_BUFFER_POOL :: nat where "DEFAULT_BUFFER_POOL = 128 * 1024 * 1024"
definition DEFAULT_BLOCK_SIZE :: nat where "DEFAULT_BLOCK_SIZE = 64 * 1024 * 1024"

record StoreConfig =
  st_memory_bytes :: nat
  st_disk_bytes :: nat
  st_block_bytes :: nat
  st_flushers :: nat
  st_buffer_pool_bytes :: nat
  st_direct_io :: bool

definition StoreConfig_default :: StoreConfig where
  "StoreConfig_default =
    \<lparr>st_memory_bytes = 2 * 1024 * 1024 * 1024, st_disk_bytes = 1000 * 1024 * 1024 * 1024,
     st_block_bytes = DEFAULT_BLOCK_SIZE, st_flushers = DEFAULT_FLUSHERS,
     st_buffer_pool_bytes = DEFAULT_BUFFER_POOL, st_direct_io = False\<rparr>"

definition StoreConfig_from_config :: "Config \<Rightarrow> StoreConfig" where
  "StoreConfig_from_config c =
    \<lparr>st_memory_bytes = unat (cf_cache_mem_size c), st_disk_bytes = unat (cf_cache_disk_size c),
     st_block_bytes = max DEFAULT_BLOCK_SIZE (unat (cf_cache_slice_size c * 4)),
     st_flushers = cf_cache_flushers c, st_buffer_pool_bytes = unat (cf_cache_buffer_pool c),
     st_direct_io = cf_cache_direct_io c\<rparr>"

datatype StoreError = Directory string string | Open string | Fetch string

section \<open>The engine and the store\<close>

record ('s, 'e) foyer =
  fo_get :: "'s \<Rightarrow> SliceKey \<Rightarrow> (string + SliceValue option) \<times> 's"
  fo_get_or_fetch :: "'s \<Rightarrow> SliceKey \<Rightarrow> ('e \<Rightarrow> (string + SliceValue) \<times> 'e) \<Rightarrow> 'e \<Rightarrow> (string + SliceValue) \<times> 's \<times> 'e"
  fo_contains :: "'s \<Rightarrow> SliceKey \<Rightarrow> bool"
  fo_insert :: "'s \<Rightarrow> SliceKey \<Rightarrow> SliceValue \<Rightarrow> 's"
  fo_remove :: "'s \<Rightarrow> SliceKey \<Rightarrow> 's"
  fo_close :: "'s \<Rightarrow> string + 's"
  fo_view :: "'s \<Rightarrow> SliceKey \<rightharpoonup> SliceValue"

definition foyer_get_ok :: "('s, 'e) foyer \<Rightarrow> bool" where
  "foyer_get_ok F \<longleftrightarrow>
    (\<forall>s k r s'. fo_get F s k = (r, s') \<longrightarrow>
       fo_view F s' \<subseteq>\<^sub>m fo_view F s \<and> (\<forall>v. r = Ok (Some v) \<longrightarrow> fo_view F s k = Some v))"

definition foyer_fetch_ok :: "('s, 'e) foyer \<Rightarrow> bool" where
  "foyer_fetch_ok F \<longleftrightarrow>
    (\<forall>s k f e r s' e'. fo_get_or_fetch F s k f e = (r, s', e') \<longrightarrow>
       (e' = e \<and> fo_view F s' \<subseteq>\<^sub>m fo_view F s \<and> (\<forall>v. r = Ok v \<longrightarrow> fo_view F s k = Some v))
       \<or> (\<exists>x. f e = (Err x, e') \<and> fo_view F s' \<subseteq>\<^sub>m fo_view F s \<and> (\<exists>text. r = Err text))
       \<or> (\<exists>v. f e = (Ok v, e') \<and> fo_view F s' \<subseteq>\<^sub>m (fo_view F s)(k \<mapsto> v) \<and> r = Ok v))"

definition foyer_write_ok :: "('s, 'e) foyer \<Rightarrow> bool" where
  "foyer_write_ok F \<longleftrightarrow>
    (\<forall>s k v. fo_view F (fo_insert F s k v) \<subseteq>\<^sub>m (fo_view F s)(k \<mapsto> v))
    \<and> (\<forall>s k. fo_view F (fo_remove F s k) \<subseteq>\<^sub>m (fo_view F s)(k := None))
    \<and> (\<forall>s s'. fo_close F s = Ok s' \<longrightarrow> fo_view F s' \<subseteq>\<^sub>m fo_view F s)"

definition foyer_ok :: "('s, 'e) foyer \<Rightarrow> bool" where
  "foyer_ok F \<longleftrightarrow> foyer_get_ok F \<and> foyer_fetch_ok F \<and> foyer_write_ok F"

lemma foyer_laws:
  assumes "foyer_ok F"
  shows foyer_get: "fo_get F s k = (r, s') \<Longrightarrow>
      fo_view F s' \<subseteq>\<^sub>m fo_view F s \<and> (\<forall>v. r = Ok (Some v) \<longrightarrow> fo_view F s k = Some v)"
    and foyer_fetch: "fo_get_or_fetch F s k f e = (q, s', e') \<Longrightarrow>
       (e' = e \<and> fo_view F s' \<subseteq>\<^sub>m fo_view F s \<and> (\<forall>v. q = Ok v \<longrightarrow> fo_view F s k = Some v))
       \<or> (\<exists>x. f e = (Err x, e') \<and> fo_view F s' \<subseteq>\<^sub>m fo_view F s \<and> (\<exists>text. q = Err text))
       \<or> (\<exists>v. f e = (Ok v, e') \<and> fo_view F s' \<subseteq>\<^sub>m (fo_view F s)(k \<mapsto> v) \<and> q = Ok v)"
    and foyer_insert: "fo_view F (fo_insert F s k v) \<subseteq>\<^sub>m (fo_view F s)(k \<mapsto> v)"
proof -
  have l: "foyer_get_ok F" "foyer_fetch_ok F" "foyer_write_ok F" using assms by (simp_all add: foyer_ok_def)
  show "fo_view F s' \<subseteq>\<^sub>m fo_view F s \<and> (\<forall>v. r = Ok (Some v) \<longrightarrow> fo_view F s k = Some v)"
    if "fo_get F s k = (r, s')"
    by (rule l(1) [unfolded foyer_get_ok_def, THEN spec, THEN spec, THEN spec, THEN spec, THEN mp, OF that])
  show "(e' = e \<and> fo_view F s' \<subseteq>\<^sub>m fo_view F s \<and> (\<forall>v. q = Ok v \<longrightarrow> fo_view F s k = Some v))
       \<or> (\<exists>x. f e = (Err x, e') \<and> fo_view F s' \<subseteq>\<^sub>m fo_view F s \<and> (\<exists>text. q = Err text))
       \<or> (\<exists>v. f e = (Ok v, e') \<and> fo_view F s' \<subseteq>\<^sub>m (fo_view F s)(k \<mapsto> v) \<and> q = Ok v)"
    if "fo_get_or_fetch F s k f e = (q, s', e')"
    by (rule l(2) [unfolded foyer_fetch_ok_def, THEN spec, THEN spec, THEN spec, THEN spec, THEN spec, THEN spec,
          THEN spec, THEN mp, OF that])
  show "fo_view F (fo_insert F s k v) \<subseteq>\<^sub>m (fo_view F s)(k \<mapsto> v)"
    using l(3) by (simp add: foyer_write_ok_def)
qed

record ('s, 'e) SliceStore =
  ss_ops :: "('s, 'e) foyer"
  ss_state :: 's

text \<open>What the engine is built from: the device and the tiers. The weight of an entry is its encoded key
  and its payload.\<close>

record EngineConfig =
  en_dir :: string
  en_capacity :: nat
  en_direct :: bool
  en_metrics :: bool
  en_memory :: nat
  en_weighter :: "SliceKey \<Rightarrow> SliceValue \<Rightarrow> nat"
  en_write_on_insertion :: bool
  en_flush_on_close :: bool
  en_block_size :: nat
  en_flushers :: nat
  en_buffer_pool :: nat

definition open_with_metrics ::
  "('s, 'e) foyer \<Rightarrow> (EngineConfig \<Rightarrow> string + 's) \<Rightarrow> (string \<Rightarrow> string + unit) \<Rightarrow> string \<Rightarrow> StoreConfig \<Rightarrow> bool \<Rightarrow>
   StoreError + ('s, 'e) SliceStore" where
  "open_with_metrics F build create_dir_all dir config registry =
    rbind (map_err (Directory dir) (create_dir_all dir)) (\<lambda>_.
      rbind (map_err Open (build
        \<lparr>en_dir = dir, en_capacity = st_disk_bytes config, en_direct = st_direct_io config, en_metrics = registry,
         en_memory = st_memory_bytes config, en_weighter = (\<lambda>k v. 16 + 4 + 4 + length (sv_payload v)),
         en_write_on_insertion = True, en_flush_on_close = True, en_block_size = st_block_bytes config,
         en_flushers = st_flushers config, en_buffer_pool = st_buffer_pool_bytes config\<rparr>)) (\<lambda>inner.
        Ok \<lparr>ss_ops = F, ss_state = inner\<rparr>))"

definition store_open ::
  "('s, 'e) foyer \<Rightarrow> (EngineConfig \<Rightarrow> string + 's) \<Rightarrow> (string \<Rightarrow> string + unit) \<Rightarrow> string \<Rightarrow> StoreConfig \<Rightarrow>
   StoreError + ('s, 'e) SliceStore" where
  "store_open F build create_dir_all dir config = open_with_metrics F build create_dir_all dir config False"

definition store_get_or_fetch ::
  "('s, 'e) SliceStore \<Rightarrow> SliceKey \<Rightarrow> ('e \<Rightarrow> (string + SliceValue) \<times> 'e) \<Rightarrow> 'e \<Rightarrow>
   (StoreError + SliceValue) \<times> ('s, 'e) SliceStore \<times> 'e" where
  "store_get_or_fetch st key fetch e =
    (case fo_get_or_fetch (ss_ops st) (ss_state st) key fetch e of
       (r, s, e) \<Rightarrow> (map_err Fetch r, st\<lparr>ss_state := s\<rparr>, e))"

definition store_get ::
  "('s, 'e) SliceStore \<Rightarrow> SliceKey \<Rightarrow> (StoreError + SliceValue option) \<times> ('s, 'e) SliceStore" where
  "store_get st key =
    (case fo_get (ss_ops st) (ss_state st) key of (r, s) \<Rightarrow> (map_err Fetch r, st\<lparr>ss_state := s\<rparr>))"

definition store_contains :: "('s, 'e) SliceStore \<Rightarrow> SliceKey \<Rightarrow> bool" where
  "store_contains st key = fo_contains (ss_ops st) (ss_state st) key"

definition store_insert :: "('s, 'e) SliceStore \<Rightarrow> SliceKey \<Rightarrow> SliceValue \<Rightarrow> ('s, 'e) SliceStore" where
  "store_insert st key val = st\<lparr>ss_state := fo_insert (ss_ops st) (ss_state st) key val\<rparr>"

definition store_remove :: "('s, 'e) SliceStore \<Rightarrow> SliceKey \<Rightarrow> ('s, 'e) SliceStore" where
  "store_remove st key = st\<lparr>ss_state := fo_remove (ss_ops st) (ss_state st) key\<rparr>"

definition store_close :: "('s, 'e) SliceStore \<Rightarrow> StoreError + ('s, 'e) SliceStore" where
  "store_close st = rbind (map_err Fetch (fo_close (ss_ops st) (ss_state st))) (\<lambda>s. Ok (st\<lparr>ss_state := s\<rparr>))"

definition store_view :: "('s, 'e) SliceStore \<Rightarrow> SliceKey \<rightharpoonup> SliceValue" where
  "store_view st = fo_view (ss_ops st) (ss_state st)"

definition store_inv :: "('s, 'e) SliceStore \<Rightarrow> bool" where
  "store_inv st \<longleftrightarrow> foyer_ok (ss_ops st)"

section \<open>The contract of a cache\<close>

text \<open>
  A cache may forget but does not invent: whatever holds of every entry put in holds of every entry
  that comes out.
\<close>

locale fetch_cache =
  fixes inv :: "'c \<Rightarrow> bool"
    and held :: "'c \<Rightarrow> 'k \<rightharpoonup> 'v"
    and get_or_fetch :: "'c \<Rightarrow> 'k \<Rightarrow> ('e \<Rightarrow> ('y + 'v) \<times> 'e) \<Rightarrow> 'e \<Rightarrow> ('x + 'v) \<times> 'c \<times> 'e"
  assumes fetch_law: "inv c \<Longrightarrow> get_or_fetch c k f e = (q, c', e') \<Longrightarrow> inv c' \<and>
      ((e' = e \<and> held c' \<subseteq>\<^sub>m held c \<and> (\<forall>v. q = Ok v \<longrightarrow> held c k = Some v))
       \<or> (\<exists>x. f e = (Err x, e') \<and> held c' \<subseteq>\<^sub>m held c \<and> (\<exists>y. q = Err y))
       \<or> (\<exists>v. f e = (Ok v, e') \<and> held c' \<subseteq>\<^sub>m (held c)(k \<mapsto> v) \<and> q = Ok v))"
begin

definition sound :: "('k \<Rightarrow> 'v \<Rightarrow> bool) \<Rightarrow> 'c \<Rightarrow> bool" where
  "sound P c \<longleftrightarrow> inv c \<and> (\<forall>k v. held c k = Some v \<longrightarrow> P k v)"

lemma sound_mono:
  assumes "sound P c" "inv c'" "held c' \<subseteq>\<^sub>m held c"
  shows "sound P c'"
  using assms by (fastforce simp: sound_def map_le_def dom_def)

lemma sound_upd:
  assumes "sound P c" "inv c'" "held c' \<subseteq>\<^sub>m (held c)(k \<mapsto> v)" "P k v"
  shows "sound P c'"
  unfolding sound_def
proof (intro conjI allI impI)
  fix k' v' assume "held c' k' = Some v'"
  then have "((held c)(k \<mapsto> v)) k' = Some v'" using assms(3) by (auto simp: map_le_def dom_def)
  then show "P k' v'" using assms(1,4) by (auto simp: sound_def split: if_splits)
qed (rule assms(2))

lemma fetch_sound:
  assumes "sound P c" "get_or_fetch c k f e = (r, c', e')" "\<And>v e'. f e = (Ok v, e') \<Longrightarrow> P k v"
  shows "sound P c'" and "r = Ok v \<Longrightarrow> P k v"
proof -
  have i: "inv c" using assms(1) by (simp add: sound_def)
  note l = fetch_law [OF i assms(2)]
  show "sound P c'"
    using l sound_mono [OF assms(1), of c'] sound_upd [OF assms(1), of c' k] assms(3) by blast
  show "P k v" if "r = Ok v"
    using l that assms(1,3) by (auto simp: sound_def)
qed

end

text \<open>A cache that is also read and written directly.\<close>

locale slice_cache = fetch_cache inv held get_or_fetch
  for inv :: "'c \<Rightarrow> bool"
    and held :: "'c \<Rightarrow> 'k \<rightharpoonup> 'v"
    and get_or_fetch :: "'c \<Rightarrow> 'k \<Rightarrow> ('e \<Rightarrow> ('y + 'v) \<times> 'e) \<Rightarrow> 'e \<Rightarrow> ('x + 'v) \<times> 'c \<times> 'e" +
  fixes get :: "'c \<Rightarrow> 'k \<Rightarrow> ('x + 'v option) \<times> 'c"
    and insert :: "'c \<Rightarrow> 'k \<Rightarrow> 'v \<Rightarrow> 'c"
  assumes get_law: "inv c \<Longrightarrow> get c k = (r, c') \<Longrightarrow>
      inv c' \<and> held c' \<subseteq>\<^sub>m held c \<and> (\<forall>v. r = Ok (Some v) \<longrightarrow> held c k = Some v)"
    and insert_law: "inv c \<Longrightarrow> inv (insert c k v) \<and> held (insert c k v) \<subseteq>\<^sub>m (held c)(k \<mapsto> v)"
begin

lemma get_sound:
  assumes "sound P c" "get c k = (r, c')"
  shows "sound P c'" and "r = Ok (Some v) \<Longrightarrow> P k v"
  using assms get_law [of c k r c'] sound_mono [of P c c'] by (auto simp: sound_def)

lemma insert_sound:
  assumes "sound P c" "P k v"
  shows "sound P (insert c k v)"
  using assms insert_law [of c k v] sound_upd [of P c "insert c k v" k v] by (auto simp: sound_def)

end

interpretation cache: slice_cache store_inv store_view store_get_or_fetch store_get store_insert
proof unfold_locales
  fix c :: "('s, 'e) SliceStore" and k f e r c' e'
  assume i: "store_inv c" and g: "store_get_or_fetch c k f e = (r, c', e')"
  obtain r0 s' where f: "fo_get_or_fetch (ss_ops c) (ss_state c) k f e = (r0, s', e')"
    and r: "r = map_err Fetch r0" "c' = c\<lparr>ss_state := s'\<rparr>"
    using g by (auto simp: store_get_or_fetch_def split: prod.splits)
  have law: "foyer_ok (ss_ops c)" using i by (simp add: store_inv_def)
  have "(e' = e \<and> fo_view (ss_ops c) s' \<subseteq>\<^sub>m fo_view (ss_ops c) (ss_state c)
           \<and> (\<forall>v. r0 = Ok v \<longrightarrow> fo_view (ss_ops c) (ss_state c) k = Some v))
      \<or> (\<exists>x. f e = (Err x, e') \<and> fo_view (ss_ops c) s' \<subseteq>\<^sub>m fo_view (ss_ops c) (ss_state c) \<and> (\<exists>text. r0 = Err text))
      \<or> (\<exists>v. f e = (Ok v, e') \<and> fo_view (ss_ops c) s' \<subseteq>\<^sub>m (fo_view (ss_ops c) (ss_state c))(k \<mapsto> v) \<and> r0 = Ok v)"
    by (rule foyer_fetch [OF law f])
  then show "store_inv c' \<and>
      ((e' = e \<and> store_view c' \<subseteq>\<^sub>m store_view c \<and> (\<forall>v. r = Ok v \<longrightarrow> store_view c k = Some v))
       \<or> (\<exists>x. f e = (Err x, e') \<and> store_view c' \<subseteq>\<^sub>m store_view c \<and> (\<exists>y. r = Err y))
       \<or> (\<exists>v. f e = (Ok v, e') \<and> store_view c' \<subseteq>\<^sub>m (store_view c)(k \<mapsto> v) \<and> r = Ok v))"
    using law by (cases r0) (auto simp: r store_inv_def store_view_def)
next
  fix c :: "('s, 'e) SliceStore" and k r c'
  assume i: "store_inv c" and g: "store_get c k = (r, c')"
  obtain r0 s' where f: "fo_get (ss_ops c) (ss_state c) k = (r0, s')"
    and r: "r = map_err Fetch r0" "c' = c\<lparr>ss_state := s'\<rparr>"
    using g by (auto simp: store_get_def split: prod.splits)
  have law: "foyer_ok (ss_ops c)" using i by (simp add: store_inv_def)
  have "fo_view (ss_ops c) s' \<subseteq>\<^sub>m fo_view (ss_ops c) (ss_state c)
      \<and> (\<forall>v. r0 = Ok (Some v) \<longrightarrow> fo_view (ss_ops c) (ss_state c) k = Some v)"
    by (rule foyer_get [OF law f])
  then show "store_inv c' \<and> store_view c' \<subseteq>\<^sub>m store_view c \<and> (\<forall>v. r = Ok (Some v) \<longrightarrow> store_view c k = Some v)"
    using law by (cases r0) (simp_all add: r store_inv_def store_view_def)
next
  fix c :: "('s, 'e) SliceStore" and k v
  assume "store_inv c"
  then show "store_inv (store_insert c k v) \<and> store_view (store_insert c k v) \<subseteq>\<^sub>m (store_view c)(k \<mapsto> v)"
    by (simp add: store_inv_def store_insert_def store_view_def foyer_insert)
qed

text \<open>A cache entries can be removed from: what is removed is gone, and nothing appears.\<close>

locale purgeable_cache = slice_cache inv held get_or_fetch get insert
  for inv :: "'c \<Rightarrow> bool"
    and held :: "'c \<Rightarrow> 'k \<rightharpoonup> 'v"
    and get_or_fetch :: "'c \<Rightarrow> 'k \<Rightarrow> ('e \<Rightarrow> ('y + 'v) \<times> 'e) \<Rightarrow> 'e \<Rightarrow> ('x + 'v) \<times> 'c \<times> 'e"
    and get :: "'c \<Rightarrow> 'k \<Rightarrow> ('x + 'v option) \<times> 'c"
    and insert :: "'c \<Rightarrow> 'k \<Rightarrow> 'v \<Rightarrow> 'c" +
  fixes remove :: "'c \<Rightarrow> 'k \<Rightarrow> 'c"
  assumes remove_law: "inv c \<Longrightarrow> inv (remove c k) \<and> held (remove c k) \<subseteq>\<^sub>m (held c)(k := None)"
begin

lemma remove_all:
  assumes "inv c"
  shows "inv (foldl remove c ks) \<and> held (foldl remove c ks) \<subseteq>\<^sub>m held c |` (- set ks)"
  using assms
proof (induction ks arbitrary: c)
  case (Cons k ks)
  have r: "inv (remove c k)" "held (remove c k) \<subseteq>\<^sub>m (held c)(k := None)" using remove_law [OF Cons.prems] by auto
  from Cons.IH [OF r(1)] have "held (foldl remove (remove c k) ks) \<subseteq>\<^sub>m held (remove c k) |` (- set ks)" by simp
  moreover have "held (remove c k) |` (- set ks) \<subseteq>\<^sub>m held c |` (- set (k # ks))"
    using r(2) by (auto simp: map_le_def restrict_map_def dom_def split: if_splits)
  ultimately show ?case using Cons.IH [OF r(1)] by (auto intro: map_le_trans)
qed (simp add: restrict_map_def map_le_def)

end

interpretation purge: purgeable_cache store_inv store_view store_get_or_fetch store_get store_insert store_remove
  by unfold_locales (auto simp: store_inv_def store_remove_def store_view_def foyer_ok_def foyer_write_ok_def)

text \<open>An engine that keeps everything it is given.\<close>

definition alist_foyer :: "((SliceKey \<times> SliceValue) list, 'e) foyer" where
  "alist_foyer =
    \<lparr>fo_get = (\<lambda>s k. (Ok (map_of s k), s)),
     fo_get_or_fetch = (\<lambda>s k f e.
       case map_of s k of
         Some v \<Rightarrow> (Ok v, s, e)
       | None \<Rightarrow> (case f e of (Inr v, e) \<Rightarrow> (Ok v, (k, v) # s, e) | (Inl x, e) \<Rightarrow> (Err x, s, e))),
     fo_contains = (\<lambda>s k. map_of s k \<noteq> None),
     fo_insert = (\<lambda>s k v. (k, v) # s),
     fo_remove = (\<lambda>s k. filter (\<lambda>e. fst e \<noteq> k) s),
     fo_close = Ok, fo_view = map_of\<rparr>"

lemma alist_foyer_ok: "foyer_ok alist_foyer"
proof -
  have "foyer_get_ok alist_foyer"
    by (auto simp: foyer_get_ok_def alist_foyer_def)
  moreover have "foyer_fetch_ok alist_foyer"
    unfolding foyer_fetch_ok_def
  proof (intro allI impI)
    fix s k r s' and e e' :: 'e and f :: "'e \<Rightarrow> (string + SliceValue) \<times> 'e"
    assume "fo_get_or_fetch alist_foyer s k f e = (r, s', e')"
    then show "(e' = e \<and> fo_view alist_foyer s' \<subseteq>\<^sub>m fo_view alist_foyer s \<and> (\<forall>v. r = Ok v \<longrightarrow> fo_view alist_foyer s k = Some v))
       \<or> (\<exists>x. f e = (Err x, e') \<and> fo_view alist_foyer s' \<subseteq>\<^sub>m fo_view alist_foyer s \<and> (\<exists>text. r = Err text))
       \<or> (\<exists>v. f e = (Ok v, e') \<and> fo_view alist_foyer s' \<subseteq>\<^sub>m (fo_view alist_foyer s)(k \<mapsto> v) \<and> r = Ok v)"
      by (cases "map_of s k"; cases "f e"; cases "fst (f e)") (auto simp: alist_foyer_def)
  qed
  moreover have "map_of (filter (\<lambda>e. fst e \<noteq> k) s) = (map_of s)(k := None)" for k and s :: "(SliceKey \<times> SliceValue) list"
    by (induction s) (auto simp: fun_eq_iff)
  then have "foyer_write_ok alist_foyer"
    by (simp add: foyer_write_ok_def alist_foyer_def)
  ultimately show ?thesis by (simp add: foyer_ok_def)
qed

lemma alist_store_miss:
  assumes "map_of s k = None"
  shows "f e = (Err x, e') \<Longrightarrow> store_get_or_fetch \<lparr>ss_ops = alist_foyer, ss_state = s\<rparr> k f e
      = (Err (Fetch x), \<lparr>ss_ops = alist_foyer, ss_state = s\<rparr>, e')"
    and "f e = (Ok v, e') \<Longrightarrow> store_get_or_fetch \<lparr>ss_ops = alist_foyer, ss_state = s\<rparr> k f e
      = (Ok v, \<lparr>ss_ops = alist_foyer, ss_state = (k, v) # s\<rparr>, e')"
  using assms by (simp_all add: store_get_or_fetch_def alist_foyer_def)

section \<open>The free-space guard\<close>

record DiskSpace =
  ds_total :: u64
  ds_available :: u64

datatype SpaceError = InteriorNul string | Statvfs string string

record Statvfs =
  sf_frsize :: u64
  sf_bsize :: u64
  sf_blocks :: u64
  sf_bavail :: u64

text \<open>The system call's answer is an argument; a path with a NUL does not reach it.\<close>

definition space_read :: "(string \<Rightarrow> string + Statvfs) \<Rightarrow> string \<Rightarrow> SpaceError + DiskSpace" where
  "space_read statvfs path =
    (if CHR 0x00 \<in> set path then Err (InteriorNul path)
     else rbind (map_err (Statvfs path) (statvfs path)) (\<lambda>st.
       let unit' = (if 0 < sf_frsize st then sf_frsize st else sf_bsize st)
       in Ok \<lparr>ds_total = sf_blocks st * unit', ds_available = sf_bavail st * unit'\<rparr>))"

definition effective_cap :: "u64 \<Rightarrow> u64 \<Rightarrow> u64 \<Rightarrow> DiskSpace \<Rightarrow> u64" where
  "effective_cap configured min_free used space =
    (let claimable = saturating_sub (ds_available space) min_free;
         ceiling = saturating_add used claimable
     in min configured ceiling)"

definition is_engaged :: "u64 \<Rightarrow> u64 \<Rightarrow> bool" where
  "is_engaged configured effective \<longleftrightarrow> effective < configured"

text \<open>
  A cache that grows to the effective cap leaves the reserve. The cap never exceeds the configured
  size; growing from what is used to the cap leaves the reserved space free, or what was free when
  that is less; and the guard is engaged exactly when the configured size would eat into the reserve.
\<close>

theorem effective_cap_keeps_reserve:
  "unat (effective_cap configured min_free used space) \<le> unat configured
   \<and> unat (ds_available space) - (unat (effective_cap configured min_free used space) - unat used)
       \<ge> min (unat (ds_available space)) (unat min_free)
   \<and> (is_engaged configured (effective_cap configured min_free used space) \<longleftrightarrow>
        unat used + (unat (ds_available space) - unat min_free) < unat configured)"
proof -
  have "unat configured < 2 ^ 64" using unsigned_less [of configured, where ?'a = nat] by simp
  moreover have "unat (effective_cap configured min_free used space)
      = min (unat configured) (min (unat used + (unat (ds_available space) - unat min_free)) (2 ^ 64 - 1))"
    by (simp add: effective_cap_def Let_def word_to_nat)
  ultimately show ?thesis by (simp add: is_engaged_def word_less_nat_alt min_def) arith
qed

end
