(* ===== verification/Orch_Main.thy ===== *)
theory Orch_Main
  imports Proxy_Range Store_Hybrid Store_Index Orch_Filler Orch_Readahead Orch_Validators Upstream_Client Services_Key
begin

text \<open>
  \<open>orchestrator/mod.rs\<close>: from a request to slices. The orchestrator uses the upstream client through the two
  fetches of the record \<open>upstream\<close>, which act on a state of the network and of the client's permits; that the
  client is such a record is shown in the root theory. The store and the index are the modelled
  ones. The clock, the hash function and the texts of errors are arguments; a metric is the list of
  its recorded events.

  An operation that has to wait for another task's fill has the value None.
\<close>

section \<open>Data\<close>

record 'w upstream =
  us_range :: "string \<Rightarrow> string \<Rightarrow> headers \<Rightarrow> u64 \<Rightarrow> u64 \<Rightarrow> 'w \<Rightarrow> (UpstreamError + UpstreamResponse) \<times> 'w"
  us_stream :: "string \<Rightarrow> string \<Rightarrow> headers \<Rightarrow> 'w \<Rightarrow> (UpstreamError + headers \<times> (TransportError + u8 list) list) \<times> 'w"

record Plan =
  pl_service :: string
  pl_status :: nat
  pl_wanted :: ByteRange
  pl_total_len :: u64
  pl_cache_status :: CacheStatus
  pl_meta :: ObjectMeta
  pl_object :: ObjectId
  pl_partial :: bool

text \<open>The last constructor is the panic of a division by a slice size of zero.\<close>

datatype OrchestratorError =
    RangeUnsatisfiable u64
  | UpstreamFailed UpstreamError
  | StoreFailed StoreError
  | NoLength string
  | ShortSlice string u32 u64 nat
  | ValidatorChanged string "string option" "string option"
  | FillFailed string string
  | DivisionByZero

datatype metric =
    UpstreamSeconds string
  | BytesFetched string nat
  | GenerationBumps string
  | UpstreamErrors string string
  | StaleResponses string

definition count_metric :: "metric \<Rightarrow> metric list option \<Rightarrow> metric list option" where
  "count_metric m log = map_option (\<lambda>l. l @ [m]) log"

text \<open>What the fetch of a slice may change, and why it fails.\<close>

record 'w fetch_env =
  fe_world :: 'w
  fe_observed :: "Validators option"
  fe_metrics :: "metric list option"

datatype slice_failure =
    FetchError UpstreamError
  | ValidatorsDiffer Validators Validators
  | WrongLength u32 u64 nat

record env =
  ev_now_secs :: u64
  ev_now :: nat
  ev_text :: "slice_failure \<Rightarrow> string"
  ev_display :: "OrchestratorError \<Rightarrow> string"
  ev_blake3 :: "bytes \<Rightarrow> bytes"

record ('db, 't, 's, 'w) Orchestrator =
  or_store :: "('s, 'w fetch_env) SliceStore"
  or_index :: "('db, 't) ObjectIndex"
  or_upstream :: "'w upstream"
  or_slice_size :: u32
  or_readahead :: nat
  or_metadata :: "ObjectId \<rightharpoonup> ObjectMeta option"
  or_fills :: FillRegistry
  or_policy :: ReadaheadPolicy
  or_stale_on_error :: bool
  or_metrics :: "metric list option"

section \<open>Construction and small functions\<close>

definition Orchestrator_new ::
  "('s, 'w fetch_env) SliceStore \<Rightarrow> ('db, 't) ObjectIndex \<Rightarrow> 'w upstream \<Rightarrow> u32 \<Rightarrow> nat \<Rightarrow>
   ('db, 't, 's, 'w) Orchestrator" where
  "Orchestrator_new store index upstream slice_size readahead =
    \<lparr>or_store = store, or_index = index, or_upstream = upstream, or_slice_size = slice_size,
     or_readahead = max readahead 1, or_metadata = Map.empty, or_fills = FillRegistry_new,
     or_policy = ReadaheadPolicy_new (max readahead 1), or_stale_on_error = True, or_metrics = None\<rparr>"

definition with_stale_on_error ::
  "bool \<Rightarrow> ('db, 't, 's, 'w) Orchestrator \<Rightarrow> ('db, 't, 's, 'w) Orchestrator" where
  "with_stale_on_error enabled orch = orch\<lparr>or_stale_on_error := enabled\<rparr>"

definition orch_with_metrics :: "('db, 't, 's, 'w) Orchestrator \<Rightarrow> ('db, 't, 's, 'w) Orchestrator" where
  "orch_with_metrics orch = orch\<lparr>or_metrics := Some []\<rparr>"

definition is_server_error :: "nat \<Rightarrow> bool" where
  "is_server_error status \<longleftrightarrow> 500 \<le> status \<and> status < 600"

definition is_transient :: "UpstreamError \<Rightarrow> bool" where
  "is_transient e =
    (case e of
       Status _ status \<Rightarrow> is_server_error status
     | RequestFailed _ source \<Rightarrow> te_is_timeout source \<or> te_is_connect source \<or> te_is_request source
     | _ \<Rightarrow> False)"

definition error_kind :: "OrchestratorError \<Rightarrow> string" where
  "error_kind e =
    (case e of
       UpstreamFailed (Status _ status) \<Rightarrow> if is_server_error status then ''origin_5xx'' else ''origin_4xx''
     | UpstreamFailed (RequestFailed _ source) \<Rightarrow>
         if te_is_timeout source then ''timeout'' else if te_is_connect source then ''connect'' else ''request''
     | UpstreamFailed (Resolve _) \<Rightarrow> ''resolve''
     | _ \<Rightarrow> ''other'')"

definition str_contains :: "string \<Rightarrow> string \<Rightarrow> bool" where
  "str_contains text part \<longleftrightarrow> list_ex (\<lambda>n. starts_with (drop n text) part) [0..<Suc (length text)]"

text \<open>The text of a store error, as its \<open>Display\<close> writes it.\<close>

definition StoreError_display :: "StoreError \<Rightarrow> string" where
  "StoreError_display e =
    (case e of
       Directory path source \<Rightarrow> ''cannot create cache directory '' @ path @ '': '' @ source
     | Open source \<Rightarrow> ''cannot open the slice store: '' @ source
     | Fetch source \<Rightarrow> ''slice fetch failed: '' @ source)"

definition is_transient_orchestrator_error :: "OrchestratorError \<Rightarrow> bool" where
  "is_transient_orchestrator_error e =
    (case e of
       UpstreamFailed u \<Rightarrow> is_transient u
     | StoreFailed se \<Rightarrow>
         let text = StoreError_display se
         in str_contains text ''timed out'' \<or> str_contains text ''503'' \<or> str_contains text ''502''
     | _ \<Rightarrow> False)"

definition header_for :: "ObjectMeta \<Rightarrow> u32 \<Rightarrow> SliceHeader" where
  "header_for meta slice_size =
    \<lparr>sh_slice_size = slice_size, sh_total_len = om_total_len meta, sh_generation = om_generation meta,
     sh_etag = om_etag meta, sh_last_modified = om_last_modified meta, sh_content_type = om_content_type meta\<rparr>"

definition record_fetch :: "string \<Rightarrow> nat \<Rightarrow> metric list option \<Rightarrow> metric list option" where
  "record_fetch service n log = count_metric (BytesFetched service n) (count_metric (UpstreamSeconds service) log)"

text \<open>A window outside the payload is an error: the length of the payload and the window.\<close>

definition orch_payload_window :: "SliceValue \<Rightarrow> nat \<times> nat \<Rightarrow> (nat \<times> nat \<times> nat) + u8 list" where
  "orch_payload_window v w =
    (case w of (from, to) \<Rightarrow>
      if to < from \<or> length (sv_payload v) < to then Err (length (sv_payload v), from, to)
      else Ok (take (to - from) (drop from (sv_payload v))))"

section \<open>Metadata\<close>

definition bump_generation ::
  "ObjectId \<Rightarrow> ('db, 't, 's, 'w) Orchestrator \<Rightarrow> u32 \<times> ('db, 't, 's, 'w) Orchestrator" where
  "bump_generation object orch =
    (case index_invalidate (or_index orch) object of
       Inr (ix, generation) \<Rightarrow>
         (generation, orch\<lparr>or_index := ix, or_metadata := (or_metadata orch)(object := None)\<rparr>)
     | Inl _ \<Rightarrow> (1, orch\<lparr>or_metadata := (or_metadata orch)(object := None)\<rparr>))"

definition cell ::
  "ObjectId \<Rightarrow> ('db, 't, 's, 'w) Orchestrator \<Rightarrow> ObjectMeta option \<times> ('db, 't, 's, 'w) Orchestrator" where
  "cell object orch =
    (case or_metadata orch object of
       Some c \<Rightarrow> (c, orch)
     | None \<Rightarrow> (None, orch\<lparr>or_metadata := (or_metadata orch)(object \<mapsto> None)\<rparr>))"

definition probed_meta :: "u64 \<Rightarrow> CacheKey \<Rightarrow> u64 \<times> bool \<Rightarrow> u32 \<Rightarrow> UpstreamResponse \<Rightarrow> ObjectMeta" where
  "probed_meta now key shape generation response =
    \<lparr>om_key = ck_key key, om_total_len = fst shape, om_generation = generation,
     om_etag = response_header response ''etag'', om_last_modified = response_header response ''last-modified'',
     om_content_type = response_header response ''content-type'', om_no_ranges = snd shape,
     om_created = now, om_last_seen = now, om_stale = False\<rparr>"

text \<open>The length of the object, and whether the origin ignored the range.\<close>

definition probed_shape :: "string \<Rightarrow> UpstreamResponse \<Rightarrow> OrchestratorError + u64 \<times> bool" where
  "probed_shape url response =
    (if up_status response = 206 then
       rbind (ok_or (NoLength url) (content_range_total response)) (\<lambda>t. Ok (t, False))
     else rbind (ok_or (NoLength url) (content_length response)) (\<lambda>t. Ok (t, True)))"

definition probe ::
  "env \<Rightarrow> CacheKey \<Rightarrow> ObjectId \<Rightarrow> string \<Rightarrow> headers \<Rightarrow> u32 \<Rightarrow> ('db, 't, 's, 'w) Orchestrator \<Rightarrow> 'w \<Rightarrow>
   (OrchestratorError + ObjectMeta) \<times> ('db, 't, 's, 'w) Orchestrator \<times> 'w" where
  "probe ev key object url hs index orch w =
    (let start = (ucast index :: u64) * ucast (or_slice_size orch);
         finish = start + ucast (or_slice_size orch) - 1
     in case us_range (or_upstream orch) (ck_service key) url hs start finish w of
          (Inl e, w) \<Rightarrow> (Err (UpstreamFailed e), orch, w)
        | (Inr response, w) \<Rightarrow>
            let orch = orch\<lparr>or_metrics := record_fetch (ck_service key) (length (up_body response)) (or_metrics orch)\<rparr>
            in case probed_shape url response of
                 Inl e \<Rightarrow> (Err e, orch, w)
               | Inr shape \<Rightarrow>
                   let generation = (case index_get (or_index orch) object of
                         Inr (Some previous) \<Rightarrow> om_generation previous | _ \<Rightarrow> 0);
                       meta = probed_meta (ev_now_secs ev) key shape generation response;
                       orch = (if om_no_ranges meta then orch
                               else orch\<lparr>or_store := store_insert (or_store orch) (SliceKey_new object generation index)
                                     (SliceValue_new (header_for meta (or_slice_size orch)) (up_body response))\<rparr>);
                       orch = (case index_put (or_index orch) object meta of
                                 Inr ix \<Rightarrow> orch\<lparr>or_index := ix\<rparr> | Inl _ \<Rightarrow> orch)
                   in (Ok meta, orch, w))"

definition metadata ::
  "env \<Rightarrow> CacheKey \<Rightarrow> ObjectId \<Rightarrow> string \<Rightarrow> headers \<Rightarrow> u32 \<Rightarrow> ('db, 't, 's, 'w) Orchestrator \<Rightarrow> 'w \<Rightarrow>
   (OrchestratorError + ObjectMeta \<times> bool) \<times> ('db, 't, 's, 'w) Orchestrator \<times> 'w" where
  "metadata ev key object url hs probe_index orch w =
    (case (case index_get (or_index orch) object of
             Inr (Some meta) \<Rightarrow> if \<not> om_stale meta then Some meta else None
           | _ \<Rightarrow> None) of
       Some meta \<Rightarrow>
         (Ok (meta, False),
          (case index_touch (ev_now_secs ev) (or_index orch) object of
             Inr (ix, _) \<Rightarrow> orch\<lparr>or_index := ix\<rparr> | Inl _ \<Rightarrow> orch),
          w)
     | None \<Rightarrow>
         (case cell object orch of
            (Some meta, orch) \<Rightarrow> (Ok (meta, False), orch, w)
          | (None, orch) \<Rightarrow>
              (case probe ev key object url hs probe_index orch w of
                 (Inl e, orch, w) \<Rightarrow> (Err e, orch, w)
               | (Inr meta, orch, w) \<Rightarrow>
                   (Ok (meta, True), orch\<lparr>or_metadata := (or_metadata orch)(object \<mapsto> Some meta)\<rparr>, w))))"

section \<open>Planning\<close>

definition request_spec :: "string option \<Rightarrow> RangeSpec option" where
  "request_spec raw_range =
    (case raw_range of
       None \<Rightarrow> None
     | Some raw \<Rightarrow> (case parse_range raw of Inr spec \<Rightarrow> Some spec | Inl _ \<Rightarrow> None))"

definition probe_index_for :: "u32 \<Rightarrow> RangeSpec option \<Rightarrow> OrchestratorError + u32" where
  "probe_index_for slice_size spec =
    (case spec of
       None \<Rightarrow> Ok 0
     | Some (Proxy_Range.Suffix _) \<Rightarrow> Ok 0
     | Some (FromTo start _) \<Rightarrow> if slice_size = 0 then Err DivisionByZero else Ok (ucast (start div ucast slice_size))
     | Some (From start) \<Rightarrow> if slice_size = 0 then Err DivisionByZero else Ok (ucast (start div ucast slice_size)))"

definition wanted_range :: "RangeSpec option \<Rightarrow> u64 \<Rightarrow> OrchestratorError + ByteRange" where
  "wanted_range spec len =
    (case spec of
       None \<Rightarrow> Ok (case whole len of Some r \<Rightarrow> r | None \<Rightarrow> \<lparr>br_start = 0, br_end = 0\<rparr>)
     | Some sp \<Rightarrow> map_err (\<lambda>_. RangeUnsatisfiable len) (Proxy_Range.resolve sp len))"

definition plan_status ::
  "('s, 'e) SliceStore \<Rightarrow> u32 \<Rightarrow> ObjectId \<Rightarrow> ObjectMeta \<Rightarrow> ByteRange \<Rightarrow> bool \<Rightarrow> u32 \<Rightarrow> CacheStatus" where
  "plan_status store slice_size object meta wanted probed_here probe_index =
    (if om_total_len meta = 0 then Hit
     else
       let p = Proxy_Range.plan wanted slice_size;
           resident = of_nat (length (filter
             (\<lambda>i. store_contains store (SliceKey_new object (om_generation meta) i)) (plan_indices p)));
           resident = (if probed_here \<and> sp_first p \<le> probe_index \<and> probe_index \<le> sp_last p
                       then saturating_sub resident 1 else resident)
       in classify resident (plan_count p))"

definition plan_request ::
  "env \<Rightarrow> CacheKey \<Rightarrow> string \<Rightarrow> headers \<Rightarrow> string option \<Rightarrow> ('db, 't, 's, 'w) Orchestrator \<Rightarrow> 'w \<Rightarrow>
   (OrchestratorError + Plan) \<times> ('db, 't, 's, 'w) Orchestrator \<times> 'w" where
  "plan_request ev key url hs raw_range orch w =
    (let object = object_id (ev_blake3 ev) key;
         spec = request_spec raw_range
     in case probe_index_for (or_slice_size orch) spec of
          Inl e \<Rightarrow> (Err e, orch, w)
        | Inr probe_index \<Rightarrow>
            (case metadata ev key object url hs probe_index orch w of
               (Inl e, orch, w) \<Rightarrow> (Err e, orch, w)
             | (Inr (meta, probed_here), orch, w) \<Rightarrow>
                 (rbind (wanted_range spec (om_total_len meta)) (\<lambda>wanted.
                    Ok \<lparr>pl_service = ck_service key, pl_status = (if spec \<noteq> None then 206 else 200),
                        pl_wanted = wanted, pl_total_len = om_total_len meta,
                        pl_cache_status =
                          plan_status (or_store orch) (or_slice_size orch) object meta wanted probed_here probe_index,
                        pl_meta = meta, pl_object = object, pl_partial = (spec \<noteq> None)\<rparr>),
                  orch, w)))"

definition orch_indices :: "('db, 't, 's, 'w) Orchestrator \<Rightarrow> Plan \<Rightarrow> u32 list" where
  "orch_indices orch p =
    (if pl_total_len p = 0 then [] else plan_indices (Proxy_Range.plan (pl_wanted p) (or_slice_size orch)))"

definition orch_window :: "('db, 't, 's, 'w) Orchestrator \<Rightarrow> Plan \<Rightarrow> u32 \<Rightarrow> nat \<times> nat" where
  "orch_window orch p index = payload_window index (or_slice_size orch) (pl_wanted p)"

section \<open>Filling a whole object\<close>

text \<open>The inner loop: while the buffer holds a slice, cut one off and act on it. With a slice size of zero it
  would not end.\<close>

partial_function (option) cut_slices ::
  "nat \<Rightarrow> (u32 \<Rightarrow> u8 list \<Rightarrow> 'x \<Rightarrow> 'x) \<Rightarrow> u8 list \<Rightarrow> u32 \<Rightarrow> 'x \<Rightarrow> (u8 list \<times> u32 \<times> 'x) option" where
  "cut_slices sz act buffer index x =
    (if sz \<le> length buffer
     then cut_slices sz act (drop sz buffer) (index + 1) (act index (take sz buffer) x)
     else Some (buffer, index, x))"

primrec fill_chunks ::
  "string \<Rightarrow> nat \<Rightarrow> (u32 \<Rightarrow> u8 list \<Rightarrow> 'x \<Rightarrow> 'x) \<Rightarrow> (TransportError + u8 list) list \<Rightarrow> u8 list \<Rightarrow> u32 \<Rightarrow> 'x \<Rightarrow>
   ((OrchestratorError + u8 list \<times> u32) \<times> 'x) option" where
  "fill_chunks url sz act [] buffer index x = Some (Ok (buffer, index), x)"
| "fill_chunks url sz act (c # cs) buffer index x =
    (case c of
       Inl source \<Rightarrow> Some (Err (UpstreamFailed (RequestFailed url source)), x)
     | Inr chunk \<Rightarrow>
         Option.bind (cut_slices sz act (buffer @ chunk) index x) (\<lambda>(buffer, index, x).
           fill_chunks url sz act cs buffer index x))"

text \<open>What happens to one slice of a fill: it is stored, and then the progress is published.\<close>

definition land_slice ::
  "ObjectId \<Rightarrow> u32 \<Rightarrow> SliceHeader \<Rightarrow> nat \<Rightarrow> u32 \<Rightarrow> u8 list \<Rightarrow> ('s, 'e) SliceStore \<times> FillRegistry \<Rightarrow>
   ('s, 'e) SliceStore \<times> FillRegistry" where
  "land_slice object generation header fill index payload x =
    (store_insert (fst x) (SliceKey_new object generation index) (SliceValue_new header payload),
     (snd x)\<lparr>heap := (heap (snd x))(fill := publish (index + 1) (heap (snd x) fill))\<rparr>)"

definition run_fill ::
  "Plan \<Rightarrow> string \<Rightarrow> headers \<Rightarrow> nat \<Rightarrow> ('db, 't, 's, 'w) Orchestrator \<Rightarrow> 'w \<Rightarrow>
   ((OrchestratorError + u32) \<times> ('db, 't, 's, 'w) Orchestrator \<times> 'w) option" where
  "run_fill p url hs fill orch w =
    (case us_stream (or_upstream orch) (pl_service p) url hs w of
       (Inl e, w) \<Rightarrow> Some (Err (UpstreamFailed e), orch, w)
     | (Inr (_, stream), w) \<Rightarrow>
         let header = header_for (pl_meta p) (or_slice_size orch);
             act = land_slice (pl_object p) (om_generation (pl_meta p)) header fill
         in Option.bind (fill_chunks url (unat (or_slice_size orch)) act stream [] 0 (or_store orch, or_fills orch))
              (\<lambda>(r, x).
                case r of
                  Inl e \<Rightarrow> Some (Err e, orch\<lparr>or_store := fst x, or_fills := snd x\<rparr>, w)
                | Inr (buffer, index) \<Rightarrow>
                    if buffer \<noteq> [] then
                      let x = act index buffer x
                      in Some (Ok (index + 1), orch\<lparr>or_store := fst x, or_fills := snd x\<rparr>, w)
                    else Some (Ok index, orch\<lparr>or_store := fst x, or_fills := snd x\<rparr>, w)))"

definition update_fill ::
  "nat \<Rightarrow> (Fill \<Rightarrow> Fill) \<Rightarrow> ('db, 't, 's, 'w) Orchestrator \<Rightarrow> ('db, 't, 's, 'w) Orchestrator" where
  "update_fill a f orch = orch\<lparr>or_fills := (or_fills orch)\<lparr>heap := (heap (or_fills orch))(a := f (heap (or_fills orch) a))\<rparr>\<rparr>"

definition ensure_filled ::
  "env \<Rightarrow> Plan \<Rightarrow> string \<Rightarrow> headers \<Rightarrow> u32 \<Rightarrow> ('db, 't, 's, 'w) Orchestrator \<Rightarrow> 'w \<Rightarrow>
   ((OrchestratorError + unit) \<times> ('db, 't, 's, 'w) Orchestrator \<times> 'w) option" where
  "ensure_filled ev p url hs index orch w =
    (if store_contains (or_store orch) (SliceKey_new (pl_object p) (om_generation (pl_meta p)) index)
     then Some (Ok (), orch, w)
     else case claim (or_fills orch) (pl_object p) of
       (reg, Subscriber a version) \<Rightarrow>
         (case wait_for (heap reg a) index Start of
            Finished r \<Rightarrow> Some (map_err (FillFailed url) r, orch\<lparr>or_fills := reg\<rparr>, w)
          | _ \<Rightarrow> None)
     | (reg, Filler a) \<Rightarrow>
         Option.bind (run_fill p url hs a (orch\<lparr>or_fills := reg\<rparr>) w) (\<lambda>(result, orch, w).
           let orch = orch\<lparr>or_fills := release (or_fills orch) (pl_object p)\<rparr>
           in case result of
                Inr produced \<Rightarrow>
                  Some (if index < produced then Ok ()
                        else Err (FillFailed url (''fill produced '' @ show_word produced @ '' slices; slice ''
                                   @ show_word index @ '' was never reached'')),
                        update_fill a (complete produced) orch, w)
              | Inl e \<Rightarrow> Some (Err e, update_fill a (fail (ev_display ev e)) orch, w)))"

section \<open>Fetching a slice\<close>

definition response_validators :: "UpstreamResponse \<Rightarrow> Validators" where
  "response_validators r = Validators_new (response_header r ''etag'') (response_header r ''last-modified'')"

definition meta_validators :: "ObjectMeta \<Rightarrow> Validators" where
  "meta_validators m = Validators_new (om_etag m) (om_last_modified m)"

text \<open>The fetch given to the store for a miss.\<close>

definition fetch_slice ::
  "env \<Rightarrow> 'w upstream \<Rightarrow> string \<Rightarrow> string \<Rightarrow> headers \<Rightarrow> u32 \<Rightarrow> ByteRange \<Rightarrow> Validators \<Rightarrow> SliceHeader \<Rightarrow> 'w fetch_env \<Rightarrow>
   (string + SliceValue) \<times> 'w fetch_env" where
  "fetch_slice ev U service url hs index extent expected header e =
    (case us_range U service url hs (br_start extent) (br_end extent) (fe_world e) of
       (Inl err, w) \<Rightarrow> (Err (ev_text ev (FetchError err)), e\<lparr>fe_world := w\<rparr>)
     | (Inr response, w) \<Rightarrow>
         let e = e\<lparr>fe_world := w, fe_metrics := record_fetch service (length (up_body response)) (fe_metrics e)\<rparr>;
             found = response_validators response
         in if \<not> validators_match expected found
            then (Err (ev_text ev (ValidatorsDiffer expected found)), e\<lparr>fe_observed := Some found\<rparr>)
            else if (of_nat (length (up_body response)) :: u64) \<noteq> range_len extent
            then (Err (ev_text ev (WrongLength index (range_len extent) (length (up_body response)))), e)
            else (Ok (SliceValue_new header (up_body response)), e))"

definition get_or_fetch_slice ::
  "env \<Rightarrow> Plan \<Rightarrow> string \<Rightarrow> headers \<Rightarrow> u32 \<Rightarrow> ('db, 't, 's, 'w) Orchestrator \<Rightarrow> 'w \<Rightarrow>
   (StoreError + SliceValue) \<times> ('s, 'w fetch_env) SliceStore \<times> 'w fetch_env" where
  "get_or_fetch_slice ev p url hs index orch w =
    store_get_or_fetch (or_store orch) (SliceKey_new (pl_object p) (om_generation (pl_meta p)) index)
      (fetch_slice ev (or_upstream orch) (pl_service p) url hs index
        (slice_extent index (or_slice_size orch) (pl_total_len p)) (meta_validators (pl_meta p))
        (header_for (pl_meta p) (or_slice_size orch)))
      \<lparr>fe_world = w, fe_observed = None, fe_metrics = or_metrics orch\<rparr>"

definition ranged_slice ::
  "env \<Rightarrow> Plan \<Rightarrow> string \<Rightarrow> headers \<Rightarrow> u32 \<Rightarrow> ('db, 't, 's, 'w) Orchestrator \<Rightarrow> 'w \<Rightarrow>
   (OrchestratorError + SliceValue) \<times> ('db, 't, 's, 'w) Orchestrator \<times> 'w" where
  "ranged_slice ev p url hs index orch w =
    (case get_or_fetch_slice ev p url hs index orch w of
       (Inr v, st, e) \<Rightarrow> (Ok v, orch\<lparr>or_store := st, or_metrics := fe_metrics e\<rparr>, fe_world e)
     | (Inl se, st, e) \<Rightarrow>
         let orch = orch\<lparr>or_store := st, or_metrics := fe_metrics e\<rparr>;
             (err, orch) =
               (case fe_observed e of
                  Some found \<Rightarrow>
                    (case bump_generation (pl_object p) orch of (_, orch) \<Rightarrow>
                      (ValidatorChanged url (om_etag (pl_meta p)) (va_etag found),
                       orch\<lparr>or_metrics := count_metric (GenerationBumps (pl_service p)) (or_metrics orch)\<rparr>))
                | None \<Rightarrow> (StoreFailed se, orch));
             orch = orch\<lparr>or_metrics := count_metric (UpstreamErrors (pl_service p) (error_kind err)) (or_metrics orch)\<rparr>
         in if or_stale_on_error orch \<and> is_transient_orchestrator_error err then
              (case store_get (or_store orch) (SliceKey_new (pl_object p) (om_generation (pl_meta p)) index) of
                 (Inr (Some v), st) \<Rightarrow>
                   (Ok v, orch\<lparr>or_store := st,
                     or_metrics := count_metric (StaleResponses (pl_service p)) (or_metrics orch)\<rparr>, fe_world e)
               | (_, st) \<Rightarrow> (Err err, orch\<lparr>or_store := st\<rparr>, fe_world e))
            else (Err err, orch, fe_world e))"

definition orch_slice ::
  "env \<Rightarrow> Plan \<Rightarrow> string \<Rightarrow> headers \<Rightarrow> u32 \<Rightarrow> ('db, 't, 's, 'w) Orchestrator \<Rightarrow> 'w \<Rightarrow>
   ((OrchestratorError + SliceValue) \<times> ('db, 't, 's, 'w) Orchestrator \<times> 'w) option" where
  "orch_slice ev p url hs index orch w =
    (if om_no_ranges (pl_meta p) then
       Option.bind (ensure_filled ev p url hs index orch w) (\<lambda>(r, orch, w).
         case r of
           Inl e \<Rightarrow> Some (Err e, orch, w)
         | Inr _ \<Rightarrow>
             (case store_get (or_store orch) (SliceKey_new (pl_object p) (om_generation (pl_meta p)) index) of
                (Inl se, st) \<Rightarrow> Some (Err (StoreFailed se), orch\<lparr>or_store := st\<rparr>, w)
              | (Inr (Some v), st) \<Rightarrow> Some (Ok v, orch\<lparr>or_store := st\<rparr>, w)
              | (Inr None, st) \<Rightarrow>
                  Some (Err (FillFailed url (''slice '' @ show_word index
                              @ '' was reported ready but is not in the store'')),
                        orch\<lparr>or_store := st\<rparr>, w)))
     else Some (ranged_slice ev p url hs index orch w))"

section \<open>Prefetching\<close>

text \<open>The slices for which a background task is spawned, with the policy's new state.\<close>

definition maybe_prefetch ::
  "env \<Rightarrow> Plan \<Rightarrow> ('db, 't, 's, 'w) Orchestrator \<Rightarrow>
   (OrchestratorError + u32 list) \<times> ('db, 't, 's, 'w) Orchestrator" where
  "maybe_prefetch ev p orch =
    (if pl_total_len p = 0 \<or> om_no_ranges (pl_meta p) then (Ok [], orch)
     else
       let span = Proxy_Range.plan (pl_wanted p) (or_slice_size orch)
       in case observe (ev_now ev) (or_policy orch) (pl_object p) (sp_first span) (sp_last span) of
            (pol, access) \<Rightarrow>
              if or_slice_size orch = 0 then (Err DivisionByZero, orch\<lparr>or_policy := pol\<rparr>)
              else
              let last_slice = ucast (min ((pl_total_len p - 1) div ucast (or_slice_size orch)) (ucast (- 1 :: u32)));
                  (from, to) = prefetch pol access (sp_last span) last_slice
              in (Ok (filter (\<lambda>i. \<not> store_contains (or_store orch) (SliceKey_new (pl_object p) (om_generation (pl_meta p)) i))
                    (map of_nat [unat from ..< unat to])),
                  orch\<lparr>or_policy := pol\<rparr>))"

end
