(* ===== verification/Orch_Fill.thy ===== *)
theory Orch_Fill
  imports Orch_Main "HOL-Library.Sublist"
begin

text \<open>
  What a whole-object fill does, whatever the sizes of the chunks it arrives in: the loops of \<open>run_fill\<close>
  against the reference that cuts the complete body.
\<close>

section \<open>Cutting a body\<close>

definition full_slices :: "nat \<Rightarrow> 'a list \<Rightarrow> 'a list list" where
  "full_slices s bs = map (\<lambda>i. take s (drop (i * s) bs)) [0..<length bs div s]"

definition rest_of :: "nat \<Rightarrow> 'a list \<Rightarrow> 'a list" where
  "rest_of s bs = drop (length bs div s * s) bs"

definition slices_of :: "nat \<Rightarrow> 'a list \<Rightarrow> 'a list list" where
  "slices_of s bs = full_slices s bs @ (if rest_of s bs = [] then [] else [rest_of s bs])"

lemma length_full_slices [simp]: "length (full_slices s bs) = length bs div s"
  by (simp add: full_slices_def)

lemma full_slices_short [simp]: "length bs < s \<Longrightarrow> full_slices s bs = []" "length bs < s \<Longrightarrow> rest_of s bs = bs"
  by (simp_all add: full_slices_def rest_of_def)

lemma upt_first: "[0..<Suc n] = 0 # map Suc [0..<n]"
  by (simp add: upt_conv_Cons map_Suc_upt del: upt_Suc)

lemma full_slices_step:
  assumes "0 < s" "s \<le> length bs"
  shows "full_slices s bs = take s bs # full_slices s (drop s bs)" "rest_of s bs = rest_of s (drop s bs)"
    "length bs div s = Suc (length (drop s bs) div s)"
proof -
  show d: "length bs div s = Suc (length (drop s bs) div s)" using assms by (simp add: le_div_geq)
  show "rest_of s bs = rest_of s (drop s bs)" unfolding rest_of_def d by (simp add: add.commute)
  show "full_slices s bs = take s bs # full_slices s (drop s bs)"
    unfolding full_slices_def d upt_first by (simp add: o_def add.commute)
qed

lemma length_rest_of: "0 < s \<Longrightarrow> length (rest_of s bs) < s"
proof -
  assume s: "0 < s"
  have "length (rest_of s bs) = length bs mod s"
    by (simp add: rest_of_def minus_div_mult_eq_mod)
  then show ?thesis using s by simp
qed

lemma full_slices_append:
  assumes "0 < s"
  shows "full_slices s (bs @ cs) = full_slices s bs @ full_slices s (rest_of s bs @ cs)
    \<and> rest_of s (bs @ cs) = rest_of s (rest_of s bs @ cs)"
proof (induction "length bs" arbitrary: bs rule: less_induct)
  case less
  show ?case
  proof (cases "length bs < s")
    case False
    then have l: "s \<le> length bs" by simp
    have "drop s (bs @ cs) = drop s bs @ cs" "take s (bs @ cs) = take s bs" using l by simp_all
    moreover have "length (drop s bs) < length bs" using l assms by simp
    ultimately show ?thesis
      using less [of "drop s bs"] full_slices_step [OF assms l] full_slices_step [OF assms, of "bs @ cs"] l by simp
  qed simp
qed

text \<open>Acting on each slice in turn, from an index on.\<close>

primrec land_all :: "(u32 \<Rightarrow> u8 list \<Rightarrow> 'x \<Rightarrow> 'x) \<Rightarrow> u32 \<Rightarrow> u8 list list \<Rightarrow> 'x \<Rightarrow> 'x" where
  "land_all act i [] x = x"
| "land_all act i (b # bs) x = land_all act (i + 1) bs (act i b x)"

lemma land_all_append: "land_all act i (as @ bs) x = land_all act (i + of_nat (length as)) bs (land_all act i as x)"
  by (induction as arbitrary: i x) (simp_all add: add.assoc)

lemma land_all_invariant:
  assumes "Q x" "\<And>j x. Q x \<Longrightarrow> j < length bs \<Longrightarrow> Q (act (i + of_nat j) (bs ! j) x)"
  shows "Q (land_all act i bs x)"
  using assms
proof (induction bs arbitrary: i x)
  case (Cons b bs)
  show ?case
    using Cons.IH [of "act i b x" "i + 1"] Cons.prems(1) Cons.prems(2) [of x 0] Cons.prems(2) [of _ "Suc _"]
    by (simp add: add.assoc)
qed simp

section \<open>The loops\<close>

lemma cut_slices_exact:
  assumes "0 < sz"
  shows "cut_slices sz act bs i x
    = Some (rest_of sz bs, i + of_nat (length bs div sz), land_all act i (full_slices sz bs) x)"
proof (induction "length bs" arbitrary: bs i x rule: less_induct)
  case less
  show ?case
  proof (cases "length bs < sz")
    case True
    then show ?thesis by (subst cut_slices.simps) simp
  next
    case False
    then have l: "sz \<le> length bs" by simp
    have "length (drop sz bs) < length bs" using l assms by simp
    from less [OF this] show ?thesis
      using full_slices_step [OF assms l] l
      by (subst cut_slices.simps) (simp add: add.assoc)
  qed
qed

fun ok_prefix :: "('e + 'b list) list \<Rightarrow> 'b list" where
  "ok_prefix [] = []"
| "ok_prefix (Inr c # cs) = c @ ok_prefix cs"
| "ok_prefix (Inl _ # cs) = []"

fun first_error :: "('e + 'b) list \<Rightarrow> 'e option" where
  "first_error [] = None"
| "first_error (Inr _ # cs) = first_error cs"
| "first_error (Inl e # cs) = Some e"

lemma ok_prefix_all [simp]: "ok_prefix (map Inr chunks) = concat chunks" "first_error (map Inr chunks) = None"
  by (induction chunks) simp_all

lemma fill_chunks_exact:
  assumes "0 < sz" "length buffer < sz"
  shows "fill_chunks url sz act cs buffer i x =
    Some (case first_error cs of
            Some e \<Rightarrow> Err (UpstreamFailed (RequestFailed url e))
          | None \<Rightarrow> Ok (rest_of sz (buffer @ ok_prefix cs), i + of_nat (length (buffer @ ok_prefix cs) div sz)),
          land_all act i (full_slices sz (buffer @ ok_prefix cs)) x)"
  using assms(2)
proof (induction cs arbitrary: buffer i x)
  case (Cons c cs)
  show ?case
  proof (cases c)
    case (Inr chunk)
    let ?b = "buffer @ chunk"
    note a = full_slices_append [OF assms(1), of ?b "ok_prefix cs"]
    have len: "length (?b @ ok_prefix cs) div sz
        = length ?b div sz + length (rest_of sz ?b @ ok_prefix cs) div sz"
      using arg_cong [OF conjunct1 [OF a], of length] by simp
    show ?thesis
      using Cons.IH [OF length_rest_of [OF assms(1), of ?b]] Inr a len
      by (simp add: cut_slices_exact [OF assms(1)] land_all_append add.assoc split: option.splits)
  qed (use Cons.prems in simp)
qed simp

lemma run_fill_exact:
  assumes "us_stream (or_upstream orch) (pl_service p) url hs w = (Ok (h, cs), w')"
    and "0 < or_slice_size orch"
  shows "run_fill p url hs fill orch w =
    (let sz = unat (or_slice_size orch);
         act = land_slice (pl_object p) (om_generation (pl_meta p)) (header_for (pl_meta p) (or_slice_size orch)) fill;
         landed = (if first_error cs = None then slices_of sz (ok_prefix cs) else full_slices sz (ok_prefix cs));
         x = land_all act 0 landed (or_store orch, or_fills orch)
     in Some (case first_error cs of
                None \<Rightarrow> Ok (of_nat (length landed))
              | Some e \<Rightarrow> Err (UpstreamFailed (RequestFailed url e)),
              orch\<lparr>or_store := fst x, or_fills := snd x\<rparr>, w'))"
proof -
  have s: "0 < unat (or_slice_size orch)" using assms(2) by (simp add: word_less_nat_alt)
  show ?thesis
    by (cases "first_error cs")
      (auto simp: run_fill_def assms(1) Let_def slices_of_def land_all_append s fill_chunks_exact [OF s, of "[]"] add.commute)
qed

text \<open>
  C7: a fill does not depend on how the body arrives. For any chunking of a body, \<open>run_fill\<close> stores
  and announces exactly the slices the reference cuts from the whole body, in order, and reports
  their number; when the stream breaks, it has done so with the complete slices received, and
  reports the error.
\<close>

theorem fill_is_chunking_independent:
  assumes "us_stream (or_upstream orch) (pl_service p) url hs w = (Ok (h, cs), w')"
    and "0 < or_slice_size orch"
  shows "run_fill p url hs fill orch w =
    (let sz = unat (or_slice_size orch);
         act = land_slice (pl_object p) (om_generation (pl_meta p)) (header_for (pl_meta p) (or_slice_size orch)) fill;
         landed = (if first_error cs = None then slices_of sz (ok_prefix cs) else full_slices sz (ok_prefix cs));
         x = land_all act 0 landed (or_store orch, or_fills orch)
     in Some (case first_error cs of
                None \<Rightarrow> Ok (of_nat (length landed))
              | Some e \<Rightarrow> Err (UpstreamFailed (RequestFailed url e)),
              orch\<lparr>or_store := fst x, or_fills := snd x\<rparr>, w'))"
  using assms by (rule run_fill_exact)

text \<open>A ten-byte object, an origin that serves it, and an orchestrator with slices of four bytes.\<close>

definition sample_data :: "u8 list" where
  "sample_data = [0, 1, 2, 3, 4, 5, 6, 7, 8, 9]"

definition sample_upstream :: "unit upstream" where
  "sample_upstream =
    \<lparr>us_range = (\<lambda>service url hs a b w.
       (Ok \<lparr>up_status = 206, up_headers = [(''etag'', ''e''), (''content-range'', ''bytes 0-3/10'')],
            up_body = take (unat b - unat a + 1) (drop (unat a) sample_data)\<rparr>, w)),
     us_stream = (\<lambda>service url hs w. (Ok ([], [Inr [0, 1, 2], Inr [3, 4, 5, 6, 7, 8, 9]]), w))\<rparr>"

definition sample_orch ::
  "((ObjectId \<times> bytes) list, (ObjectId \<times> bytes) list, (SliceKey \<times> SliceValue) list, unit) Orchestrator" where
  "sample_orch = Orchestrator_new \<lparr>ss_ops = alist_foyer, ss_state = []\<rparr> sample_index sample_upstream 4 2"

definition sample_plan :: Plan where
  "sample_plan =
    \<lparr>pl_service = ''steam'', pl_status = 206, pl_wanted = \<lparr>br_start = 3, br_end = 8\<rparr>, pl_total_len = 10,
     pl_cache_status = Miss, pl_meta = sample_meta, pl_object = [1], pl_partial = True\<rparr>"

lemma sample_orch_sel [simp]:
  "or_upstream sample_orch = sample_upstream" "or_slice_size sample_orch = 4"
  "or_store sample_orch = \<lparr>ss_ops = alist_foyer, ss_state = []\<rparr>" "or_index sample_orch = sample_index"
  "or_metadata sample_orch = Map.empty"
  by (simp_all add: sample_orch_def Orchestrator_new_def)

theorem fill_is_chunking_independent_witness:
  "\<exists>orch'. run_fill sample_plan ''u'' [] 0 sample_orch () = Some (Ok 3, orch', ())"
proof -
  let ?cs = "[Inr [0, 1, 2], Inr [3, 4, 5, 6, 7, 8, 9]] :: (TransportError + u8 list) list"
  have st: "us_stream (or_upstream sample_orch) (pl_service sample_plan) ''u'' [] () = (Ok ([], ?cs), ())"
    by (simp add: sample_upstream_def)
  show ?thesis
    using fill_is_chunking_independent [OF st]
    by (simp add: Let_def slices_of_def full_slices_def rest_of_def)
qed

end
