(* ===== verification/Orch_Correct.thy ===== *)
theory Orch_Correct
  imports Orch_Fill
begin

text \<open>
  Correctness of the orchestrator. A version of an object is its bytes and its validators; the origin's
  promise (\<open>origin_serves\<close>) is that a ranged response whose validators match those of the version carries
  the version's bytes from the requested start on, possibly cut short, and that a streamed body is the
  version's. Under it every slice stored and returned is right, whatever fails in between; a
  response that does not match is never used, and makes the old version unreachable.
\<close>

section \<open>Right slices\<close>

text \<open>
  What an origin promises of one version of an object. The promise is for requests whose own headers have
  no \<open>Range\<close>: with it a client of its own could ask for other bytes than the range fetched.
\<close>

definition no_range :: "headers \<Rightarrow> bool" where
  "no_range hs \<longleftrightarrow> list_all (\<lambda>h. fst h \<noteq> ''range'') hs"

definition origin_serves :: "'w upstream \<Rightarrow> string \<Rightarrow> u8 list \<Rightarrow> Validators \<Rightarrow> bool" where
  "origin_serves U url data vals \<longleftrightarrow>
    (\<forall>service hs a b w r w'. no_range hs \<longrightarrow> us_range U service url hs a b w = (Ok r, w') \<longrightarrow>
       validators_match vals (response_validators r) \<longrightarrow> prefix (up_body r) (drop (unat a) data))
    \<and> (\<forall>service hs w h cs w'. no_range hs \<longrightarrow> us_stream U service url hs w = (Ok (h, cs), w') \<longrightarrow> prefix (ok_prefix cs) data)"

definition right_slice :: "ObjectId \<Rightarrow> u32 \<Rightarrow> u32 \<Rightarrow> u8 list \<Rightarrow> SliceKey \<Rightarrow> SliceValue \<Rightarrow> bool" where
  "right_slice object g s data k v \<longleftrightarrow>
    (sk_object k = object \<and> sk_generation k = g \<longrightarrow>
       prefix (sv_payload v) (drop (unat (sk_index k) * unat s) data))"

definition store_right :: "ObjectId \<Rightarrow> u32 \<Rightarrow> u32 \<Rightarrow> u8 list \<Rightarrow> ('s, 'e) SliceStore \<Rightarrow> bool" where
  "store_right object g s data st \<longleftrightarrow>
    store_inv st \<and> (\<forall>k v. store_view st k = Some v \<longrightarrow> right_slice object g s data k v)"

lemma store_right_sound: "store_right object g s data st = cache.sound (right_slice object g s data) st"
  by (simp add: store_right_def cache.sound_def)

lemma SliceKey_new_sel [simp]:
  "sk_object (SliceKey_new ob g i) = ob" "sk_generation (SliceKey_new ob g i) = g" "sk_index (SliceKey_new ob g i) = i"
  by (simp_all add: SliceKey_new_def)

lemma SliceValue_new_sel [simp]: "sv_payload (SliceValue_new h b) = b" "sv_header (SliceValue_new h b) = h"
  by (simp_all add: SliceValue_new_def)

lemma bump_generation_keeps:
  assumes "bump_generation object orch = (g, orch')"
  shows "or_store orch' = or_store orch" "or_upstream orch' = or_upstream orch"
    "or_slice_size orch' = or_slice_size orch" "or_metadata orch' object = None"
    "or_stale_on_error orch' = or_stale_on_error orch"
  using assms by (auto simp: bump_generation_def split: sum.splits)

lemma fetch_slice_Ok:
  assumes "fetch_slice ev U service url hs i extent vals header e = (Ok v, e')"
  shows "\<exists>r w. us_range U service url hs (br_start extent) (br_end extent) (fe_world e) = (Ok r, w)
     \<and> validators_match vals (response_validators r) \<and> of_nat (length (up_body r)) = range_len extent
     \<and> v = SliceValue_new header (up_body r) \<and> fe_observed e' = fe_observed e \<and> fe_world e' = w"
  using assms by (auto simp: fetch_slice_def Let_def split: sum.splits prod.splits if_splits)

lemma fetch_slice_Err:
  assumes "fetch_slice ev U service url hs i extent vals header e = (Err t, e')" "fe_observed e = None"
    "fe_observed e' = Some found"
  shows "\<exists>r w. us_range U service url hs (br_start extent) (br_end extent) (fe_world e) = (Ok r, w)
     \<and> found = response_validators r \<and> \<not> validators_match vals found"
  using assms by (auto simp: fetch_slice_def Let_def split: sum.splits prod.splits if_splits)

lemma get_or_fetch_right:
  assumes o: "origin_serves (or_upstream orch) url data (meta_validators (pl_meta p))" "no_range hs"
    and st: "store_right (pl_object p) (om_generation (pl_meta p)) (or_slice_size orch) data (or_store orch)"
    and g: "get_or_fetch_slice ev p url hs i orch w = (r, st', e')"
  shows "store_right (pl_object p) (om_generation (pl_meta p)) (or_slice_size orch) data st'"
    and "r = Ok v \<Longrightarrow> prefix (sv_payload v) (drop (unat i * unat (or_slice_size orch)) data)"
proof -
  let ?s = "or_slice_size orch" and ?g = "om_generation (pl_meta p)"
  let ?k = "SliceKey_new (pl_object p) ?g i"
  let ?x = "slice_extent i ?s (pl_total_len p)"
  let ?f = "fetch_slice ev (or_upstream orch) (pl_service p) url hs i ?x (meta_validators (pl_meta p)) (header_for (pl_meta p) ?s)"
  let ?e = "\<lparr>fe_world = w, fe_observed = None, fe_metrics = or_metrics orch\<rparr>"
  have start: "unat (br_start ?x) = unat i * unat ?s" by (simp add: slice_extent_def Let_def unat_slice_start)
  have f: "right_slice (pl_object p) ?g ?s data ?k v" if ok: "?f ?e = (Ok v, e'')" for v e''
  proof -
    obtain r w' where "us_range (or_upstream orch) (pl_service p) url hs (br_start ?x) (br_end ?x) w = (Ok r, w')"
      "validators_match (meta_validators (pl_meta p)) (response_validators r)"
      "v = SliceValue_new (header_for (pl_meta p) ?s) (up_body r)"
      using fetch_slice_Ok [OF ok] by auto
    then have "prefix (up_body r) (drop (unat (br_start ?x)) data)" using o unfolding origin_serves_def by blast
    then show ?thesis by (simp add: right_slice_def start \<open>v = _\<close>)
  qed
  have g': "store_get_or_fetch (or_store orch) ?k ?f ?e = (r, st', e')"
    using g by (simp add: get_or_fetch_slice_def)
  note s = cache.fetch_sound [OF st [unfolded store_right_sound] g' f]
  show "store_right (pl_object p) ?g ?s data st'" using s(1) by (simp add: store_right_sound)
  show "prefix (sv_payload v) (drop (unat i * unat ?s) data)" if "r = Ok v"
    using s(2) [OF _ that] by (simp add: right_slice_def)
qed

lemma store_get_right:
  assumes "store_right object g s data st" "store_get st (SliceKey_new object g i) = (r, st')"
  shows "store_right object g s data st'" and "r = Ok (Some v) \<Longrightarrow> prefix (sv_payload v) (drop (unat i * unat s) data)"
  using cache.get_sound [OF assms(1) [unfolded store_right_sound] assms(2)]
  by (auto simp: store_right_sound right_slice_def)

text \<open>What a failed fetch of a slice leaves: the error, and the state in which it is reported.\<close>

definition failed_slice ::
  "Plan \<Rightarrow> string \<Rightarrow> StoreError \<Rightarrow> 'w fetch_env \<Rightarrow> ('db, 't, 's, 'w) Orchestrator \<Rightarrow>
   OrchestratorError \<times> ('db, 't, 's, 'w) Orchestrator" where
  "failed_slice p url se e orch =
    (case fe_observed e of
       Some found \<Rightarrow>
         (case bump_generation (pl_object p) orch of (_, orch) \<Rightarrow>
           (ValidatorChanged url (om_etag (pl_meta p)) (va_etag found),
            orch\<lparr>or_metrics := count_metric (GenerationBumps (pl_service p)) (or_metrics orch)\<rparr>))
     | None \<Rightarrow> (StoreFailed se, orch))"

lemma ranged_slice_cases:
  assumes "ranged_slice ev p url hs i orch w = (r, orch', w')"
  obtains (fetched) v st e where
      "get_or_fetch_slice ev p url hs i orch w = (Ok v, st, e)" "r = Ok v"
      "orch' = orch\<lparr>or_store := st, or_metrics := fe_metrics e\<rparr>" "w' = fe_world e"
  | (failed) se st e err orch1 where
      "get_or_fetch_slice ev p url hs i orch w = (Err se, st, e)"
      "failed_slice p url se e (orch\<lparr>or_store := st, or_metrics := fe_metrics e\<rparr>) = (err, orch1)"
      "r = Err err"
      "orch' = orch1\<lparr>or_metrics := count_metric (UpstreamErrors (pl_service p) (error_kind err)) (or_metrics orch1)\<rparr>"
      "w' = fe_world e"
  | (stale) se st e err orch1 x st' where
      "get_or_fetch_slice ev p url hs i orch w = (Err se, st, e)"
      "failed_slice p url se e (orch\<lparr>or_store := st, or_metrics := fe_metrics e\<rparr>) = (err, orch1)"
      "store_get (or_store orch1) (SliceKey_new (pl_object p) (om_generation (pl_meta p)) i) = (x, st')"
      "is_transient_orchestrator_error err" "w' = fe_world e"
      "(\<exists>v. x = Ok (Some v) \<and> r = Ok v) \<or> r = Err err"
      "or_store orch' = st'" "or_upstream orch' = or_upstream orch1" "or_slice_size orch' = or_slice_size orch1"
      "or_index orch' = or_index orch1" "or_metadata orch' = or_metadata orch1"
proof -
  obtain q st e where g: "get_or_fetch_slice ev p url hs i orch w = (q, st, e)" by (metis prod_cases3)
  show thesis
  proof (cases q)
    case (Inr v)
    then show thesis using assms g by (intro fetched [of v st e]) (simp_all add: ranged_slice_def)
  next
    case (Inl se)
    obtain err orch1 where f: "failed_slice p url se e (orch\<lparr>or_store := st, or_metrics := fe_metrics e\<rparr>) = (err, orch1)"
      by fastforce
    let ?o = "orch1\<lparr>or_metrics := count_metric (UpstreamErrors (pl_service p) (error_kind err)) (or_metrics orch1)\<rparr>"
    obtain x st' where x: "store_get (or_store orch1) (SliceKey_new (pl_object p) (om_generation (pl_meta p)) i) = (x, st')"
      by fastforce
    have r: "(r, orch', w') =
        (if or_stale_on_error ?o \<and> is_transient_orchestrator_error err then
           (case (x, st') of
              (Inr (Some v), st) \<Rightarrow>
                (Ok v, ?o\<lparr>or_store := st,
                  or_metrics := count_metric (StaleResponses (pl_service p)) (or_metrics ?o)\<rparr>, fe_world e)
            | (_, st) \<Rightarrow> (Err err, ?o\<lparr>or_store := st\<rparr>, fe_world e))
         else (Err err, ?o, fe_world e))"
      using assms g Inl f x unfolding ranged_slice_def failed_slice_def Let_def
      by (auto split: option.splits prod.splits)
    show thesis
    proof (cases "or_stale_on_error ?o \<and> is_transient_orchestrator_error err")
      case False
      then show thesis using r g Inl f by (intro failed [of se st e err orch1]) auto
    next
      case True
      show thesis
      proof (rule stale [OF g [unfolded Inl] f x])
        show "is_transient_orchestrator_error err" using True by simp
        show "w' = fe_world e" "(\<exists>v. x = Ok (Some v) \<and> r = Ok v) \<or> r = Err err"
          using r True by (auto split: sum.splits option.splits)
        show "or_store orch' = st'" "or_upstream orch' = or_upstream orch1" "or_slice_size orch' = or_slice_size orch1"
          "or_index orch' = or_index orch1" "or_metadata orch' = or_metadata orch1"
          using r True by (auto split: sum.splits option.splits)
      qed
    qed
  qed
qed

lemma failed_slice_keeps:
  assumes "failed_slice p url se e orch = (err, orch1)"
  shows "or_store orch1 = or_store orch" "or_upstream orch1 = or_upstream orch"
    "or_slice_size orch1 = or_slice_size orch"
    "err = StoreFailed se \<or> (\<exists>a b. err = ValidatorChanged url a b)"
  using assms by (auto simp: failed_slice_def bump_generation_def split: option.splits sum.splits)

lemma ranged_slice_right:
  assumes o: "origin_serves (or_upstream orch) url data (meta_validators (pl_meta p))" "no_range hs"
    and st: "store_right (pl_object p) (om_generation (pl_meta p)) (or_slice_size orch) data (or_store orch)"
    and r: "ranged_slice ev p url hs i orch w = (r, orch', w')"
  shows "store_right (pl_object p) (om_generation (pl_meta p)) (or_slice_size orch) data (or_store orch')
    \<and> or_upstream orch' = or_upstream orch \<and> or_slice_size orch' = or_slice_size orch
    \<and> (\<forall>v. r = Ok v \<longrightarrow> prefix (sv_payload v) (drop (unat i * unat (or_slice_size orch)) data))"
  using r
proof (cases rule: ranged_slice_cases)
  case (fetched v st' e)
  then show ?thesis using get_or_fetch_right [OF o st fetched(1)] by auto
next
  case (failed se st' e err orch1)
  note k = failed_slice_keeps [OF failed(2)]
  show ?thesis using get_or_fetch_right(1) [OF o st failed(1)] k failed by auto
next
  case (stale se st' e err orch1 x st'')
  note k = failed_slice_keeps [OF stale(2)]
  have "store_right (pl_object p) (om_generation (pl_meta p)) (or_slice_size orch) data (or_store orch1)"
    using get_or_fetch_right(1) [OF o st stale(1)] k by simp
  note s = store_get_right [OF this stale(3)]
  show ?thesis using s stale k by auto
qed

section \<open>Fills\<close>

lemma prefix_take_drop: "prefix body data \<Longrightarrow> prefix (take n (drop m body)) (drop m data)"
  by (metis append_take_drop_id prefix_def prefix_order.trans prefixI take_is_prefix drop_append append.assoc)

lemma slices_of_nth:
  assumes "0 < s" "j < length (slices_of s bs)"
  shows "slices_of s bs ! j = take s (drop (j * s) bs)" "j * s < length bs"
proof -
  have q: "rest_of s bs = take s (drop (length bs div s * s) bs)"
    using length_rest_of [OF assms(1), of bs] by (simp add: rest_of_def)
  show "slices_of s bs ! j = take s (drop (j * s) bs)"
    using assms(2) by (auto simp: slices_of_def nth_append full_slices_def q not_less less_Suc_eq split: if_splits)
  have "j * s < length bs" if "j < length bs div s"
  proof -
    have "Suc j * s \<le> length bs div s * s" using that by (intro mult_le_mono1) simp
    then show ?thesis using assms(1) div_times_less_eq_dividend [of "length bs" s] unfolding mult_Suc by linarith
  qed
  moreover have "length bs div s * s < length bs" if "rest_of s bs \<noteq> []"
    using that by (simp add: rest_of_def)
  ultimately show "j * s < length bs"
    using assms(2) by (auto simp: slices_of_def less_Suc_eq split: if_splits)
qed

lemma run_fill_right:
  fixes orch :: "('db, 't, 's, 'w) Orchestrator"
  assumes o: "origin_serves (or_upstream orch) url data vals" "no_range hs"
    and st: "store_right (pl_object p) (om_generation (pl_meta p)) (or_slice_size orch) data (or_store orch)"
    and s: "0 < or_slice_size orch" and len: "length data \<le> 2 ^ 32 * unat (or_slice_size orch)"
    and r: "run_fill p url hs fill orch w = Some (r, orch', w')"
  shows "store_right (pl_object p) (om_generation (pl_meta p)) (or_slice_size orch) data (or_store orch')
    \<and> or_upstream orch' = or_upstream orch \<and> or_slice_size orch' = or_slice_size orch"
proof (cases "us_stream (or_upstream orch) (pl_service p) url hs w")
  case (Pair q w1)
  show ?thesis
  proof (cases q)
    case (Inl e)
    then show ?thesis using r Pair st by (simp add: run_fill_def)
  next
    case (Inr x)
    obtain h cs where x: "x = (h, cs)" by fastforce
    let ?s = "unat (or_slice_size orch)" and ?g = "om_generation (pl_meta p)"
    let ?act = "land_slice (pl_object p) ?g (header_for (pl_meta p) (or_slice_size orch)) fill
      :: u32 \<Rightarrow> u8 list \<Rightarrow> ('s, 'w fetch_env) SliceStore \<times> FillRegistry \<Rightarrow> _"
    let ?landed = "if first_error cs = None then slices_of ?s (ok_prefix cs) else full_slices ?s (ok_prefix cs)"
    have s': "0 < ?s" using s by (simp add: word_less_nat_alt)
    have pre: "prefix (ok_prefix cs) data"
      using o Pair Inr x unfolding origin_serves_def by blast
    have nth: "?landed ! j = take ?s (drop (j * ?s) (ok_prefix cs)) \<and> j * ?s < length (ok_prefix cs)"
      if "j < length ?landed" for j
      using slices_of_nth [OF s', of j "ok_prefix cs"] that
      by (auto simp: slices_of_def nth_append split: if_splits)
    have right: "store_right (pl_object p) ?g (or_slice_size orch) data (fst (land_all ?act 0 ?landed (or_store orch, or_fills orch)))"
    proof (rule land_all_invariant [where Q = "\<lambda>x. store_right (pl_object p) ?g (or_slice_size orch) data (fst x)"])
      fix j and y :: "('s, 'w fetch_env) SliceStore \<times> FillRegistry"
      assume y: "store_right (pl_object p) ?g (or_slice_size orch) data (fst y)" and j: "j < length ?landed"
      have "j * ?s < 2 ^ 32 * ?s"
        using nth [OF j] prefix_length_le [OF pre] len by linarith
      then have "unat (of_nat j :: u32) = j" using unat_of_len [of j] by simp
      then have "right_slice (pl_object p) ?g (or_slice_size orch) data (SliceKey_new (pl_object p) ?g (0 + of_nat j))
          (SliceValue_new (header_for (pl_meta p) (or_slice_size orch)) (?landed ! j))"
        using nth [OF j] prefix_take_drop [OF pre] by (simp add: right_slice_def)
      then show "store_right (pl_object p) ?g (or_slice_size orch) data (fst (?act (0 + of_nat j) (?landed ! j) y))"
        using cache.insert_sound y unfolding store_right_sound land_slice_def fst_conv by blast
    qed (simp add: st)
    show ?thesis
      using right r run_fill_exact [of orch p url hs w h cs w1 fill] Pair Inr x s
      by (auto simp: Let_def)
  qed
qed

lemma ensure_filled_right:
  assumes o: "origin_serves (or_upstream orch) url data vals" "no_range hs"
    and st: "store_right (pl_object p) (om_generation (pl_meta p)) (or_slice_size orch) data (or_store orch)"
    and s: "0 < or_slice_size orch" and len: "length data \<le> 2 ^ 32 * unat (or_slice_size orch)"
    and r: "ensure_filled ev p url hs i orch w = Some (r, orch', w')"
  shows "store_right (pl_object p) (om_generation (pl_meta p)) (or_slice_size orch) data (or_store orch')
    \<and> or_upstream orch' = or_upstream orch \<and> or_slice_size orch' = or_slice_size orch"
proof (cases "store_contains (or_store orch) (SliceKey_new (pl_object p) (om_generation (pl_meta p)) i)")
  case True
  then show ?thesis using r st by (simp add: ensure_filled_def)
next
  case missing: False
  obtain reg role where c: "claim (or_fills orch) (pl_object p) = (reg, role)" by fastforce
  show ?thesis
  proof (cases role)
    case (Subscriber a v)
    then show ?thesis using r st c missing by (auto simp: ensure_filled_def split: waiter.splits)
  next
    case (Filler a)
    obtain q orch1 w1 where f: "run_fill p url hs a (orch\<lparr>or_fills := reg\<rparr>) w = Some (q, orch1, w1)"
      using r c missing Filler by (auto simp: ensure_filled_def bind_eq_Some_conv)
    have o': "or_store orch' = or_store orch1" "or_upstream orch' = or_upstream orch1" "or_slice_size orch' = or_slice_size orch1"
      using r c missing Filler f by (cases q; auto simp: ensure_filled_def Let_def update_fill_def)+
    show ?thesis using run_fill_right [OF _ _ _ _ _ f, of data vals] o st s len o' by simp
  qed
qed

lemma orch_slice_right:
  assumes o: "origin_serves (or_upstream orch) url data (meta_validators (pl_meta p))" "no_range hs"
    and st: "store_right (pl_object p) (om_generation (pl_meta p)) (or_slice_size orch) data (or_store orch)"
    and s: "0 < or_slice_size orch" and len: "length data \<le> 2 ^ 32 * unat (or_slice_size orch)"
    and r: "orch_slice ev p url hs i orch w = Some (r, orch', w')"
  shows "store_right (pl_object p) (om_generation (pl_meta p)) (or_slice_size orch) data (or_store orch')
    \<and> or_upstream orch' = or_upstream orch \<and> or_slice_size orch' = or_slice_size orch
    \<and> (\<forall>v. r = Ok v \<longrightarrow> prefix (sv_payload v) (drop (unat i * unat (or_slice_size orch)) data))"
proof (cases "om_no_ranges (pl_meta p)")
  case False
  then show ?thesis using r ranged_slice_right [OF o st, of ev i w r orch' w'] by (simp add: orch_slice_def)
next
  case True
  then obtain q orch1 w1 where f: "ensure_filled ev p url hs i orch w = Some (q, orch1, w1)"
    using r by (auto simp: orch_slice_def bind_eq_Some_conv)
  note e = ensure_filled_right [OF o st s len f]
  show ?thesis
  proof (cases q)
    case (Inl err)
    then show ?thesis using r True f e by (auto simp: orch_slice_def)
  next
    case (Inr u)
    obtain x st' where g: "store_get (or_store orch1) (SliceKey_new (pl_object p) (om_generation (pl_meta p)) i) = (x, st')"
      by fastforce
    have "orch' = orch1\<lparr>or_store := st'\<rparr>" "\<forall>v. r = Ok v \<longrightarrow> x = Ok (Some v)"
      using r True f Inr g by (auto simp: orch_slice_def split: sum.splits option.splits)
    then show ?thesis using store_get_right [OF conjunct1 [OF e] g] e by auto
  qed
qed

section \<open>Properties\<close>


lemma sample_origin: "origin_serves sample_upstream ''u'' sample_data (meta_validators sample_meta)"
  by (auto simp: origin_serves_def sample_upstream_def take_is_prefix) (simp add: sample_data_def)

lemma empty_store_right: "store_right object g s data \<lparr>ss_ops = alist_foyer, ss_state = []\<rparr>"
  by (simp add: store_right_def store_inv_def store_view_def alist_foyer_ok) (simp add: alist_foyer_def)

definition sample_env :: env where
  "sample_env = \<lparr>ev_now_secs = 7, ev_now = 0, ev_text = (\<lambda>_. ''failed''), ev_display = (\<lambda>_. ''failed''), ev_blake3 = id\<rparr>"

lemma fresh_slice:
  assumes "or_store orch = \<lparr>ss_ops = alist_foyer, ss_state = []\<rparr>" "\<not> om_no_ranges (pl_meta p)"
    and "slice_extent i (or_slice_size orch) (pl_total_len p) = \<lparr>br_start = a, br_end = b\<rparr>"
    and "us_range (or_upstream orch) (pl_service p) url hs a b w = (Ok r, w')"
    and "validators_match (meta_validators (pl_meta p)) (response_validators r)"
    and "of_nat (length (up_body r)) = range_len \<lparr>br_start = a, br_end = b\<rparr>"
  shows "\<exists>orch'. orch_slice ev p url hs i orch w
     = Some (Ok (SliceValue_new (header_for (pl_meta p) (or_slice_size orch)) (up_body r)), orch', w')"
  using assms
  by (simp add: orch_slice_def ranged_slice_def get_or_fetch_slice_def fetch_slice_def store_get_or_fetch_def alist_foyer_def Let_def)

lemma sample_slice_at:
  assumes "pl_meta p = sample_meta" "pl_total_len p = 10"
    and "or_store orch = \<lparr>ss_ops = alist_foyer, ss_state = []\<rparr>" "or_upstream orch = sample_upstream" "or_slice_size orch = 4"
  shows "\<exists>orch'. orch_slice ev p ''u'' hs 1 orch ()
     = Some (Ok (SliceValue_new (header_for sample_meta 4) [4, 5, 6, 7]), orch', ())"
proof -
  let ?r = "\<lparr>up_status = 206, up_headers = [(''etag'', ''e''), (''content-range'', ''bytes 0-3/10'')], up_body = [4, 5, 6, 7]\<rparr>"
  have v: "validators_match (meta_validators sample_meta) (response_validators ?r)"
    by (simp add: validators_match_def meta_validators_def response_validators_def sample_meta_def Validators_new_def
        response_header_def hget_def to_str_def visible_ascii_def strong_eq_def starts_with_def)
  have "\<exists>orch'. orch_slice ev p ''u'' hs 1 orch ()
      = Some (Ok (SliceValue_new (header_for (pl_meta p) (or_slice_size orch)) (up_body ?r)), orch', ())"
  proof (rule fresh_slice [OF assms(3)])
    show "us_range (or_upstream orch) (pl_service p) ''u'' hs 4 7 () = (Ok ?r, ())"
      by (simp add: assms sample_upstream_def sample_data_def)
    show "validators_match (meta_validators (pl_meta p)) (response_validators ?r)" using v by (simp only: assms)
  qed (simp_all add: assms sample_meta_def slice_extent_def saturating_sub_def range_len_def)
  then show ?thesis by (simp add: assms)
qed

lemma sample_slice_fetched:
  "\<exists>orch'. orch_slice sample_env sample_plan ''u'' [] 1 sample_orch ()
     = Some (Ok (SliceValue_new (header_for sample_meta 4) [4, 5, 6, 7]), orch', ())"
  by (rule sample_slice_at) (simp_all add: sample_plan_def)


end
