(* ===== verification/Orch_Versions.thy ===== *)
theory Orch_Versions
  imports Orch_Correct
begin

text \<open>
  What the orchestrator does when an object changes, when a slice cannot be had, and when it fetches
  ahead: invalidation and the generation of the next version, the errors reported and counted, and the
  bounds of prefetching.
\<close>

section \<open>Changed objects\<close>

lemma index_invalidate_known:
  assumes "index_inv ix" "index_get ix object = Ok (Some m)" "index_invalidate ix object = Ok (ix', g)"
  shows "index_inv ix' \<and> g = om_generation m + 1
    \<and> index_map ix' object = Some (m\<lparr>om_generation := om_generation m + 1, om_stale := True\<rparr>)"
proof -
  let ?f = "\<lambda>m. m\<lparr>om_generation := om_generation m + 1, om_stale := True\<rparr>"
  have "index_put ix object (?f m) = Ok ix'" "g = om_generation m + 1"
    using assms(2,3) by (auto simp: index_invalidate_def rbind_Ok Let_def)
  then show ?thesis
    using idx.update_law [of ix object m ?f ix'] assms(1,2) by (auto simp: valid_meta_def)
qed

text \<open>Where a validator change is reported, the old version has been invalidated.\<close>

lemma ranged_slice_changed:
  assumes "ranged_slice ev p url hs i orch w = (Err (ValidatorChanged u had now), orch', w')"
    and "store_inv (or_store orch)"
  shows "or_metadata orch' (pl_object p) = None \<and> store_view (or_store orch') \<subseteq>\<^sub>m store_view (or_store orch)
    \<and> (\<forall>ix g. index_invalidate (or_index orch) (pl_object p) = Ok (ix, g) \<longrightarrow> or_index orch' = ix)
    \<and> (\<exists>r w2. us_range (or_upstream orch) (pl_service p) url hs
          (br_start (slice_extent i (or_slice_size orch) (pl_total_len p)))
          (br_end (slice_extent i (or_slice_size orch) (pl_total_len p))) w = (Ok r, w2)
          \<and> \<not> validators_match (meta_validators (pl_meta p)) (response_validators r))"
proof -
  have main: "or_metadata orch1 (pl_object p) = None \<and> store_view (or_store orch1) \<subseteq>\<^sub>m store_view (or_store orch)
      \<and> (\<forall>ix g. index_invalidate (or_index orch) (pl_object p) = Ok (ix, g) \<longrightarrow> or_index orch1 = ix)
      \<and> (\<exists>r w2. us_range (or_upstream orch) (pl_service p) url hs
          (br_start (slice_extent i (or_slice_size orch) (pl_total_len p)))
          (br_end (slice_extent i (or_slice_size orch) (pl_total_len p))) w = (Ok r, w2)
          \<and> \<not> validators_match (meta_validators (pl_meta p)) (response_validators r))"
    if g: "get_or_fetch_slice ev p url hs i orch w = (Err se, st, e)"
      and f: "failed_slice p url se e (orch\<lparr>or_store := st, or_metrics := fe_metrics e\<rparr>) = (ValidatorChanged u had now, orch1)"
    for se st e orch1
  proof -
    obtain found where found: "fe_observed e = Some found"
      using f by (cases "fe_observed e") (auto simp: failed_slice_def)
    note law = cache.fetch_law [OF assms(2) g [unfolded get_or_fetch_slice_def]]
    have le: "store_view st \<subseteq>\<^sub>m store_view (or_store orch)" using law by auto
    have "\<exists>r w2. us_range (or_upstream orch) (pl_service p) url hs
          (br_start (slice_extent i (or_slice_size orch) (pl_total_len p)))
          (br_end (slice_extent i (or_slice_size orch) (pl_total_len p))) w = (Ok r, w2)
        \<and> \<not> validators_match (meta_validators (pl_meta p)) (response_validators r)"
      using law found by (auto dest!: fetch_slice_Err [OF _ _ found])
    then show ?thesis
      using f found le by (auto simp: failed_slice_def bump_generation_def split: sum.splits)
  qed
  from assms(1) show ?thesis
  proof (cases rule: ranged_slice_cases)
    case (fetched v st e)
    then show ?thesis by simp
  next
    case (failed se st e err orch1)
    then show ?thesis using main [of se st e orch1] by simp
  next
    case (stale se st e err orch1 x st')
    then have "err = ValidatorChanged u had now" by auto
    then show ?thesis using stale(4) by (simp add: is_transient_orchestrator_error_def)
  qed
qed

lemma metadata_reprobes:
  assumes "metadata ev key object url hs k orch w = (Ok (meta, probed), orch', w')"
    and "or_metadata orch object = None"
    and "index_get (or_index orch) object = Ok (Some m)" "om_stale m"
  shows "probed \<and> om_generation meta = om_generation m \<and> \<not> om_stale meta"
proof -
  have "cell object orch = (None, orch\<lparr>or_metadata := (or_metadata orch)(object \<mapsto> None)\<rparr>)"
    using assms(2) by (simp add: cell_def)
  then have "\<exists>orch1 w1. probe ev key object url hs k (orch\<lparr>or_metadata := (or_metadata orch)(object \<mapsto> None)\<rparr>) w = (Ok meta, orch1, w1)
      \<and> probed"
    using assms by (auto simp: metadata_def split: sum.splits prod.splits)
  then show ?thesis
    using assms(3) by (auto simp: probe_def Let_def probed_meta_def split: sum.splits prod.splits)
qed


text \<open>The sample object after it changed at the origin.\<close>

definition changed_response :: "u8 list \<Rightarrow> UpstreamResponse" where
  "changed_response body =
    \<lparr>up_status = 206, up_headers = [(''etag'', ''f''), (''content-range'', ''bytes 0-3/10'')], up_body = body\<rparr>"

definition changed_orch ::
  "((ObjectId \<times> bytes) list, (ObjectId \<times> bytes) list, (SliceKey \<times> SliceValue) list, unit) Orchestrator" where
  "changed_orch = sample_orch\<lparr>or_upstream :=
     sample_upstream\<lparr>us_range := (\<lambda>service url hs a b w. (Ok (changed_response [9]), w))\<rparr>\<rparr>"

lemma changed_validators:
  "response_validators (changed_response b) = \<lparr>va_etag = Some ''f'', va_last_modified = None\<rparr>"
  by (simp add: response_validators_def changed_response_def Validators_new_def response_header_def hget_def to_str_def
      visible_ascii_def)

lemma changed_shape: "probed_shape url (changed_response b) = Ok (10, False)"
proof -
  have "content_range_total (changed_response b) = Some 10"
    by (simp add: content_range_total_def changed_response_def response_header_def hget_def to_str_def visible_ascii_def
        parse_u64_def str_simps)
  then show ?thesis by (simp add: probed_shape_def changed_response_def)
qed

lemma changed_orch_sel:
  "or_store changed_orch = \<lparr>ss_ops = alist_foyer, ss_state = []\<rparr>" "or_slice_size changed_orch = 4"
  "or_index changed_orch = sample_index" "or_metadata changed_orch = Map.empty"
  by (simp_all add: changed_orch_def)

lemma changed_slice:
  "\<exists>orch'. ranged_slice sample_env sample_plan ''u'' [] 1 changed_orch ()
     = (Err (ValidatorChanged ''u'' (Some ''e'') (Some ''f'')), orch', ()) \<and> or_upstream orch' = or_upstream changed_orch
     \<and> or_metadata orch' [1] = None"
proof -
  have m: "\<not> validators_match (meta_validators sample_meta) \<lparr>va_etag = Some ''f'', va_last_modified = None\<rparr>"
    by (simp add: validators_match_def meta_validators_def sample_meta_def Validators_new_def strong_eq_def)
  have f: "fetch_slice sample_env (or_upstream changed_orch) service url hs i x (meta_validators sample_meta) h e
      = (Err ''failed'', e\<lparr>fe_world := (), fe_metrics := record_fetch service (Suc 0) (fe_metrics e),
           fe_observed := Some \<lparr>va_etag = Some ''f'', va_last_modified = None\<rparr>\<rparr>)" for service url hs i x h e
    using m by (simp add: fetch_slice_def changed_orch_def changed_validators Let_def sample_env_def)
      (simp add: changed_response_def)
  have g: "get_or_fetch_slice sample_env sample_plan ''u'' [] 1 changed_orch ()
      = (Err (Fetch ''failed''), or_store changed_orch,
         \<lparr>fe_world = (), fe_observed = Some \<lparr>va_etag = Some ''f'', va_last_modified = None\<rparr>,
          fe_metrics = record_fetch ''steam'' (Suc 0) (or_metrics changed_orch)\<rparr>)"
    unfolding get_or_fetch_slice_def
    by (simp add: changed_orch_sel sample_plan_def) (rule alist_store_miss(1) [OF _ f [THEN trans]]; simp)
  obtain n orch1 where b: "bump_generation [1] (changed_orch\<lparr>or_store := or_store changed_orch,
      or_metrics := record_fetch ''steam'' (Suc 0) (or_metrics changed_orch)\<rparr>) = (n, orch1)" by fastforce
  note k = bump_generation_keeps [OF b]
  show ?thesis
    using g b k
    by (simp add: ranged_slice_def sample_plan_def is_transient_orchestrator_error_def) (simp add: sample_meta_def)
qed


section \<open>Failures\<close>

text \<open>
  An object with a weak entity tag cannot be served beyond what is stored. A weak tag matches nothing, not
  even itself, so each fetch of a slice of such an object is taken for a change of the object and
  fails, although the origin repeats the same tag.
\<close>

theorem weak_etag_never_fetched:
  assumes "om_etag (pl_meta p) = Some (''W/'' @ t)" and "store_inv (or_store orch)"
    and "store_view (or_store orch) (SliceKey_new (pl_object p) (om_generation (pl_meta p)) i) = None"
    and "ranged_slice ev p url hs i orch w = (r, orch', w')"
  shows "\<exists>e. r = Err e"
proof -
  let ?k = "SliceKey_new (pl_object p) (om_generation (pl_meta p)) i"
  have m: "\<not> validators_match (meta_validators (pl_meta p)) found" for found
    using assms(1) by (cases "va_etag found")
      (auto simp: validators_match_def meta_validators_def Validators_new_def strong_eq_def starts_with_append)
  have f: "fetch_slice ev (or_upstream orch) service url hs i x (meta_validators (pl_meta p)) h e \<noteq> (Ok v, e')"
    for service x h e v e'
    using m fetch_slice_Ok by blast
  have none: "q \<noteq> Ok v \<and> store_view st ?k = None \<and> store_inv st"
    if g: "get_or_fetch_slice ev p url hs i orch w = (q, st, e)" for q st e v
    using cache.fetch_law [OF assms(2) g [unfolded get_or_fetch_slice_def]] f assms(3)
    by (auto simp: map_le_def dom_def)
  from assms(4) show ?thesis
  proof (cases rule: ranged_slice_cases)
    case (fetched v st e)
    then show ?thesis using none [OF fetched(1)] by blast
  next
    case (failed se st e err orch1)
    then show ?thesis by blast
  next
    case (stale se st e err orch1 x st')
    have "or_store orch1 = st" using failed_slice_keeps(1) [OF stale(2)] by simp
    then have "x \<noteq> Ok (Some v)" for v
      using cache.get_law [of "or_store orch1" ?k x st'] stale(3) none [OF stale(1)] by auto
    then show ?thesis using stale(6) by blast
  qed
qed

theorem weak_etag_never_fetched_witness:
  "\<exists>e. fst (ranged_slice sample_env (sample_plan\<lparr>pl_meta := sample_meta\<lparr>om_etag := Some ''W/e''\<rparr>\<rparr>) ''u'' [] 1 sample_orch ())
     = Err e"
proof -
  let ?p = "sample_plan\<lparr>pl_meta := sample_meta\<lparr>om_etag := Some ''W/e''\<rparr>\<rparr>"
  obtain r orch' w' where r: "ranged_slice sample_env ?p ''u'' [] 1 sample_orch () = (r, orch', w')" by (metis prod_cases3)
  have "\<exists>e. r = Err e"
    by (rule weak_etag_never_fetched [OF _ _ _ r, of "''e''"])
      (simp_all add: store_inv_def store_view_def alist_foyer_ok, simp add: alist_foyer_def)
  then show ?thesis using r by simp
qed

text \<open>
  The kind of a failed slice fetch is lost. However the upstream failed, the error that reaches the
  counter is the store's or a validator change, so its kind is always \<open>other\<close>.
\<close>

theorem failure_kind_is_other:
  assumes "ranged_slice ev p url hs i orch w = (Err err, orch', w')"
  shows "error_kind err = ''other''"
proof -
  have "error_kind err' = ''other''" if "failed_slice p url se e orch0 = (err', orch1)" for se e orch0 orch1 err'
    using failed_slice_keeps(4) [OF that] by (auto simp: error_kind_def)
  with assms show ?thesis by (cases rule: ranged_slice_cases) auto
qed

theorem failure_kind_is_other_witness:
  "error_kind (ValidatorChanged ''u'' (Some ''e'') (Some ''f'')) = ''other''"
proof -
  obtain orch' where "ranged_slice sample_env sample_plan ''u'' [] 1 changed_orch ()
      = (Err (ValidatorChanged ''u'' (Some ''e'') (Some ''f'')), orch', ())"
    using changed_slice by blast
  then show ?thesis by (rule failure_kind_is_other)
qed

section \<open>Planning\<close>

lemma wanted_range_bounds:
  assumes "wanted_range spec len = Ok r" "0 < len" "\<And>sp. spec = Some sp \<Longrightarrow> spec_ordered sp"
  shows "br_start r \<le> br_end r \<and> br_end r < len"
proof (cases spec)
  case None
  then have "r = \<lparr>br_start = 0, br_end = len - 1\<rparr>"
    using assms(1,2) by (auto simp: wanted_range_def whole_def word_gt_0)
  then show ?thesis using assms(2) unat_pred [of len] by (auto simp: word_less_nat_alt word_eq_0_unat)
next
  case (Some sp)
  then have "Proxy_Range.resolve sp len = Ok r"
    using assms(1) by (cases "Proxy_Range.resolve sp len") (auto simp: wanted_range_def)
  then show ?thesis using resolve_cases [of sp len] assms(3) Some by auto
qed

lemma request_spec_ordered: "request_spec raw = Some sp \<Longrightarrow> spec_ordered sp"
  by (auto simp: request_spec_def dest: parse_range_ordered split: option.splits sum.splits)

text \<open>
  A range beyond the end of an object is refused differently when the object is not known. With its
  length recorded the request is unsatisfiable, with the length in the error; otherwise the probe asks the origin
  for a slice that does not exist, and the origin's refusal is reported as an upstream failure.
\<close>

theorem range_past_end_cold:
  assumes "request_spec raw_range = Some (From start)" and "0 < or_slice_size orch"
    and "object = object_id (ev_blake3 ev) key" and "or_metadata orch object = None"
    and "us_range (or_upstream orch) (ck_service key) url hs
           (ucast (ucast (start div ucast (or_slice_size orch)) :: u32) * ucast (or_slice_size orch))
           (ucast (ucast (start div ucast (or_slice_size orch)) :: u32) * ucast (or_slice_size orch) + ucast (or_slice_size orch) - 1) w
         = (Err (Status url 416), w')"
  shows "(index_get (or_index orch) object = Ok None \<longrightarrow>
            fst (plan_request ev key url hs raw_range orch w) = Err (UpstreamFailed (Status url 416)))
    \<and> (\<forall>m. index_get (or_index orch) object = Ok (Some m) \<longrightarrow> \<not> om_stale m \<longrightarrow> om_total_len m \<le> start \<longrightarrow>
            fst (plan_request ev key url hs raw_range orch w) = Err (RangeUnsatisfiable (om_total_len m)))"
proof -
  have ns: "or_slice_size orch \<noteq> 0" using assms(2) by auto
  have "fst (plan_request ev key url hs raw_range orch w) = Err (UpstreamFailed (Status url 416))"
    if "index_get (or_index orch) object = Ok None"
    using that assms ns by (simp add: plan_request_def Let_def probe_index_for_def metadata_def cell_def probe_def)
  moreover have "Proxy_Range.resolve (From start) len = Err Unsatisfiable" if "len \<le> start" for len
    using that unat_pred [of len]
    by (cases "len = 0") (auto simp: Proxy_Range.resolve_def Let_def word_less_nat_alt word_le_nat_alt word_eq_0_unat)
  then have "fst (plan_request ev key url hs raw_range orch w) = Err (RangeUnsatisfiable (om_total_len m))"
    if "index_get (or_index orch) object = Ok (Some m)" "\<not> om_stale m" "om_total_len m \<le> start" for m
    using that assms(1,3) ns
    by (simp add: plan_request_def Let_def probe_index_for_def metadata_def wanted_range_def)
  ultimately show ?thesis by blast
qed

theorem range_past_end_cold_witness:
  "fst (plan_request sample_env \<lparr>ck_key = ''/depot/1'', ck_service = ''steam''\<rparr> ''u'' [] (Some ''bytes=99-'')
     (sample_orch\<lparr>or_index := \<lparr>ix_ops = alist_redb, ix_db = []\<rparr>,
        or_upstream := sample_upstream\<lparr>us_range := (\<lambda>service url hs a b w. (Err (Status url 416), w))\<rparr>\<rparr>) ())
   = Err (UpstreamFailed (Status ''u'' 416))"
proof -
  have "parse_range ''bytes=99-'' = Ok (From 99)"
    by (simp add: parse_range_def str_simps cong: rbind_weak_cong)
  then have r: "request_spec (Some ''bytes=99-'') = Some (From 99)" by (simp add: request_spec_def)
  let ?orch = "sample_orch\<lparr>or_index := \<lparr>ix_ops = alist_redb, ix_db = []\<rparr>,
        or_upstream := sample_upstream\<lparr>us_range := (\<lambda>service url hs a b w. (Err (Status url 416), w))\<rparr>\<rparr>"
  have i: "index_get (or_index ?orch) k = Ok None" for k by (simp add: index_get_def alist_redb_def)
  show ?thesis
    using range_past_end_cold [OF r, of ?orch, OF _ refl, of sample_env "\<lparr>ck_key = ''/depot/1'', ck_service = ''steam''\<rparr>" "''u''" "[]"
        "()" "()"] i
    by simp
qed

end
