(* ===== verification/Services_Refresh.thy ===== *)
theory Services_Refresh
  imports Services_Matcher
begin

text \<open>
  \<open>services/refresh.rs\<close>: the live domain list and its periodic refresh. The HTTP client is a function from a URL to
  a body or an error, and the JSON reader one from a text to a value; a refresh is one turn of the
  background loop.
\<close>

section \<open>The live list\<close>

record RefreshStats =
  rf_attempts :: u64
  rf_applied :: u64
  rf_unchanged :: u64
  rf_rejected :: u64
  rf_failed :: u64

record LiveServices =
  ls_matcher :: Matcher
  ls_list :: DomainList
  ls_stats :: RefreshStats

definition LiveServices_new :: "DomainList \<Rightarrow> LiveServices" where
  "LiveServices_new list =
    \<lparr>ls_matcher = Matcher_build list, ls_list = list,
     ls_stats = \<lparr>rf_attempts = 0, rf_applied = 0, rf_unchanged = 0, rf_rejected = 0, rf_failed = 0\<rparr>\<rparr>"

definition apply_list :: "DomainList \<Rightarrow> LiveServices \<Rightarrow> bool \<times> LiveServices" where
  "apply_list candidate live =
    (let stats = ls_stats live
     in if pattern_count candidate = 0 then (False, live\<lparr>ls_stats := stats\<lparr>rf_rejected := rf_rejected stats + 1\<rparr>\<rparr>)
        else if ls_list live = candidate then (False, live\<lparr>ls_stats := stats\<lparr>rf_unchanged := rf_unchanged stats + 1\<rparr>\<rparr>)
        else
          let matcher = Matcher_build candidate
          in (True, live\<lparr>ls_matcher := matcher, ls_list := candidate,
                ls_stats := stats\<lparr>rf_applied := rf_applied stats + 1\<rparr>\<rparr>))"

section \<open>Fetching a list\<close>

record RefreshSource =
  so_repo :: string
  so_interval :: u64

text \<open>Removing a suffix as often as it occurs.\<close>

function trim_end_matches_str :: "string \<Rightarrow> string \<Rightarrow> string" where
  "trim_end_matches_str p s =
    (if p \<noteq> [] \<and> ends_with s p then trim_end_matches_str p (take (length s - length p) s) else s)"
  by pat_completeness auto

termination
  by (relation "measure (\<lambda>(p, s). length s)") (auto simp: ends_with_iff)

declare trim_end_matches_str.simps [simp del]

definition raw_base :: "RefreshSource \<Rightarrow> string" where
  "raw_base source =
    (let repo = trim_end_matches_str ''.git'' (trim_end_matches (CHR ''/'') (so_repo source))
     in case strip_prefix repo ''https://github.com/'' of
          Some path \<Rightarrow> ''https://raw.githubusercontent.com/'' @ path @ ''/master''
        | None \<Rightarrow> repo)"

datatype Json = JNull | JBool bool | JNumber int | JString string | JArray "Json list" | JObject "(string \<times> Json) list"

definition json_field :: "string \<Rightarrow> Json \<Rightarrow> Json" where
  "json_field name v =
    (case v of JObject fs \<Rightarrow> (case map_of fs name of Some x \<Rightarrow> x | None \<Rightarrow> JNull) | _ \<Rightarrow> JNull)"

definition as_array :: "Json \<Rightarrow> Json list option" where
  "as_array v = (case v of JArray xs \<Rightarrow> Some xs | _ \<Rightarrow> None)"

definition as_str :: "Json \<Rightarrow> string option" where
  "as_str v = (case v of JString s \<Rightarrow> Some s | _ \<Rightarrow> None)"

datatype RefreshError = RefreshFetch string string | RefreshInvalid DomainsError

primrec fetch_names ::
  "(string \<Rightarrow> string + string) \<Rightarrow> string \<Rightarrow> string list \<Rightarrow> (string \<rightharpoonup> string) \<Rightarrow> RefreshError + (string \<rightharpoonup> string)" where
  "fetch_names http_get base [] files = Ok files"
| "fetch_names http_get base (name # names) files =
    (if files name \<noteq> None then fetch_names http_get base names files
     else
       let url = base @ ''/'' @ name
       in rbind (map_err (RefreshFetch url) (http_get url)) (\<lambda>body.
            fetch_names http_get base names (files(name \<mapsto> body))))"

definition service_files :: "Json \<Rightarrow> string list" where
  "service_files service =
    (case as_array (json_field ''domain_files'' service) of
       Some names \<Rightarrow> List.map_filter as_str names | None \<Rightarrow> [])"

primrec fetch_services ::
  "(string \<Rightarrow> string + string) \<Rightarrow> string \<Rightarrow> Json list \<Rightarrow> (string \<rightharpoonup> string) \<Rightarrow> RefreshError + (string \<rightharpoonup> string)" where
  "fetch_services http_get base [] files = Ok files"
| "fetch_services http_get base (s # ss) files =
    rbind (fetch_names http_get base (service_files s) files) (\<lambda>files. fetch_services http_get base ss files)"

definition fetch_list ::
  "(string \<Rightarrow> string + string) \<Rightarrow> (string \<Rightarrow> string + Json) \<Rightarrow> (string \<Rightarrow> string + RawService list) \<Rightarrow> RefreshSource \<Rightarrow>
   RefreshError + DomainList" where
  "fetch_list http_get json_value json source =
    (let base = raw_base source;
         index_url = base @ ''/cache_domains.json''
     in rbind (map_err (RefreshFetch index_url) (http_get index_url)) (\<lambda>index.
          rbind (map_err (\<lambda>e. RefreshInvalid (DomainsJson e)) (json_value index)) (\<lambda>named.
            rbind (case as_array (json_field ''cache_domains'' named) of
                     Some services \<Rightarrow> fetch_services http_get base services Map.empty
                   | None \<Rightarrow> Ok Map.empty) (\<lambda>files.
              map_err RefreshInvalid (DomainList_parse json index files)))))"

text \<open>One turn of the background loop, after the sleep; with an interval of zero there is none.\<close>

definition refresh_turn ::
  "(string \<Rightarrow> string + string) \<Rightarrow> (string \<Rightarrow> string + Json) \<Rightarrow> (string \<Rightarrow> string + RawService list) \<Rightarrow> RefreshSource \<Rightarrow>
   LiveServices \<Rightarrow> LiveServices" where
  "refresh_turn http_get json_value json source live =
    (if so_interval source = 0 then live
     else
       let stats = ls_stats live;
           live = live\<lparr>ls_stats := stats\<lparr>rf_attempts := rf_attempts stats + 1\<rparr>\<rparr>
       in case fetch_list http_get json_value json source of
            Inr candidate \<Rightarrow> snd (apply_list candidate live)
          | Inl _ \<Rightarrow> live\<lparr>ls_stats := (ls_stats live)\<lparr>rf_failed := rf_failed (ls_stats live) + 1\<rparr>\<rparr>)"

section \<open>Properties\<close>

definition live_inv :: "LiveServices \<Rightarrow> bool" where
  "live_inv live \<longleftrightarrow> ls_matcher live = Matcher_build (ls_list live) \<and> 0 < pattern_count (ls_list live)"

lemma live_inv_new: "0 < pattern_count list \<Longrightarrow> live_inv (LiveServices_new list)"
  by (simp add: live_inv_def LiveServices_new_def)

lemma live_inv_apply: "live_inv live \<Longrightarrow> live_inv (snd (apply_list candidate live))"
  by (auto simp: live_inv_def apply_list_def Let_def)

text \<open>
  A refresh cannot break matching. However many refreshes run and whatever they fetch, the matcher in
  use is the one built from the list in use, which is never empty; a turn either installs a list that
  was fetched and parsed completely, or leaves list and matcher as they were.
\<close>

theorem refresh_never_breaks:
  assumes "live_inv live"
  shows "live_inv (foldl (\<lambda>live (get, value, json, source). refresh_turn get value json source live) live turns)
    \<and> (let live' = refresh_turn http_get json_value json source live
       in (ls_list live' = ls_list live \<and> ls_matcher live' = ls_matcher live)
          \<or> (fetch_list http_get json_value json source = Ok (ls_list live')
             \<and> ls_matcher live' = Matcher_build (ls_list live')))"
proof -
  have turn: "live_inv (refresh_turn get val js src l)" if "live_inv l" for get val js src l
    using that live_inv_apply by (auto simp: refresh_turn_def Let_def live_inv_def split: sum.splits)
  have "live_inv (foldl (\<lambda>live (get, value, json, source). refresh_turn get value json source live) live turns)"
    using assms by (induction turns arbitrary: live) (auto simp: turn split: prod.splits)
  then show ?thesis
    by (auto simp: Let_def refresh_turn_def apply_list_def split: sum.splits)
qed

theorem refresh_never_breaks_witness:
  "live_inv (refresh_turn (\<lambda>_. Err ''timeout'') (\<lambda>_. Ok JNull) (\<lambda>_. Ok []) \<lparr>so_repo = ''r'', so_interval = 60\<rparr>
     (LiveServices_new \<lparr>dl_services = [\<lparr>sv_name = ''steam'', sv_description = [], sv_patterns = [Exact ''a.com'']\<rparr>]\<rparr>))"
proof -
  let ?l = "LiveServices_new \<lparr>dl_services = [\<lparr>sv_name = ''steam'', sv_description = [], sv_patterns = [Exact ''a.com'']\<rparr>]\<rparr>"
  have "live_inv ?l" by (rule live_inv_new) (simp add: pattern_count_def)
  from refresh_never_breaks [OF this,
      of "[(\<lambda>_. Err ''timeout'', \<lambda>_. Ok JNull, \<lambda>_. Ok [], \<lparr>so_repo = ''r'', so_interval = 60\<rparr>)]"]
  show ?thesis by simp
qed

end
