(* ===== verification/Telemetry_Logs.thy ===== *)
theory Telemetry_Logs
  imports Config_Main
begin

text \<open>
  \<open>telemetry/logs.rs\<close>: the access log. A timestamp is computed from the Unix time by the civil-date arithmetic
  of the source, a line in the lancache format is the concatenation of its fields with the values a
  client controls escaped. What the logging library prints around a record is not part of it.
\<close>

section \<open>Timestamps\<close>

definition MONTHS :: "string list" where
  "MONTHS = [''Jan'', ''Feb'', ''Mar'', ''Apr'', ''May'', ''Jun'', ''Jul'', ''Aug'', ''Sep'', ''Oct'', ''Nov'', ''Dec'']"

text \<open>A number with at least the given width, zeros in front.\<close>

definition padded :: "nat \<Rightarrow> nat \<Rightarrow> string" where
  "padded w n = replicate (w - length (show_nat n)) (CHR ''0'') @ show_nat n"

text \<open>Year, month and day of a number of days since the epoch.\<close>

definition year_of_era :: "int \<Rightarrow> int" where
  "year_of_era doe = (doe - doe div 1460 + doe div 36524 - doe div 146096) div 365"

definition month_day :: "int \<Rightarrow> int \<times> int" where
  "month_day doy =
    (let mp = (5 * doy + 2) div 153;
         d = doy - (153 * mp + 2) div 5 + 1;
         m = if mp < 10 then mp + 3 else mp - 9
     in (m, d))"

definition civil_from_days :: "int \<Rightarrow> int \<times> int \<times> int" where
  "civil_from_days days =
    (let z = days + 719468;
         era = z div 146097;
         doe = z mod 146097;
         yoe = year_of_era doe;
         y = yoe + era * 400;
         doy = doe - (365 * yoe + yoe div 4 - yoe div 100);
         (m, d) = month_day doy;
         year = if m \<le> 2 then y + 1 else y
     in (year, m, d))"

definition clf_timestamp :: "u64 \<Rightarrow> string" where
  "clf_timestamp unix_seconds =
    (let days = unat unix_seconds div 86400;
         secs_of_day = unat unix_seconds mod 86400;
         hour = secs_of_day div 3600;
         minute = secs_of_day mod 3600 div 60;
         second = secs_of_day mod 60;
         (year, m, d) = civil_from_days (int days)
     in padded 2 (nat d) @ ''/'' @ MONTHS ! nat (m - 1) @ ''/'' @ padded 4 (nat year) @ '':'' @ padded 2 hour @ '':''
          @ padded 2 minute @ '':'' @ padded 2 second @ '' +0000'')"

section \<open>Lines\<close>

text \<open>The time taken is kept in nanoseconds; the source has it as a float, which is only printed.\<close>

record AccessEvent =
  ae_client_ip :: string
  ae_service :: string
  ae_host :: string
  ae_method :: string
  ae_path :: string
  ae_range :: "string option"
  ae_status :: u16
  ae_bytes :: u64
  ae_cache_status :: string
  ae_upstream_seconds :: nat
  ae_user_agent :: "string option"
  ae_timestamp :: string

definition hex_upper :: "nat \<Rightarrow> char" where
  "hex_upper n = char_of (if n < 10 then 48 + n else 55 + n)"

definition percent :: "char \<Rightarrow> string" where
  "percent c = [CHR ''%'', hex_upper (of_char c div 16), hex_upper (of_char c mod 16)]"

text \<open>
  A character is escaped if it is a quote, a backslash or a control character: a byte below 0x20, 0x7F, or the
  two bytes of a code point from 0x80 to 0x9F.
\<close>

definition must_escape :: "char \<Rightarrow> bool" where
  "must_escape c \<longleftrightarrow> c = CHR 0x22 \<or> c = CHR 0x5C \<or> of_char c < (0x20 :: nat) \<or> c = CHR 0x7F"

definition c1_control :: "char \<Rightarrow> bool" where
  "c1_control c \<longleftrightarrow> 0x80 \<le> (of_char c :: nat) \<and> (of_char c :: nat) < 0xA0"

fun escape_lancache :: "string \<Rightarrow> string" where
  "escape_lancache [] = []"
| "escape_lancache [c] = (if must_escape c then percent c else [c])"
| "escape_lancache (c # d # s) =
    (if c = CHR 0xC2 \<and> c1_control d then percent c @ percent d @ escape_lancache s
     else (if must_escape c then percent c else [c]) @ escape_lancache (d # s))"

definition to_lancache :: "AccessEvent \<Rightarrow> string" where
  "to_lancache e =
    ''['' @ ae_service e @ ''] '' @ ae_client_ip e @ '' / - - - ['' @ ae_timestamp e @ ''] '' @ [CHR 0x22]
      @ ae_method e @ '' '' @ escape_lancache (ae_path e) @ '' HTTP/1.1'' @ [CHR 0x22] @ '' ''
      @ show_word (ae_status e) @ '' '' @ show_word (ae_bytes e) @ '' '' @ [CHR 0x22] @ ''-'' @ [CHR 0x22] @ '' '' @ [CHR 0x22]
      @ escape_lancache (case ae_user_agent e of Some a \<Rightarrow> a | None \<Rightarrow> ''-'') @ [CHR 0x22] @ '' '' @ [CHR 0x22]
      @ ae_cache_status e @ [CHR 0x22]"

text \<open>What is handed to the logging library: a message, with the fields of the event or with none.\<close>

datatype record_value = RText string | RNumber nat

record log_record =
  lr_target :: string
  lr_fields :: "(string \<times> record_value) list"
  lr_message :: string

definition emit :: "LogFormat \<Rightarrow> AccessEvent \<Rightarrow> log_record" where
  "emit format e =
    (case format of
       LogFormat.Json \<Rightarrow>
         \<lparr>lr_target = ''cachic::access'',
          lr_fields = [(''client_ip'', RText (ae_client_ip e)), (''service'', RText (ae_service e)),
            (''host'', RText (ae_host e)), (''method'', RText (ae_method e)), (''path'', RText (ae_path e)),
            (''range'', RText (case ae_range e of Some r \<Rightarrow> r | None \<Rightarrow> ''-'')),
            (''status'', RNumber (unat (ae_status e))), (''bytes'', RNumber (unat (ae_bytes e))),
            (''cache'', RText (ae_cache_status e)),
            (''upstream_seconds'', RNumber (ae_upstream_seconds e)), (''timestamp'', RText (ae_timestamp e))],
          lr_message = ''request''\<rparr>
     | Lancache \<Rightarrow> \<lparr>lr_target = ''cachic::access'', lr_fields = [], lr_message = to_lancache e\<rparr>)"

section \<open>Escaped values\<close>

lemma must_escape_code:
  "must_escape c \<longleftrightarrow> (of_char c :: nat) \<in> {0x22, 0x5C, 0x7F} \<or> (of_char c :: nat) < 0x20"
  using of_char_eq_iff [of c "CHR 0x22", where ?'a = nat] of_char_eq_iff [of c "CHR 0x5C", where ?'a = nat]
    of_char_eq_iff [of c "CHR 0x7F", where ?'a = nat]
  by (auto simp: must_escape_def)

lemma hex_upper_plain: "n < 16 \<Longrightarrow> \<not> must_escape (hex_upper n)"
  by (auto simp: hex_upper_def must_escape_code)

lemma percent_plain: "c \<in> set (percent d) \<Longrightarrow> \<not> must_escape c"
proof -
  have "(of_char d :: nat) div 16 < 16" by (rule less_mult_imp_div_less) simp
  moreover assume "c \<in> set (percent d)"
  ultimately show ?thesis using hex_upper_plain by (auto simp: percent_def must_escape_def)
qed

lemma escape_plain: "c \<in> set (escape_lancache s) \<Longrightarrow> \<not> must_escape c"
  by (induction s rule: escape_lancache.induct) (auto split: if_splits dest: percent_plain)

lemma escape_id: "(\<forall>c \<in> set s. \<not> must_escape c \<and> c \<noteq> CHR 0xC2) \<Longrightarrow> escape_lancache s = s"
  by (induction s rule: escape_lancache.induct) auto

section \<open>The calendar\<close>

definition leap :: "int \<Rightarrow> bool" where
  "leap y \<longleftrightarrow> y mod 4 = 0 \<and> (y mod 100 \<noteq> 0 \<or> y mod 400 = 0)"

definition month_length :: "int \<Rightarrow> int \<Rightarrow> int" where
  "month_length y m = (if m = 2 then (if leap y then 29 else 28) else if m \<in> {4, 6, 9, 11} then 30 else 31)"

definition next_date :: "int \<times> int \<times> int \<Rightarrow> int \<times> int \<times> int" where
  "next_date date =
    (case date of (y, m, d) \<Rightarrow>
       if d < month_length y m then (y, m, d + 1) else if m < 12 then (y, m + 1, 1) else (y + 1, 1, 1))"

text \<open>The first day of a year that starts in March, counted from the start of its era.\<close>

definition year_start :: "int \<Rightarrow> int" where
  "year_start y = 365 * y + y div 4 - y div 100"

definition year_days :: "int \<Rightarrow> int" where
  "year_days y = (if leap (y + 1) then 366 else 365)"

text \<open>The date of a day of an era, by its year and its day in the year.\<close>

definition march_date :: "int \<Rightarrow> int \<Rightarrow> int \<times> int \<times> int" where
  "march_date y doy = (case month_day doy of (m, d) \<Rightarrow> (if m \<le> 2 then y + 1 else y, m, d))"

text \<open>A year of an era as century, cycle of four years and year in the cycle.\<close>

lemma year_parts:
  assumes "0 \<le> y" "y \<le> 399"
  obtains c q s :: int where "y = 100 * c + 4 * q + s" "0 \<le> c" "c \<le> 3" "0 \<le> q" "q \<le> 24" "0 \<le> s" "s \<le> 3"
    "year_start y = 36524 * c + 1461 * q + 365 * s" "leap (y + 1) \<longleftrightarrow> s = 3 \<and> (q = 24 \<longrightarrow> c = 3)"
proof -
  define c q s where "c = y div 100" and "q = y mod 100 div 4" and "s = y mod 100 mod 4"
  have y: "y = 100 * c + 4 * q + s" unfolding c_def q_def s_def by simp
  have b: "0 \<le> c" "c \<le> 3" "0 \<le> q" "q \<le> 24" "0 \<le> s" "s \<le> 3"
    using assms unfolding c_def q_def s_def by (auto simp: div_int_pos_iff)
  have "y div 4 = 25 * c + q" using y b by (intro int_div_pos_eq [where r = s]) auto
  moreover have "y div 100 = c" by (simp add: c_def)
  ultimately have start: "year_start y = 36524 * c + 1461 * q + 365 * s" using y by (simp add: year_start_def)
  have "leap (y + 1) \<longleftrightarrow> s = 3 \<and> (q = 24 \<longrightarrow> c = 3)"
  proof (cases "s = 3")
    case True
    then have e: "y + 1 = 4 * (25 * c + q + 1)" using y by simp
    show ?thesis
    proof (cases "q = 24")
      case True
      then have "y + 1 = 100 * (c + 1)" using e by simp
      moreover have "c \<in> {0, 1, 2, 3}" using b by auto
      ultimately show ?thesis using \<open>s = 3\<close> True by (auto simp: leap_def)
    next
      case False
      have "y + 1 = 100 * c + (4 * q + 4)" using e by simp
      then have "(y + 1) mod 100 = (4 * q + 4) mod 100" by (simp only: mod_mult_self4)
      then have "(y + 1) mod 100 \<noteq> 0" using False b by auto
      moreover have "(y + 1) mod 4 = 0" using e by simp
      ultimately show ?thesis using \<open>s = 3\<close> False by (simp add: leap_def)
    qed
  next
    case False
    have "y + 1 = 4 * (25 * c + q) + (s + 1)" using y by simp
    then have "(y + 1) mod 4 = (s + 1) mod 4" by (simp only: mod_mult_self4)
    then show ?thesis using False b by (auto simp: leap_def)
  qed
  with y b start show thesis by (intro that)
qed

lemma year_start_next:
  assumes "0 \<le> y" "y \<le> 399"
  shows "year_start y + year_days y = (if y = 399 then 146097 else year_start (y + 1))"
proof -
  obtain c q s where p: "y = 100 * c + 4 * q + s" "0 \<le> c" "c \<le> 3" "0 \<le> q" "q \<le> 24" "0 \<le> s" "s \<le> 3"
    "year_start y = 36524 * c + 1461 * q + 365 * s" "leap (y + 1) \<longleftrightarrow> s = 3 \<and> (q = 24 \<longrightarrow> c = 3)"
    using year_parts [OF assms] .
  show ?thesis
  proof (cases "y = 399")
    case True
    then show ?thesis by (simp add: year_start_def year_days_def leap_def)
  next
    case False
    have four: "(y + 1) div 4 = 25 * c + q + (if s = 3 then 1 else 0)"
      using p by (intro int_div_pos_eq [where r = "if s = 3 then 0 else s + 1"]) auto
    have hundred: "(y + 1) div 100 = c + (if s = 3 \<and> q = 24 then 1 else 0)"
      using p by (intro int_div_pos_eq [where r = "if s = 3 \<and> q = 24 then 0 else 4 * q + s + 1"]) auto
    have "year_start (y + 1) = 365 * (y + 1) + (25 * c + q + (if s = 3 then 1 else 0)) - (c + (if s = 3 \<and> q = 24 then 1 else 0))"
      unfolding year_start_def four hundred ..
    moreover have "365 * (y + 1) = 36500 * c + 1460 * q + 365 * s + 365" using p(1) by simp
    moreover have "\<not> (c = 3 \<and> q = 24 \<and> s = 3)" using False p(1) by auto
    ultimately show ?thesis using False by (auto simp: year_days_def p(8,9))
  qed
qed

lemma year_of_era_eq:
  assumes "0 \<le> y" "y \<le> 399" "0 \<le> doy" "doy < year_days y"
  shows "year_of_era (year_start y + doy) = y"
proof -
  obtain c q s where p: "y = 100 * c + 4 * q + s" "0 \<le> c" "c \<le> 3" "0 \<le> q" "q \<le> 24" "0 \<le> s" "s \<le> 3"
    "year_start y = 36524 * c + 1461 * q + 365 * s" "leap (y + 1) \<longleftrightarrow> s = 3 \<and> (q = 24 \<longrightarrow> c = 3)"
    using year_parts [OF assms(1,2)] .
  let ?e = "1461 * q + 365 * s + doy"
  have doy: "doy \<le> 365" "doy = 365 \<longrightarrow> s = 3 \<and> (q = 24 \<longrightarrow> c = 3)"
    using assms(4) p(9) by (auto simp: year_days_def split: if_splits)
  show ?thesis
  proof (cases "c = 3 \<and> q = 24 \<and> s = 3 \<and> doy = 365")
    case True
    then show ?thesis using p(1,8) by (simp add: year_of_era_def)
  next
    case False
    then have e: "0 \<le> ?e" "?e \<le> 36523" using p doy assms(3) by auto
    let ?d = "36524 * c + ?e"
    have "?d div 36524 = c" using e by (intro int_div_pos_eq [where r = ?e]) auto
    moreover have "?d div 146096 = 0" using e p by (intro div_pos_pos_trivial) auto
    moreover
    define t :: int where "t = (if 1460 \<le> q + 24 * c + 365 * s + doy then 1 else 0)"
    have "?d div 1460 = 25 * c + q + t"
      using p doy assms(3)
      by (intro int_div_pos_eq [where r = "q + 24 * c + 365 * s + doy - 1460 * t"]) (auto simp: t_def)
    ultimately have "year_of_era ?d = (365 * y + (doy - t)) div 365"
      using p(1) by (simp add: year_of_era_def algebra_simps)
    also have "\<dots> = y"
      using p doy assms(3) by (intro int_div_pos_eq [where r = "doy - t"]) (auto simp: t_def)
    finally show ?thesis using p(8) by (simp add: add.assoc)
  qed
qed

text \<open>The months of a year that starts in March.\<close>

lemma month_day_at:
  assumes "(153 * mp + 2) div 5 \<le> doy" "doy < (153 * (mp + 1) + 2) div 5"
  shows "month_day doy = (if mp < 10 then mp + 3 else mp - 9, doy - (153 * mp + 2) div 5 + 1)"
proof -
  have "5 * doy + 2 = 153 * mp + (5 * doy + 2 - 153 * mp)" by simp
  moreover have "0 \<le> 5 * doy + 2 - 153 * mp" using assms by linarith
  moreover have "5 * doy + 2 - 153 * mp < 153"
  proof -
    define D where "D = (153 * (mp + 1) + 2) div 5"
    have "5 * D \<le> 153 * (mp + 1) + 2" unfolding D_def by linarith
    moreover have "doy + 1 \<le> D" using assms(2) unfolding D_def by linarith
    ultimately show ?thesis by simp
  qed
  ultimately have "(5 * doy + 2) div 153 = mp" by (rule int_div_pos_eq)
  then show ?thesis by (simp add: month_day_def Let_def)
qed

lemma month_day_table:
  "0 \<le> doy \<Longrightarrow> doy < 31 \<Longrightarrow> month_day doy = (3, doy - -1)"
  "31 \<le> doy \<Longrightarrow> doy < 61 \<Longrightarrow> month_day doy = (4, doy - 30)"
  "61 \<le> doy \<Longrightarrow> doy < 92 \<Longrightarrow> month_day doy = (5, doy - 60)"
  "92 \<le> doy \<Longrightarrow> doy < 122 \<Longrightarrow> month_day doy = (6, doy - 91)"
  "122 \<le> doy \<Longrightarrow> doy < 153 \<Longrightarrow> month_day doy = (7, doy - 121)"
  "153 \<le> doy \<Longrightarrow> doy < 184 \<Longrightarrow> month_day doy = (8, doy - 152)"
  "184 \<le> doy \<Longrightarrow> doy < 214 \<Longrightarrow> month_day doy = (9, doy - 183)"
  "214 \<le> doy \<Longrightarrow> doy < 245 \<Longrightarrow> month_day doy = (10, doy - 213)"
  "245 \<le> doy \<Longrightarrow> doy < 275 \<Longrightarrow> month_day doy = (11, doy - 244)"
  "275 \<le> doy \<Longrightarrow> doy < 306 \<Longrightarrow> month_day doy = (12, doy - 274)"
  "306 \<le> doy \<Longrightarrow> doy < 337 \<Longrightarrow> month_day doy = (1, doy - 305)"
  "337 \<le> doy \<Longrightarrow> doy < 367 \<Longrightarrow> month_day doy = (2, doy - 336)"
  using month_day_at [of 0 doy] month_day_at [of 1 doy] month_day_at [of 2 doy] month_day_at [of 3 doy]
    month_day_at [of 4 doy] month_day_at [of 5 doy] month_day_at [of 6 doy] month_day_at [of 7 doy]
    month_day_at [of 8 doy] month_day_at [of 9 doy] month_day_at [of 10 doy] month_day_at [of 11 doy]
  by simp_all

lemma march_date_within:
  assumes "month_day doy = (m, d)" "month_day (doy + 1) = (m, d + 1)" "d < month_length (if m \<le> 2 then y + 1 else y) m"
  shows "next_date (march_date y doy) = march_date y (doy + 1)"
  using assms by (simp add: march_date_def next_date_def)

lemma march_date_across:
  assumes "month_day doy = (m, d)" "month_day (doy + 1) = (if m < 12 then m + 1 else 1, 1)"
    "d = month_length (if m \<le> 2 then y + 1 else y) m" "m \<noteq> 2" "1 \<le> m" "m \<le> 12"
  shows "next_date (march_date y doy) = march_date y (doy + 1)"
  using assms by (auto simp: march_date_def next_date_def)

text \<open>Before the end of February the next day is in the same month or is the first of the next one.\<close>

lemma march_date_before:
  assumes "0 \<le> doy" "doy < 337"
  shows "next_date (march_date y doy) = march_date y (doy + 1)"
proof -
  have step: "next_date (march_date y doy) = march_date y (doy + 1)"
    if "a \<le> doy" "doy < b" "\<And>x. a \<le> x \<Longrightarrow> x < b \<Longrightarrow> month_day x = (m, x - (a - 1))"
      "month_day b = (if m < 12 then m + 1 else 1, 1)" "\<And>z. month_length z m = b - a" "m \<noteq> 2" "1 \<le> m" "m \<le> 12" for a b m
  proof (cases "doy + 1 < b")
    case True
    then have "month_day (doy + 1) = (m, doy - (a - 1) + 1)" using that(1) that(3) [of "doy + 1"] by simp
    then show ?thesis using that True by (intro march_date_within [OF that(3)]) auto
  next
    case False
    then have "doy + 1 = b" using that(2) by simp
    then show ?thesis using that by (intro march_date_across [OF that(3)]) auto
  qed
  consider
      "0 \<le> doy" "doy < 31"
    | "31 \<le> doy" "doy < 61"
    | "61 \<le> doy" "doy < 92"
    | "92 \<le> doy" "doy < 122"
    | "122 \<le> doy" "doy < 153"
    | "153 \<le> doy" "doy < 184"
    | "184 \<le> doy" "doy < 214"
    | "214 \<le> doy" "doy < 245"
    | "245 \<le> doy" "doy < 275"
    | "275 \<le> doy" "doy < 306"
    | "306 \<le> doy" "doy < 337"
    using assms by linarith
  then show ?thesis
  proof cases
    case 1
    then show ?thesis by (rule step [where m = 3]) (simp_all add: month_day_table month_length_def)
  next
    case 2
    then show ?thesis by (rule step [where m = 4]) (simp_all add: month_day_table month_length_def)
  next
    case 3
    then show ?thesis by (rule step [where m = 5]) (simp_all add: month_day_table month_length_def)
  next
    case 4
    then show ?thesis by (rule step [where m = 6]) (simp_all add: month_day_table month_length_def)
  next
    case 5
    then show ?thesis by (rule step [where m = 7]) (simp_all add: month_day_table month_length_def)
  next
    case 6
    then show ?thesis by (rule step [where m = 8]) (simp_all add: month_day_table month_length_def)
  next
    case 7
    then show ?thesis by (rule step [where m = 9]) (simp_all add: month_day_table month_length_def)
  next
    case 8
    then show ?thesis by (rule step [where m = 10]) (simp_all add: month_day_table month_length_def)
  next
    case 9
    then show ?thesis by (rule step [where m = 11]) (simp_all add: month_day_table month_length_def)
  next
    case 10
    then show ?thesis by (rule step [where m = 12]) (simp_all add: month_day_table month_length_def)
  next
    case 11
    then show ?thesis by (rule step [where m = 1]) (simp_all add: month_day_table month_length_def)
  qed
qed

lemma march_date_next:
  assumes "0 \<le> doy" "doy < year_days y"
  shows "next_date (march_date y doy) = (if doy + 1 < year_days y then march_date y (doy + 1) else march_date (y + 1) 0)"
proof (cases "doy < 337")
  case True
  then show ?thesis using march_date_before assms by (simp add: year_days_def)
next
  case False
  then have "month_day doy = (2, doy - 336)" "doy + 1 < year_days y \<longrightarrow> month_day (doy + 1) = (2, doy - 335)"
    using assms month_day_table(12) [of doy] month_day_table(12) [of "doy + 1"]
    by (auto simp: year_days_def split: if_splits)
  moreover have "month_day 0 = (3, 1)" by (simp add: month_day_def)
  ultimately show ?thesis using False assms(2)
    by (auto simp: march_date_def next_date_def month_length_def year_days_def split: if_splits)
qed

text \<open>Every day is a day of a year of an era, and the computed date is the one of that day.\<close>

definition day_at :: "int \<Rightarrow> int \<Rightarrow> int \<Rightarrow> int \<Rightarrow> bool" where
  "day_at n era y doy \<longleftrightarrow>
    n + 719468 = 146097 * era + year_start y + doy \<and> 0 \<le> y \<and> y \<le> 399 \<and> 0 \<le> doy \<and> doy < year_days y"

lemma civil_day_at: "day_at n era y doy \<Longrightarrow> civil_from_days n = march_date (y + era * 400) doy"
proof -
  assume a: "day_at n era y doy"
  then have start: "0 \<le> year_start y" by (auto simp: day_at_def year_start_def)
  have "year_start y + year_days y \<le> 146097"
  proof -
    from a have y: "0 \<le> y" "y \<le> 399" by (auto simp: day_at_def)
    then obtain c q s where p: "y = 100 * c + 4 * q + s" "0 \<le> c" "c \<le> 3" "0 \<le> q" "q \<le> 24" "0 \<le> s" "s \<le> 3"
      "year_start y = 36524 * c + 1461 * q + 365 * s" "leap (y + 1) \<longleftrightarrow> s = 3 \<and> (q = 24 \<longrightarrow> c = 3)"
      by (rule year_parts)
    then show ?thesis by (simp add: year_days_def)
  qed
  with a start have r: "0 \<le> year_start y + doy" "year_start y + doy < 146097" by (auto simp: day_at_def)
  have z: "n + 719468 = 146097 * era + (year_start y + doy)" using a by (simp add: day_at_def)
  have "(n + 719468) div 146097 = era" "(n + 719468) mod 146097 = year_start y + doy"
    using int_div_pos_eq [OF z r] int_mod_pos_eq [OF z r] by auto
  moreover have "year_of_era (year_start y + doy) = y" using a year_of_era_eq by (simp add: day_at_def)
  ultimately show ?thesis
    by (simp add: civil_from_days_def march_date_def Let_def year_start_def [symmetric] case_prod_beta)
qed

lemma leap_period: "leap (y + era * 400) \<longleftrightarrow> leap y"
proof -
  have "(y + era * 400) mod 4 = y mod 4" "(y + era * 400) mod 100 = y mod 100" "(y + era * 400) mod 400 = y mod 400"
    using mod_mult_self1 [of y "era * 100" 4] mod_mult_self1 [of y "era * 4" 100] mod_mult_self1 [of y era 400]
    by (simp_all add: mult.assoc)
  then show ?thesis by (simp add: leap_def)
qed

lemma year_days_period: "year_days (y + era * 400) = year_days y"
  using leap_period [of "y + 1" era] by (simp add: year_days_def algebra_simps)

lemma day_at_next:
  assumes "day_at n era y doy"
  shows "\<exists>era' y' doy'. day_at (n + 1) era' y' doy'
    \<and> march_date (y' + era' * 400) doy' = next_date (march_date (y + era * 400) doy)"
proof -
  have d: "0 \<le> y" "y \<le> 399" "0 \<le> doy" "doy < year_days y" and n: "n + 719468 = 146097 * era + year_start y + doy"
    using assms by (auto simp: day_at_def)
  have nd: "next_date (march_date (y + era * 400) doy) =
      (if doy + 1 < year_days y then march_date (y + era * 400) (doy + 1) else march_date (y + era * 400 + 1) 0)"
    using march_date_next [of doy "y + era * 400"] d by (simp add: year_days_period)
  have pos: "0 < year_days z" for z by (simp add: year_days_def)
  consider "doy + 1 < year_days y" | "doy + 1 = year_days y" "y < 399" | "doy + 1 = year_days y" "y = 399"
    using d by linarith
  then show ?thesis
  proof cases
    case 1
    then have "day_at (n + 1) era y (doy + 1)" using d n by (simp add: day_at_def)
    with nd 1 show ?thesis by (intro exI conjI) auto
  next
    case 2
    then have "day_at (n + 1) era (y + 1) 0" using d n year_start_next [of y] pos by (simp add: day_at_def)
    moreover have "march_date (y + 1 + era * 400) 0 = next_date (march_date (y + era * 400) doy)"
      using nd 2 by (simp add: algebra_simps)
    ultimately show ?thesis by blast
  next
    case 3
    then have "day_at (n + 1) (era + 1) 0 0" using d n year_start_next [of y] pos by (simp add: day_at_def year_start_def)
    moreover have "march_date (0 + (era + 1) * 400) 0 = next_date (march_date (y + era * 400) doy)"
      using nd 3 by (simp add: algebra_simps)
    ultimately show ?thesis by blast
  qed
qed

lemma civil_is_calendar: "civil_from_days (int n) = (next_date ^^ n) (1970, 1, 1)"
proof -
  have "\<exists>era y doy. day_at (int n) era y doy \<and> march_date (y + era * 400) doy = (next_date ^^ n) (1970, 1, 1)"
  proof (induction n)
    case 0
    have "day_at 0 4 369 306" "march_date (369 + 4 * 400) 306 = (1970, 1, 1)"
      by (simp_all add: day_at_def year_start_def year_days_def leap_def march_date_def month_day_def)
    then show ?case by (intro exI [of _ 4] exI [of _ 369] exI [of _ 306]) simp
  next
    case (Suc n)
    then show ?case using day_at_next by (fastforce simp: add.commute)
  qed
  then show ?thesis using civil_day_at by metis
qed

definition valid_date :: "int \<times> int \<times> int \<Rightarrow> bool" where
  "valid_date date = (case date of (y, m, d) \<Rightarrow> 1 \<le> m \<and> m \<le> 12 \<and> 1 \<le> d \<and> d \<le> month_length y m)"

lemma valid_date_calendar: "valid_date ((next_date ^^ n) (1970, 1, 1))"
proof (induction n)
  case (Suc n)
  have "1 \<le> month_length y m" for y m by (simp add: month_length_def)
  with Suc show ?case by (auto simp: next_date_def valid_date_def split: prod.splits)
qed (simp add: valid_date_def month_length_def)

lemma seconds_split:
  "n = ((n div 86400 * 24 + n mod 86400 div 3600) * 60 + n mod 86400 mod 3600 div 60) * 60 + n mod 86400 mod (60 :: nat)"
proof -
  define s r where "s = n mod 86400" and "r = s mod 3600"
  have sum: "n = ((d * 24 + h) * 60 + mi) * 60 + x" if "n = 86400 * d + s" "s = 3600 * h + r" "r = 60 * mi + x" for d h mi x
    using that by simp
  have "s mod 60 = r mod 60" unfolding r_def by (rule mod_mod_cancel [symmetric]) simp
  then show ?thesis unfolding s_def [symmetric] r_def [symmetric]
    by (intro sum) (simp_all add: s_def r_def)
qed

section \<open>Properties\<close>

text \<open>
  Timestamps are right. For every Unix time, the date printed is the one reached from the first of January
  1970 by as many steps of the Gregorian calendar as days have passed, it is a date that exists, and the
  time printed is the rest of the seconds as hours, minutes and seconds.
\<close>

theorem clf_timestamp_is_calendar:
  "case (next_date ^^ (unat t div 86400)) (1970, 1, 1) of (y, m, d) \<Rightarrow>
     \<exists>h mi sec. unat t = ((unat t div 86400 * 24 + h) * 60 + mi) * 60 + sec \<and> h < 24 \<and> mi < 60 \<and> sec < 60
       \<and> 1 \<le> m \<and> m \<le> 12 \<and> 1 \<le> d \<and> d \<le> month_length y m
       \<and> clf_timestamp t = padded 2 (nat d) @ ''/'' @ MONTHS ! nat (m - 1) @ ''/'' @ padded 4 (nat y)
            @ '':'' @ padded 2 h @ '':'' @ padded 2 mi @ '':'' @ padded 2 sec @ '' +0000''"
proof -
  obtain y m d where date: "(next_date ^^ (unat t div 86400)) (1970, 1, 1) = (y, m, d)" by (metis prod_cases3)
  let ?s = "unat t mod 86400"
  have "unat t = ((unat t div 86400 * 24 + ?s div 3600) * 60 + ?s mod 3600 div 60) * 60 + ?s mod 60"
    by (rule seconds_split)
  moreover have "?s div 3600 < 24" by (rule less_mult_imp_div_less) simp
  moreover have "?s mod 3600 div 60 < 60" by (rule less_mult_imp_div_less) simp
  moreover have "?s mod 60 < 60" by simp
  moreover have "1 \<le> m" "m \<le> 12" "1 \<le> d" "d \<le> month_length y m"
    using valid_date_calendar [of "unat t div 86400"] unfolding date by (simp_all add: valid_date_def)
  moreover have "clf_timestamp t = padded 2 (nat d) @ ''/'' @ MONTHS ! nat (m - 1) @ ''/'' @ padded 4 (nat y)
      @ '':'' @ padded 2 (?s div 3600) @ '':'' @ padded 2 (?s mod 3600 div 60) @ '':'' @ padded 2 (?s mod 60) @ '' +0000''"
    using civil_is_calendar [of "unat t div 86400"] unfolding date by (simp add: clf_timestamp_def Let_def)
  ultimately show ?thesis unfolding date by blast
qed

lemma clean_no_quote: "(\<forall>c \<in> set s. \<not> must_escape c) \<Longrightarrow> CHR 0x22 \<notin> set s"
  by (auto simp: must_escape_def)

lemma quoted_clean:
  "\<forall>c \<in> set a. P c \<Longrightarrow> \<forall>c \<in> set b. P c \<Longrightarrow> \<forall>c \<in> set d. P c \<Longrightarrow> \<forall>c \<in> set f. P c \<Longrightarrow> \<forall>c \<in> set g. P c \<Longrightarrow>
   \<forall>c \<in> set h. P c \<Longrightarrow> \<forall>c \<in> set i. P c \<Longrightarrow> \<forall>c \<in> set j. P c \<Longrightarrow>
   \<forall>c \<in> set (a @ q # b @ q # d @ q # f @ q # g @ q # h @ q # i @ q # j @ q # []). c = q \<or> P c"
  by auto

lemma ball_mono_clean:
  "\<forall>c \<in> set s. c = CHR 0x22 \<or> \<not> must_escape c \<Longrightarrow>
   \<forall>c \<in> set s. 0x20 \<le> (of_char c :: nat) \<and> c \<noteq> CHR 0x7F \<and> c \<noteq> CHR 0x5C"
proof
  fix c assume "\<forall>c \<in> set s. c = CHR 0x22 \<or> \<not> must_escape c" "c \<in> set s"
  then consider "c = CHR 0x22" | "\<not> must_escape c" by blast
  then show "0x20 \<le> (of_char c :: nat) \<and> c \<noteq> CHR 0x7F \<and> c \<noteq> CHR 0x5C"
  proof cases
    case 1
    then show ?thesis by simp
  next
    case 2
    then show ?thesis unfolding must_escape_def de_Morgan_disj not_less by simp
  qed
qed

lemma show_nat_clean: "c \<in> set (show_nat n) \<Longrightarrow> \<not> must_escape c"
  using show_nat_graphic [of c n] by (auto simp: is_digit_def must_escape_code)

lemma padded_clean: "c \<in> set (padded w n) \<Longrightarrow> \<not> must_escape c"
  using show_nat_clean [of c n] by (auto simp: padded_def must_escape_code)

lemma clf_timestamp_clean: "\<forall>c \<in> set (clf_timestamp t). \<not> must_escape c"
proof -
  obtain y m d where date: "(next_date ^^ (unat t div 86400)) (1970, 1, 1) = (y, m, d)" by (metis prod_cases3)
  then have "1 \<le> m" "m \<le> 12" using valid_date_calendar [of "unat t div 86400"] by (simp_all add: valid_date_def)
  then have "MONTHS ! nat (m - 1) \<in> set MONTHS" by (intro nth_mem) (simp add: MONTHS_def)
  then have "\<forall>c \<in> set (MONTHS ! nat (m - 1)). \<not> must_escape c" by (auto simp: MONTHS_def must_escape_def)
  moreover have "civil_from_days (int (unat t div 86400)) = (y, m, d)" using civil_is_calendar date by simp
  ultimately show ?thesis by (auto simp: clf_timestamp_def Let_def dest: padded_clean) (auto simp: must_escape_def)
qed

text \<open>
  A client cannot forge log records. Whatever path and user agent a request carries, its line in the lancache
  format is one line without control characters, and its quotes delimit exactly the fields of the format, so
  a reader that splits the line at the quotes finds every field in its place.
\<close>

theorem log_line_fields:
  assumes "\<forall>c \<in> set (ae_service e) \<union> set (ae_client_ip e) \<union> set (ae_method e) \<union> set (ae_cache_status e). \<not> must_escape c"
    and "ae_timestamp e = clf_timestamp t"
  shows "split (CHR 0x22) (to_lancache e) =
      [''['' @ ae_service e @ ''] '' @ ae_client_ip e @ '' / - - - ['' @ clf_timestamp t @ ''] '',
       ae_method e @ '' '' @ escape_lancache (ae_path e) @ '' HTTP/1.1'',
       '' '' @ show_word (ae_status e) @ '' '' @ show_word (ae_bytes e) @ '' '', ''-'', '' '',
       escape_lancache (case ae_user_agent e of Some a \<Rightarrow> a | None \<Rightarrow> ''-''), '' '', ae_cache_status e, []]
    \<and> (\<forall>c \<in> set (to_lancache e). 0x20 \<le> (of_char c :: nat) \<and> c \<noteq> CHR 0x7F \<and> c \<noteq> CHR 0x5C)"
proof -
  let ?ua = "case ae_user_agent e of Some a \<Rightarrow> a | None \<Rightarrow> ''-''"
  let ?a = "''['' @ ae_service e @ ''] '' @ ae_client_ip e @ '' / - - - ['' @ clf_timestamp t @ ''] ''"
  let ?b = "ae_method e @ '' '' @ escape_lancache (ae_path e) @ '' HTTP/1.1''"
  let ?c = "'' '' @ show_word (ae_status e) @ '' '' @ show_word (ae_bytes e) @ '' ''"
  have line: "to_lancache e = ?a @ CHR 0x22 # ?b @ CHR 0x22 # ?c @ CHR 0x22 # ''-'' @ CHR 0x22 # '' '' @ CHR 0x22
      # escape_lancache ?ua @ CHR 0x22 # '' '' @ CHR 0x22 # ae_cache_status e @ CHR 0x22 # []"
    using assms(2) by (simp add: to_lancache_def)
  have plain: "\<forall>c \<in> set '' ''. \<not> must_escape c" "\<forall>c \<in> set ''-''. \<not> must_escape c"
    by (auto simp: must_escape_def)
  have a: "\<forall>c \<in> set ?a. \<not> must_escape c" using assms(1) clf_timestamp_clean [of t] by (auto simp: must_escape_def)
  have b: "\<forall>c \<in> set ?b. \<not> must_escape c" using assms(1) escape_plain [of _ "ae_path e"] by (auto simp: must_escape_def)
  have c: "\<forall>c \<in> set ?c. \<not> must_escape c" using show_nat_clean by (auto simp: must_escape_def)
  have ua: "\<forall>c \<in> set (escape_lancache ?ua). \<not> must_escape c" using escape_plain by blast
  have cs: "\<forall>c \<in> set (ae_cache_status e). \<not> must_escape c" using assms(1) by simp
  note q = a [THEN clean_no_quote] b [THEN clean_no_quote] c [THEN clean_no_quote] ua [THEN clean_no_quote] cs [THEN clean_no_quote]
    plain [THEN clean_no_quote]
  have "split (CHR 0x22) (to_lancache e) = [?a, ?b, ?c, ''-'', '' '', escape_lancache ?ua, '' '', ae_cache_status e, []]"
    unfolding line by (simp only: split_append_sep q not_False_eq_True) simp
  moreover have "\<forall>c \<in> set (to_lancache e). c = CHR 0x22 \<or> \<not> must_escape c"
    unfolding line by (rule quoted_clean) (fact a b c ua cs plain)+
  then have "\<forall>c \<in> set (to_lancache e). 0x20 \<le> (of_char c :: nat) \<and> c \<noteq> CHR 0x7F \<and> c \<noteq> CHR 0x5C"
    by (rule ball_mono_clean)
  ultimately show ?thesis by (rule conjI)
qed

theorem log_line_fields_witness:
  "split (CHR 0x22) (to_lancache \<lparr>ae_client_ip = ''10.0.0.7'', ae_service = ''steam'', ae_host = ''h'', ae_method = ''GET'',
      ae_path = [CHR 0x22, CHR 0x0A], ae_range = None, ae_status = 200, ae_bytes = 5, ae_cache_status = ''HIT'',
      ae_upstream_seconds = 0, ae_user_agent = None, ae_timestamp = clf_timestamp 0\<rparr>) ! 1 = ''GET %22%0A HTTP/1.1''"
  using log_line_fields [of "\<lparr>ae_client_ip = ''10.0.0.7'', ae_service = ''steam'', ae_host = ''h'', ae_method = ''GET'',
      ae_path = [CHR 0x22, CHR 0x0A], ae_range = None, ae_status = 200, ae_bytes = 5, ae_cache_status = ''HIT'',
      ae_upstream_seconds = 0, ae_user_agent = None, ae_timestamp = clf_timestamp 0\<rparr>" 0]
  by (simp add: must_escape_def c1_control_def percent_def hex_upper_def str_simps)

end
