(* ===== verification/Proxy_Server.thy ===== *)
theory Proxy_Server
  imports Orch_Versions Services_Refresh Proxy_Shutdown Telemetry_Logs
begin

text \<open>
  \<open>proxy/server.rs\<close>: the client-facing server. A request is what the HTTP library has parsed; the target is the
  path with its query, where the request has one. A response carries its body, or for a streamed one the
  slices the stream consists of. The shared state (orchestrator, connection limit, drain, metrics) is
  part of the configuration record, as in the source, and every operation returns it updated. A
  call of \<open>unwrap\<close> on a response that cannot be built is the outcome \<open>Panicked\<close>.
\<close>

section \<open>Data\<close>

definition HEADER_READ_TIMEOUT :: nat where "HEADER_READ_TIMEOUT = 15"

datatype server_metric =
    ConnectionsInc
  | ConnectionsDec
  | Requests string string
  | BytesServed string string u64
  | RequestSeconds string string nat
  | Responses string string

record ('db, 't, 's, 'w) ServerConfig =
  srv_orchestrator :: "('db, 't, 's, 'w) Orchestrator"
  srv_log_format :: LogFormat
  srv_metrics :: "server_metric list option"
  srv_services :: LiveServices
  srv_rules :: Rules
  srv_compiled :: "string \<rightharpoonup> CompiledRule"
  srv_hostname :: string
  srv_passthrough_unknown_hosts :: bool
  srv_allow_host_port :: bool
  srv_connections :: ConnectionLimit
  srv_drain :: Drain

definition with_services ::
  "('db, 't, 's, 'w) Orchestrator \<Rightarrow> LiveServices \<Rightarrow> string \<Rightarrow> ('db, 't, 's, 'w) ServerConfig" where
  "with_services orchestrator services hostname =
    \<lparr>srv_orchestrator = orchestrator, srv_log_format = LogFormat.Json, srv_metrics = None, srv_services = services,
     srv_rules = Rules_default, srv_compiled = Map.empty, srv_hostname = hostname,
     srv_passthrough_unknown_hosts = False, srv_allow_host_port = True,
     srv_connections = ConnectionLimit_new 10000, srv_drain = Drain_new\<rparr>"

definition with_defaults ::
  "('db, 't, 's, 'w) Orchestrator \<Rightarrow> DomainList \<Rightarrow> string \<Rightarrow> ('db, 't, 's, 'w) ServerConfig" where
  "with_defaults orchestrator list hostname = with_services orchestrator (LiveServices_new list) hostname"

record Incoming =
  in_method :: string
  in_path :: string
  in_target :: "string option"
  in_headers :: headers

datatype body =
    TextBody string
  | SliceStream Plan string headers "u32 list" nat

record response =
  rs_status :: nat
  rs_headers :: headers
  rs_body :: body

datatype served = Served response "u32 list" | Failed OrchestratorError | Panicked

definition empty_body :: body where "empty_body = TextBody []"

definition text_response :: "nat \<Rightarrow> string \<Rightarrow> response" where
  "text_response status message =
    \<lparr>rs_status = status, rs_headers = [(''content-type'', ''text/plain; charset=utf-8'')], rs_body = TextBody message\<rparr>"

text \<open>
  A header value made from an owned string may hold any byte but a control character; building a
  response with another one fails.
\<close>

definition valid_header_string :: "string \<Rightarrow> bool" where
  "valid_header_string s = list_all (\<lambda>c. (32 \<le> code c \<and> code c \<noteq> 127) \<or> code c = 9) s"

definition build_response :: "nat \<Rightarrow> headers \<Rightarrow> body \<Rightarrow> u32 list \<Rightarrow> served" where
  "build_response status hs b spawned =
    (if list_all (\<lambda>h. valid_header_string (snd h)) hs
     then Served \<lparr>rs_status = status, rs_headers = hs, rs_body = b\<rparr> spawned
     else Panicked)"

definition header_text :: "headers \<Rightarrow> string \<Rightarrow> string option" where
  "header_text hs name = Option.bind (hget hs name) to_str"

section \<open>Serving a request\<close>

definition request_host :: "Incoming \<Rightarrow> string" where
  "request_host req = (case header_text (in_headers req) ''host'' of Some h \<Rightarrow> h | None \<Rightarrow> [])"

definition upstream_url :: "bool \<Rightarrow> CompiledRule \<Rightarrow> string \<Rightarrow> string \<Rightarrow> string" where
  "upstream_url allow_host_port rule host target =
    (if cr_upstream_https rule then ''https'' else ''http'') @ ''://''
      @ (if allow_host_port then host else normalise_host host) @ target"

definition body_len_of :: "Plan \<Rightarrow> u64" where
  "body_len_of p = (if pl_total_len p = 0 then 0 else range_len (pl_wanted p))"

definition plan_headers :: "string \<Rightarrow> string \<Rightarrow> Plan \<Rightarrow> headers" where
  "plan_headers hostname service p =
    [(''content-length'', show_word (body_len_of p)), (''accept-ranges'', ''bytes''),
     (''x-cache'', CacheStatus_as_str (pl_cache_status p)), (''x-lancache-processed-by'', hostname),
     (''x-cachic-service'', service)]
    @ (if pl_partial p \<and> 0 < pl_total_len p
       then [(''content-range'', ''bytes '' @ show_word (br_start (pl_wanted p)) @ ''-'' @ show_word (br_end (pl_wanted p))
              @ ''/'' @ show_word (pl_total_len p))]
       else [])
    @ List.map_filter (\<lambda>(name, v). map_option (Pair name) (Option.bind v header_value))
        [(''content-type'', om_content_type (pl_meta p)), (''etag'', om_etag (pl_meta p)),
         (''last-modified'', om_last_modified (pl_meta p))]"

text \<open>A plan for the request, planned again without the range when \<open>If-Range\<close> does not match.\<close>

definition plan_if_range ::
  "env \<Rightarrow> CacheKey \<Rightarrow> string \<Rightarrow> headers \<Rightarrow> string option \<Rightarrow> string option \<Rightarrow> ('db, 't, 's, 'w) Orchestrator \<Rightarrow> 'w \<Rightarrow>
   ((OrchestratorError + OrchestratorError) + Plan) \<times> ('db, 't, 's, 'w) Orchestrator \<times> 'w" where
  "plan_if_range ev key url hs raw_range if_range orch w =
    (case plan_request ev key url hs raw_range orch w of
       (Inl e, orch, w) \<Rightarrow> (Inl (Inl e), orch, w)
     | (Inr p, orch, w) \<Rightarrow>
         (case if_range of
            Some header \<Rightarrow>
              if \<not> if_range_matches header (Validators_new (om_etag (pl_meta p)) (om_last_modified (pl_meta p))) then
                (case plan_request ev key url hs None orch w of
                   (Inl e, orch, w) \<Rightarrow> (Inl (Inr e), orch, w)
                 | (Inr p, orch, w) \<Rightarrow> (Ok p, orch, w))
              else (Ok p, orch, w)
          | None \<Rightarrow> (Ok p, orch, w)))"

text \<open>The answer to a planned request: headers, and for a body the read-ahead and the stream.\<close>

definition respond_plan ::
  "env \<Rightarrow> bool \<Rightarrow> string \<Rightarrow> string \<Rightarrow> string \<Rightarrow> headers \<Rightarrow> Plan \<Rightarrow> ('db, 't, 's, 'w) Orchestrator \<Rightarrow>
   served \<times> ('db, 't, 's, 'w) Orchestrator" where
  "respond_plan ev is_head hostname service url forwarded p orch =
    (let hs = plan_headers hostname service p
     in if is_head \<or> body_len_of p = 0 then (build_response (pl_status p) hs empty_body [], orch)
        else case maybe_prefetch ev p orch of
               (Inl _, orch) \<Rightarrow> (Panicked, orch)
             | (Inr spawned, orch) \<Rightarrow>
                 (build_response (pl_status p) hs
                    (SliceStream p url forwarded (orch_indices orch p) (or_readahead orch)) spawned, orch))"

definition serve_cached ::
  "env \<Rightarrow> ('db, 't, 's, 'w) ServerConfig \<Rightarrow> Incoming \<Rightarrow> string \<Rightarrow> CompiledRule \<Rightarrow> string \<Rightarrow> 'w \<Rightarrow>
   served \<times> ('db, 't, 's, 'w) ServerConfig \<times> 'w" where
  "serve_cached ev cfg req service rule target w =
    (let host = request_host req;
         cache_key = normalise service host target rule;
         url = upstream_url (srv_allow_host_port cfg) rule host target;
         forwarded = forwarded_request_headers (in_headers req)
     in case plan_if_range ev cache_key url forwarded (header_text (in_headers req) ''range'')
               (header_text (in_headers req) ''if-range'') (srv_orchestrator cfg) w of
          (Inl (Inl (RangeUnsatisfiable total_len)), orch, w) \<Rightarrow>
            (build_response 416
               [(''content-range'', ''bytes */'' @ show_word total_len), (''x-lancache-processed-by'', srv_hostname cfg)]
               empty_body [],
             cfg\<lparr>srv_orchestrator := orch\<rparr>, w)
        | (Inl (Inl DivisionByZero), orch, w) \<Rightarrow> (Panicked, cfg\<lparr>srv_orchestrator := orch\<rparr>, w)
        | (Inl (Inr DivisionByZero), orch, w) \<Rightarrow> (Panicked, cfg\<lparr>srv_orchestrator := orch\<rparr>, w)
        | (Inl (Inl e), orch, w) \<Rightarrow> (Failed e, cfg\<lparr>srv_orchestrator := orch\<rparr>, w)
        | (Inl (Inr e), orch, w) \<Rightarrow> (Failed e, cfg\<lparr>srv_orchestrator := orch\<rparr>, w)
        | (Inr p, orch, w) \<Rightarrow>
            (case respond_plan ev (in_method req = ''HEAD'') (srv_hostname cfg) service url forwarded p orch of
               (r, orch) \<Rightarrow> (r, cfg\<lparr>srv_orchestrator := orch\<rparr>, w)))"

text \<open>\<open>is_match\<close> is the regular expression engine.\<close>

definition serve ::
  "env \<Rightarrow> (string \<Rightarrow> string \<Rightarrow> bool) \<Rightarrow> Incoming \<Rightarrow> ('db, 't, 's, 'w) ServerConfig \<Rightarrow> 'w \<Rightarrow>
   served \<times> ('db, 't, 's, 'w) ServerConfig \<times> 'w" where
  "serve ev is_match req cfg w =
    (let path = in_path req
     in if is_heartbeat path then
          (case heartbeat_respond (200, []) (srv_hostname cfg) of
             (status, hs) \<Rightarrow> (build_response status hs empty_body [], cfg, w))
        else if in_method req \<noteq> ''GET'' \<and> in_method req \<noteq> ''HEAD'' then
          (Served (text_response 405 (''cachic caches GET and HEAD'' @ [CHR 0x0A])) [], cfg, w)
        else
          case service_for (ls_matcher (srv_services cfg)) (request_host req) of
            None \<Rightarrow>
              (Served (if srv_passthrough_unknown_hosts cfg
                       then text_response 501 (''passthrough is not implemented until TASK-18'' @ [CHR 0x0A])
                       else text_response 404 (''no cached service matches this host'' @ [CHR 0x0A])) [],
               cfg, w)
          | Some service \<Rightarrow>
              let rule = (case srv_compiled cfg service of Some r \<Rightarrow> r | None \<Rightarrow> CompiledRule_default);
                  target = (case in_target req of Some t \<Rightarrow> t | None \<Rightarrow> ''/'')
              in if \<not> is_cacheable is_match rule path then
                   (Served (text_response 501 (''uncached pass-through is not implemented until TASK-18'' @ [CHR 0x0A])) [], cfg, w)
                 else serve_cached ev cfg req service rule target w)"

section \<open>Handling a request\<close>

definition strip_internal_headers :: "response \<Rightarrow> response" where
  "strip_internal_headers r = r\<lparr>rs_headers := filter (\<lambda>h. fst h \<noteq> ''x-cachic-service'') (rs_headers r)\<rparr>"

definition access_event :: "u64 \<Rightarrow> nat \<Rightarrow> string \<Rightarrow> Incoming \<Rightarrow> response \<Rightarrow> AccessEvent" where
  "access_event now elapsed client_ip req r =
    \<lparr>ae_client_ip = client_ip,
     ae_service = (case header_text (rs_headers r) ''x-cachic-service'' of Some s \<Rightarrow> s | None \<Rightarrow> ''-''),
     ae_host = request_host req, ae_method = in_method req, ae_path = in_path req,
     ae_range = header_text (in_headers req) ''range'',
     ae_status = of_nat (rs_status r),
     ae_bytes = (case Option.bind (header_text (rs_headers r) ''content-length'') parse_uint of Some n \<Rightarrow> n | None \<Rightarrow> 0),
     ae_cache_status = (case header_text (rs_headers r) ''x-cache'' of Some s \<Rightarrow> s | None \<Rightarrow> ''-''),
     ae_upstream_seconds = elapsed,
     ae_user_agent = header_text (in_headers req) ''user-agent'',
     ae_timestamp = clf_timestamp now\<rparr>"

definition count_request :: "AccessEvent \<Rightarrow> server_metric list option \<Rightarrow> server_metric list option" where
  "count_request e log =
    map_option (\<lambda>l. l @ [Requests (ae_service e) (ae_cache_status e),
                         BytesServed (ae_service e) (ae_cache_status e) (ae_bytes e),
                         RequestSeconds (ae_service e) (ae_cache_status e) (ae_upstream_seconds e),
                         Responses (ae_service e) (show_word (ae_status e))]) log"

text \<open>
  What a request leads to: a response to send, the slices to read ahead, the access record. None is a
  panic of the handler, after which the guard is dropped as well.
\<close>

definition handle ::
  "env \<Rightarrow> (string \<Rightarrow> string \<Rightarrow> bool) \<Rightarrow> nat \<Rightarrow> string \<Rightarrow> Incoming \<Rightarrow> ('db, 't, 's, 'w) ServerConfig \<Rightarrow> 'w \<Rightarrow>
   (response \<times> u32 list \<times> log_record option) option \<times> ('db, 't, 's, 'w) ServerConfig \<times> 'w" where
  "handle ev is_match elapsed client_ip req cfg w =
    (case drain_enter (srv_drain cfg) of
       None \<Rightarrow> (Some (text_response 503 (''cachic is shutting down'' @ [CHR 0x0A]), [], None), cfg, w)
     | Some d \<Rightarrow>
         (case serve ev is_match req (cfg\<lparr>srv_drain := d\<rparr>) w of
            (outcome, cfg, w) \<Rightarrow>
              let done = cfg\<lparr>srv_drain := snd (drop_guard (srv_drain cfg))\<rparr>;
                  answer = (\<lambda>r spawned.
                    let e = access_event (ev_now_secs ev) elapsed client_ip req r
                    in (Some (strip_internal_headers r, spawned, Some (emit (srv_log_format cfg) e)),
                        done\<lparr>srv_metrics := count_request e (srv_metrics cfg)\<rparr>, w))
              in case outcome of
                   Panicked \<Rightarrow> (None, done, w)
                 | Served r spawned \<Rightarrow> answer r spawned
                 | Failed _ \<Rightarrow> answer (text_response 502 (''upstream error'' @ [CHR 0x0A])) []))"

section \<open>Connections\<close>

definition accept_connection ::
  "IpAddr \<Rightarrow> ('db, 't, 's, 'w) ServerConfig \<Rightarrow> ConnectionPermit option \<times> ('db, 't, 's, 'w) ServerConfig" where
  "accept_connection source cfg =
    (case try_acquire_for source (srv_connections cfg) of
       (None, l) \<Rightarrow> (None, cfg\<lparr>srv_connections := l\<rparr>)
     | (Some permit, l) \<Rightarrow>
         (Some permit, cfg\<lparr>srv_connections := l, srv_metrics := map_option (\<lambda>m. m @ [ConnectionsInc]) (srv_metrics cfg)\<rparr>))"

definition end_connection ::
  "ConnectionPermit \<Rightarrow> ('db, 't, 's, 'w) ServerConfig \<Rightarrow> ('db, 't, 's, 'w) ServerConfig" where
  "end_connection permit cfg =
    cfg\<lparr>srv_metrics := map_option (\<lambda>m. m @ [ConnectionsDec]) (srv_metrics cfg),
        srv_connections := drop_permit permit (srv_connections cfg)\<rparr>"

section \<open>Properties\<close>

text \<open>What serving a request leaves alone.\<close>

lemma serve_keeps:
  assumes "serve ev is_match req cfg w = (out, cfg', w')"
  shows "cfg' = cfg\<lparr>srv_orchestrator := srv_orchestrator cfg'\<rparr>"
proof -
  have "cfg' = cfg\<lparr>srv_orchestrator := srv_orchestrator cfg'\<rparr>"
    if "serve_cached ev cfg req service rule target w = (out, cfg', w')" for service rule target
  proof -
    have "\<exists>orch. cfg' = cfg\<lparr>srv_orchestrator := orch\<rparr>"
      using that by (auto simp: serve_cached_def Let_def split: prod.splits sum.splits OrchestratorError.splits)
    then show ?thesis by auto
  qed
  then show ?thesis
    using assms by (auto simp: serve_def Let_def split: if_splits option.splits prod.splits)
qed

lemma plan_request_status:
  "plan_request ev key url hs raw orch w = (Ok p, orch', w') \<Longrightarrow> pl_status p = (if pl_partial p then 206 else 200)"
  by (auto simp: plan_request_def Let_def rbind_Ok split: sum.splits prod.splits)

lemma plan_if_range_status:
  assumes "plan_if_range ev key url hs raw ifr orch w = (Ok p, orch', w')"
  shows "pl_status p \<in> {200, 206}"
  using assms by (auto simp: plan_if_range_def dest!: plan_request_status
    split: sum.splits prod.splits option.splits if_splits)

lemma serve_status:
  assumes "serve ev is_match req cfg w = (Served r spawned, cfg', w')"
  shows "rs_status r \<in> {200, 204, 206, 404, 405, 416, 501}"
proof -
  have b: "rs_status r \<in> {st}" if "build_response st hs b sp = Served r sp'" for st hs b sp sp'
    using that by (auto simp: build_response_def split: if_splits)
  have rp: "rs_status r \<in> {pl_status p}"
    if "respond_plan ev hd hn sv url fw p orch = (Served r sp, orch')" for hd hn sv url fw p orch sp orch'
    using that by (auto simp: respond_plan_def Let_def dest!: b split: if_splits prod.splits sum.splits)
  have "rs_status r \<in> {200, 206, 416}"
    if sc: "serve_cached ev cfg req service rule target w = (Served r spawned, cfg', w')" for service rule target
  proof -
    obtain q orch1 w1 where q: "plan_if_range ev (normalise service (request_host req) target rule)
        (upstream_url (srv_allow_host_port cfg) rule (request_host req) target)
        (forwarded_request_headers (in_headers req)) (header_text (in_headers req) ''range'')
        (header_text (in_headers req) ''if-range'') (srv_orchestrator cfg) w = (q, orch1, w1)"
      by (metis prod_cases3)
    show ?thesis
    proof (cases q)
      case (Inl e)
      then show ?thesis
        using sc by (cases e) (auto simp: serve_cached_def Let_def q dest!: b split: OrchestratorError.splits)
    next
      case (Inr p)
      have "pl_status p \<in> {200, 206}" by (rule plan_if_range_status [OF q [unfolded Inr]])
      then show ?thesis
        using sc Inr by (auto simp: serve_cached_def Let_def q dest!: rp split: prod.splits)
    qed
  qed
  then show ?thesis
    using assms
    by (auto simp: serve_def Let_def heartbeat_respond_def text_response_def dest!: b split: if_splits option.splits)
qed

text \<open>
  C22: handling a request balances its books. Whatever the request is and however serving it ends, the guard is given back, the
  connection limit, the live services and the configuration are untouched; the answer has one of the
  statuses the server knows and never shows the internal header; while draining, nothing is served.
\<close>

theorem handle_balanced:
  assumes "handle ev is_match elapsed ip req cfg w = (out, cfg', w')"
  shows "cfg' = cfg\<lparr>srv_orchestrator := srv_orchestrator cfg', srv_metrics := srv_metrics cfg'\<rparr>
    \<and> (dr_draining (srv_drain cfg) \<longrightarrow> cfg' = cfg \<and> w' = w \<and> map_option (\<lambda>(r, _). rs_status r) out = Some 503)
    \<and> (case out of
         None \<Rightarrow> True
       | Some (r, spawned, log) \<Rightarrow> rs_status r \<in> {200, 204, 206, 404, 405, 416, 501, 502, 503}
           \<and> hget (rs_headers r) ''x-cachic-service'' = None \<and> (rs_status r = 503 \<longleftrightarrow> log = None))"
proof (cases "drain_enter (srv_drain cfg)")
  case None
  then have "dr_draining (srv_drain cfg)" by (simp add: drain_enter_def split: if_splits)
  with None assms show ?thesis by (auto simp: handle_def text_response_def hget_def)
next
  case (Some d)
  then have d: "\<not> dr_draining (srv_drain cfg)" "snd (drop_guard d) = srv_drain cfg"
    by (auto simp: drain_enter_def drop_guard_def split: if_splits)
  have strip: "hget (rs_headers (strip_internal_headers r)) ''x-cachic-service'' = None"
      "rs_status (strip_internal_headers r) = rs_status r" for r
    by (auto simp: strip_internal_headers_def hget_def map_of_eq_None_iff)
  obtain so cfg1 w1 where sv: "serve ev is_match req (cfg\<lparr>srv_drain := d\<rparr>) w = (so, cfg1, w1)" by (metis prod_cases3)
  obtain orch where c: "cfg1 = cfg\<lparr>srv_drain := d, srv_orchestrator := orch\<rparr>" using serve_keeps [OF sv] by simp
  show ?thesis
  proof (cases so)
    case (Served r spawned)
    have "rs_status r \<in> {200, 204, 206, 404, 405, 416, 501}" by (rule serve_status [OF sv [unfolded Served]])
    then show ?thesis using assms Some Served sv d c strip by (auto simp: handle_def Let_def)
  next
    case (Failed e)
    then show ?thesis using assms Some sv d c strip by (auto simp: handle_def Let_def text_response_def)
  next
    case Panicked
    then show ?thesis using assms Some sv d c by (auto simp: handle_def Let_def)
  qed
qed

definition sample_list :: DomainList where
  "sample_list =
    \<lparr>dl_services = [\<lparr>sv_name = ''steam'', sv_description = [], sv_patterns = [Services_Domains.Suffix ''steamcontent.com'']\<rparr>]\<rparr>"

definition sample_server ::
  "((ObjectId \<times> bytes) list, (ObjectId \<times> bytes) list, (SliceKey \<times> SliceValue) list, unit) ServerConfig" where
  "sample_server = with_defaults sample_orch sample_list ''cachic''"

theorem handle_balanced_witness:
  "srv_connections (fst (snd (handle sample_env (\<lambda>_ _. False) 0 ''10.0.0.7''
      \<lparr>in_method = ''GET'', in_path = ''/x'', in_target = None, in_headers = []\<rparr> sample_server ())))
   = srv_connections sample_server"
proof -
  let ?req = "\<lparr>in_method = ''GET'', in_path = ''/x'', in_target = None, in_headers = []\<rparr>"
  obtain out cfg' w' where h: "handle sample_env (\<lambda>_ _. False) 0 ''10.0.0.7'' ?req sample_server () = (out, cfg', w')"
    by (metis prod_cases3)
  have "cfg' = sample_server\<lparr>srv_orchestrator := srv_orchestrator cfg', srv_metrics := srv_metrics cfg'\<rparr>"
    using handle_balanced [OF h] by blast
  then have "srv_connections cfg' = srv_connections sample_server"
    by (metis ServerConfig.select_convs(10) ServerConfig.surjective ServerConfig.update_convs(1,3))
  then show ?thesis using h by simp
qed

end
