(* ===== verification/Proxy_Body.thy ===== *)
theory Proxy_Body
  imports Proxy_Server
begin

text \<open>
  The body of a response (\<open>proxy/server.rs\<close>, the stream at the end of \<open>serve\<close>). Each slice is fetched by a task of
  its own; the tasks, and those of other clients of the object, run in any order. The stream yields the
  results in the order of the slices up to the first one that is not there yet or failed.
\<close>

section \<open>The tasks of a body\<close>

definition slice_task ::
  "env \<Rightarrow> Plan \<Rightarrow> string \<Rightarrow> headers \<Rightarrow> u32 \<Rightarrow> ('db, 't, 's, 'w) Orchestrator \<Rightarrow> 'w \<Rightarrow>
   ((OrchestratorError + u8 list) \<times> ('db, 't, 's, 'w) Orchestrator \<times> 'w) option" where
  "slice_task ev p url hs index orch w =
    (let win = orch_window orch p index
     in map_option (\<lambda>(r, orch, w).
          (rbind r (\<lambda>v. map_err (\<lambda>_. ShortSlice url index (of_nat (snd win - fst win)) (length (sv_payload v)))
             (orch_payload_window v win)), orch, w))
          (orch_slice ev p url hs index orch w))"

record ('db, 't, 's, 'w) tasks =
  tk_orch :: "('db, 't, 's, 'w) Orchestrator"
  tk_world :: 'w
  tk_frames :: "u32 \<rightharpoonup> OrchestratorError + u8 list"

inductive task_step ::
  "env \<Rightarrow> Plan \<Rightarrow> string \<Rightarrow> headers \<Rightarrow> ('db, 't, 's, 'w) tasks \<Rightarrow> ('db, 't, 's, 'w) tasks \<Rightarrow> bool"
  for ev p url hs where
  own:
    "tk_frames s i = None \<Longrightarrow> i \<in> set (orch_indices (tk_orch s) p) \<Longrightarrow>
     slice_task ev p url hs i (tk_orch s) (tk_world s) = Some (r, orch', w') \<Longrightarrow>
     task_step ev p url hs s (s\<lparr>tk_orch := orch', tk_world := w', tk_frames := (tk_frames s)(i \<mapsto> r)\<rparr>)"
| other:
    "pl_object q = pl_object p \<Longrightarrow> pl_meta q = pl_meta p \<Longrightarrow>
     hs' = forwarded_request_headers client \<Longrightarrow>
     orch_slice ev' q url hs' i (tk_orch s) (tk_world s) = Some (r', orch', w') \<Longrightarrow>
     task_step ev p url hs s (s\<lparr>tk_orch := orch', tk_world := w'\<rparr>)"

text \<open>What the stream has yielded: frames in order, up to the first that is missing.\<close>

definition stream_frames :: "(u32 \<rightharpoonup> 'f) \<Rightarrow> u32 list \<Rightarrow> 'f list" where
  "stream_frames frames idx = map (\<lambda>i. the (frames i)) (takeWhile (\<lambda>i. frames i \<noteq> None) idx)"

section \<open>Frames are right\<close>

lemma segment_of_prefix:
  assumes "prefix bs (drop n data)" "t \<le> length bs"
  shows "take (t - f) (drop f bs) = segment f t (segment n (n + t) data)"
proof -
  obtain zs where "drop n data = bs @ zs" using assms(1) by (auto simp: prefix_def)
  then have "segment n (n + t) data = take t bs" using assms(2) by (simp add: segment_def)
  then show ?thesis by (simp add: segment_def drop_take)
qed

lemma segment_within:
  "t \<le> m \<Longrightarrow> segment f t (segment n (n + m) data) = segment f t (segment n (n + t) data)"
  by (simp add: segment_def drop_take min_def)

text \<open>The bytes a task has to deliver for a slice.\<close>

definition frame_of :: "ByteRange \<Rightarrow> u32 \<Rightarrow> u64 \<Rightarrow> u8 list \<Rightarrow> u32 \<Rightarrow> u8 list" where
  "frame_of r s len data i = rng.cut r s (rng.payload s len data i) i"

lemma frames_tile:
  assumes "addressable r s" "br_end r < len" "length data = unat len"
  shows "concat (map (frame_of r s len data) (plan_indices (Proxy_Range.plan r s))) = range_bytes r data"
  using rng.tiles [OF assms(1) _ assms(3)] assms(2)
  by (simp add: frame_of_def [abs_def] range_bytes_def word_less_nat_alt)

lemma window_frame:
  assumes a: "addressable r s" "br_end r < len" "length data = unat len" "i \<in> set (plan_indices (Proxy_Range.plan r s))"
    and v: "prefix (sv_payload v) (drop (unat i * unat s) data)"
    and b: "orch_payload_window v (payload_window i s r) = Ok bs"
  shows "bs = frame_of r s len data i"
proof -
  obtain f t where w: "payload_window i s r = (f, t)" by fastforce
  have t: "t \<le> length (sv_payload v)" and bs: "bs = take (t - f) (drop f (sv_payload v))"
    using b w by (auto simp: orch_payload_window_def split: if_splits)
  have ft: "t \<le> unat s" using rng.windows_within [OF a(1,4) w] by simp
  have "0 < unat s" using a(1) by (simp add: addressable_iff)
  moreover have "unat i * unat s < unat len"
    using rng.index_below(1) [OF a(1,4)] a(2) by (simp add: word_less_nat_alt)
  ultimately have "rng.payload s len data i = segment (unat i * unat s) (unat i * unat s + unat s) data"
    using rng.payload_segment a(3) by (simp add: add.commute)
  then show ?thesis
    using segment_of_prefix [OF v t, of f] segment_within [OF ft, of f "unat i * unat s" data] bs w
    by (simp add: frame_of_def rng.cut_def)
qed

text \<open>The invariant of the tasks.\<close>

definition tasks_right :: "Plan \<Rightarrow> string \<Rightarrow> u32 \<Rightarrow> u8 list \<Rightarrow> ('db, 't, 's, 'w) tasks \<Rightarrow> bool" where
  "tasks_right p url sz data s \<longleftrightarrow>
    or_slice_size (tk_orch s) = sz
    \<and> origin_serves (or_upstream (tk_orch s)) url data (meta_validators (pl_meta p))
    \<and> store_right (pl_object p) (om_generation (pl_meta p)) sz data (or_store (tk_orch s))
    \<and> (\<forall>i bs. tk_frames s i = Some (Ok bs) \<longrightarrow> bs = frame_of (pl_wanted p) sz (pl_total_len p) data i)"

lemma forwarded_no_range: "no_range (forwarded_request_headers client)"
  by (auto simp: no_range_def list_all_iff forwarded_filter forwardable_def eq_ignore_ascii_case_def)

lemma tasks_right_step:
  assumes "task_step ev p url hs s s'" and hs: "no_range hs" and "tasks_right p url sz data s"
    and a: "addressable (pl_wanted p) sz" "br_end (pl_wanted p) < pl_total_len p" "length data = unat (pl_total_len p)"
    and len: "length data \<le> 2 ^ 32 * unat sz"
  shows "tasks_right p url sz data s'"
proof -
  have sz: "0 < sz" using a(1) by (simp add: addressable_def)
  note inv = assms(3) [unfolded tasks_right_def]
  have right: "store_right (pl_object p) (om_generation (pl_meta p)) sz data (or_store orch')
      \<and> or_upstream orch' = or_upstream (tk_orch s) \<and> or_slice_size orch' = sz
      \<and> (\<forall>v. r = Ok v \<longrightarrow> prefix (sv_payload v) (drop (unat i * unat sz) data))"
    if "orch_slice ev' q url hs' i (tk_orch s) (tk_world s) = Some (r, orch', w')"
      "pl_object q = pl_object p" "pl_meta q = pl_meta p" "no_range hs'" for ev' q hs' i r orch' w'
    using orch_slice_right [OF _ _ _ _ _ that(1), of data] that(2-) inv sz len by simp
  from assms(1) show ?thesis
  proof cases
    case (own i r orch' w')
    then obtain x where x: "orch_slice ev p url hs i (tk_orch s) (tk_world s) = Some (x, orch', w')"
      and r: "r = rbind x (\<lambda>v. map_err (\<lambda>_. ShortSlice url i (of_nat (snd (orch_window (tk_orch s) p i) - fst (orch_window (tk_orch s) p i)))
               (length (sv_payload v))) (orch_payload_window v (orch_window (tk_orch s) p i)))"
      by (auto simp: slice_task_def Let_def)
    have i: "i \<in> set (plan_indices (Proxy_Range.plan (pl_wanted p) sz))"
      using own(3) inv by (auto simp: orch_indices_def split: if_splits)
    have "bs = frame_of (pl_wanted p) sz (pl_total_len p) data i" if ok: "r = Ok bs" for bs
    proof -
      obtain v where v: "x = Ok v" "orch_payload_window v (payload_window i sz (pl_wanted p)) = Ok bs"
        using ok r inv
        by (cases x; cases "orch_payload_window (projr x) (orch_window (tk_orch s) p i)") (auto simp: orch_window_def)
      then show ?thesis using window_frame [OF a i] right [OF x _ _ hs] by blast
    qed
    then show ?thesis using own(1) right [OF x _ _ hs] inv by (auto simp: tasks_right_def)
  next
    case (other q hs' client ev' i r' orch' w')
    then show ?thesis using right [OF other(5)] inv forwarded_no_range by (auto simp: tasks_right_def)
  qed
qed

lemma stream_prefix:
  assumes "\<And>i bs. fr i = Some (Ok bs) \<Longrightarrow> bs = F i"
  shows "prefix (ok_prefix (stream_frames fr idx)) (concat (map F idx))"
    and "length (stream_frames fr idx) = length idx \<Longrightarrow> first_error (stream_frames fr idx) = None \<Longrightarrow>
         ok_prefix (stream_frames fr idx) = concat (map F idx)"
proof (induction idx)
  case (Cons i idx)
  {
    case 1
    show ?case
      using Cons.IH(1) assms [of i] by (cases "fr i"; cases "the (fr i)") (auto simp: stream_frames_def)
  next
    case 2
    then show ?case
      using Cons.IH(2) assms [of i] by (cases "fr i"; cases "the (fr i)") (auto simp: stream_frames_def)
  }
qed (simp_all add: stream_frames_def)

lemma unat_range_len:
  assumes "br_start r \<le> br_end r" "br_end r < len"
  shows "unat (range_len r) = Suc (unat (br_end r)) - unat (br_start r)"
proof -
  have "unat (br_end r - br_start r) = unat (br_end r) - unat (br_start r)" using assms(1) by (rule unat_sub)
  moreover have "unat (br_end r) < 2 ^ 64 - 1"
    using assms(2) unsigned_less [of len, where ?'a = nat] by (simp add: word_less_nat_alt)
  ultimately show ?thesis using assms(1) by (simp add: range_len_def unat_word_ariths word_le_nat_alt)
qed

lemma planned_range:
  assumes "plan_request ev key url hs raw orch0 w0 = (Ok p, orch, w)" "0 < pl_total_len p"
  shows "br_start (pl_wanted p) \<le> br_end (pl_wanted p) \<and> br_end (pl_wanted p) < pl_total_len p"
proof -
  obtain spec where "wanted_range spec (pl_total_len p) = Ok (pl_wanted p)" "spec = request_spec raw"
    using assms(1) by (auto simp: plan_request_def Let_def rbind_Ok split: sum.splits prod.splits)
  then show ?thesis using wanted_range_bounds [OF _ assms(2)] request_spec_ordered by blast
qed

section \<open>Planning keeps the store right\<close>

lemma match_self: "\<not> weak v \<Longrightarrow> validators_match v v"
  by (auto simp: validators_match_def weak_def strong_eq_iff split: option.splits)

lemma probed_generation [simp]: "om_generation (probed_meta now key shape g response) = g"
  by (simp add: probed_meta_def)

lemma probe_right:
  assumes "origin_serves (or_upstream orch) url data (meta_validators meta)" "no_range hs" "\<not> weak (meta_validators meta)"
    and st: "store_right object (om_generation meta) (or_slice_size orch) data (or_store orch)"
    and r: "probe ev key object url hs i orch w = (Ok meta, orch', w')"
  shows "store_right object (om_generation meta) (or_slice_size orch) data (or_store orch')
    \<and> or_upstream orch' = or_upstream orch \<and> or_slice_size orch' = or_slice_size orch"
proof -
  let ?sz = "or_slice_size orch"
  let ?a = "(ucast i :: u64) * ucast ?sz"
  obtain response w1 where u: "us_range (or_upstream orch) (ck_service key) url hs ?a (?a + ucast ?sz - 1) w = (Ok response, w1)"
    using r by (auto simp: probe_def Let_def split: sum.splits prod.splits)
  obtain shape g where m: "meta = probed_meta (ev_now_secs ev) key shape g response"
    using r u by (auto simp: probe_def Let_def split: sum.splits prod.splits option.splits)
  have "meta_validators meta = response_validators response"
    by (simp add: m probed_meta_def meta_validators_def response_validators_def)
  then have "prefix (up_body response) (drop (unat i * unat ?sz) data)"
    using assms(1,2) match_self [OF assms(3)] u unfolding origin_serves_def by (metis unat_slice_start)
  then have "right_slice object (om_generation meta) ?sz data (SliceKey_new object (om_generation meta) i)
      (SliceValue_new (header_for meta ?sz) (up_body response))"
    by (simp add: right_slice_def)
  then have "store_right object (om_generation meta) ?sz data
      (store_insert (or_store orch) (SliceKey_new object (om_generation meta) i) (SliceValue_new (header_for meta ?sz) (up_body response)))"
    using cache.insert_sound st unfolding store_right_sound by blast
  then show ?thesis
    using r u st by (auto simp: probe_def Let_def split: sum.splits prod.splits if_splits)
qed


lemma metadata_right:
  assumes "origin_serves (or_upstream orch) url data (meta_validators meta)" "no_range hs" "\<not> weak (meta_validators meta)"
    and st: "store_right object (om_generation meta) (or_slice_size orch) data (or_store orch)"
    and r: "metadata ev key object url hs i orch w = (Ok (meta, here), orch', w')"
  shows "store_right object (om_generation meta) (or_slice_size orch) data (or_store orch')
    \<and> or_upstream orch' = or_upstream orch \<and> or_slice_size orch' = or_slice_size orch"
proof -
  obtain known orch1 where c: "cell object orch = (known, orch1)" by fastforce
  have c1: "or_store orch1 = or_store orch" "or_upstream orch1 = or_upstream orch" "or_slice_size orch1 = or_slice_size orch"
    using c by (auto simp: cell_def split: option.splits)
  have "or_store orch' = or_store orch \<and> or_upstream orch' = or_upstream orch \<and> or_slice_size orch' = or_slice_size orch
    \<or> (\<exists>orch2. probe ev key object url hs i orch1 w = (Ok meta, orch2, w')
          \<and> orch' = orch2\<lparr>or_metadata := (or_metadata orch2)(object \<mapsto> Some meta)\<rparr>)"
  proof (cases "case index_get (or_index orch) object of Inr (Some meta) \<Rightarrow> if \<not> om_stale meta then Some meta else None | _ \<Rightarrow> None")
    case None
    show ?thesis
    proof (cases known)
      case unknown: None
      obtain result orch2 w2 where q: "probe ev key object url hs i orch1 w = (result, orch2, w2)" by (metis prod.exhaust)
      show ?thesis using r unfolding metadata_def None option.case c unknown prod.case q by (cases result) auto
    next
      case (Some m)
      then show ?thesis using r c1 unfolding metadata_def None option.case c prod.case by simp
    qed
  next
    case (Some m)
    have "orch' = (case index_touch (ev_now_secs ev) (or_index orch) object of
        Inr (ix, _) \<Rightarrow> orch\<lparr>or_index := ix\<rparr> | Inl _ \<Rightarrow> orch)"
      using r unfolding metadata_def Some option.case by simp
    then show ?thesis by (auto split: sum.split)
  qed
  then show ?thesis
  proof (elim disjE exE conjE)
    fix orch2
    assume "probe ev key object url hs i orch1 w = (Ok meta, orch2, w')"
      and "orch' = orch2\<lparr>or_metadata := (or_metadata orch2)(object \<mapsto> Some meta)\<rparr>"
    then show ?thesis using probe_right [of orch1 url data meta hs object ev key i w orch2 w'] assms(1-4) c1 by simp
  qed (use st in simp)
qed

lemma plan_right:
  assumes p: "plan_request ev key url hs raw orch0 w0 = (Ok p, orch, w)"
    and "origin_serves (or_upstream orch0) url data (meta_validators (pl_meta p))" "no_range hs" "\<not> weak (meta_validators (pl_meta p))"
    and "store_right (pl_object p) (om_generation (pl_meta p)) (or_slice_size orch0) data (or_store orch0)"
  shows "store_right (pl_object p) (om_generation (pl_meta p)) (or_slice_size orch0) data (or_store orch)
    \<and> or_upstream orch = or_upstream orch0 \<and> or_slice_size orch = or_slice_size orch0"
proof -
  obtain i here where "metadata ev key (pl_object p) url hs i orch0 w0 = (Ok (pl_meta p, here), orch, w)"
    using p by (auto simp: plan_request_def Let_def rbind_Ok split: sum.splits prod.splits)
  then show ?thesis by (rule metadata_right [OF assms(2-5)])
qed

section \<open>The stream\<close>

lemma stream_exact:
  assumes "hs = forwarded_request_headers client"
    and "plan_request ev key url hs raw orch0 w0 = (Ok p, orch, w)"
    and "0 < pl_total_len p"
    and "length data = unat (pl_total_len p)" and "length data \<le> 2 ^ 32 * unat (or_slice_size orch)"
    and "origin_serves (or_upstream orch) url data (meta_validators (pl_meta p))"
    and "store_right (pl_object p) (om_generation (pl_meta p)) (or_slice_size orch) data (or_store orch)"
    and "(task_step ev p url hs)\<^sup>*\<^sup>* \<lparr>tk_orch = orch, tk_world = w, tk_frames = Map.empty\<rparr> s"
  shows "prefix (ok_prefix (stream_frames (tk_frames s) (orch_indices orch p))) (range_bytes (pl_wanted p) data)
    \<and> (length (stream_frames (tk_frames s) (orch_indices orch p)) = length (orch_indices orch p) \<longrightarrow>
       first_error (stream_frames (tk_frames s) (orch_indices orch p)) = None \<longrightarrow>
         ok_prefix (stream_frames (tk_frames s) (orch_indices orch p)) = range_bytes (pl_wanted p) data
         \<and> length (range_bytes (pl_wanted p) data) = unat (body_len_of p))"
proof -
  let ?sz = "or_slice_size orch" let ?r = "pl_wanted p"
  have b: "br_start ?r \<le> br_end ?r" "br_end ?r < pl_total_len p" using planned_range [OF assms(2,3)] by auto
  have "0 < unat (pl_total_len p)" using assms(3) by (simp add: word_less_nat_alt)
  then have sz: "0 < ?sz" using assms(4,5) by (cases "?sz = 0") (auto simp: word_gt_0)
  have ad: "addressable ?r ?sz"
    using b sz assms(4,5) by (auto simp: addressable_def word_less_nat_alt unat_max_addressable_len)
  have "tasks_right p url ?sz data s"
    using assms(8)
  proof (induction rule: rtranclp_induct)
    case base
    then show ?case using assms(6,7) by (simp add: tasks_right_def)
  next
    case (step s s')
    then show ?case using tasks_right_step [OF step(2) _ step(3) ad b(2) assms(4,5)] assms(1) forwarded_no_range by simp
  qed
  then have f: "bs = frame_of ?r ?sz (pl_total_len p) data i" if "tk_frames s i = Some (Ok bs)" for i bs
    using that by (simp add: tasks_right_def)
  have idx: "orch_indices orch p = plan_indices (Proxy_Range.plan ?r ?sz)" using assms(3) by (auto simp: orch_indices_def)
  have t: "concat (map (frame_of ?r ?sz (pl_total_len p) data) (orch_indices orch p)) = range_bytes ?r data"
    unfolding idx by (rule frames_tile [OF ad b(2) assms(4)])
  have "length (range_bytes ?r data) = unat (body_len_of p)"
    using b assms(3,4) unat_range_len [OF b]
    by (auto simp: range_bytes_def segment_def body_len_of_def word_less_nat_alt word_le_nat_alt)
  then show ?thesis using stream_prefix [of "tk_frames s" "frame_of ?r ?sz (pl_total_len p) data", OF f] t by metis
qed

section \<open>Properties\<close>

text \<open>
  C1: a client receives exactly the bytes it asked for. Of an object that does not change while it is served, whatever order the slice
  tasks of this and of other clients run in and whatever fails, the bytes sent so far are always a prefix of
  the requested ones; and when the stream ends without an error they are all of them, as many as the
  length the response declared.
\<close>

theorem body_is_exact:
  assumes "hs = forwarded_request_headers client"
    and "plan_request ev key url hs raw orch0 w0 = (Ok p, orch, w)"
    and "0 < pl_total_len p"
    and "length data = unat (pl_total_len p)" and "length data \<le> 2 ^ 32 * unat (or_slice_size orch)"
    and "origin_serves (or_upstream orch) url data (meta_validators (pl_meta p))"
    and "store_right (pl_object p) (om_generation (pl_meta p)) (or_slice_size orch) data (or_store orch)"
    and "(task_step ev p url hs)\<^sup>*\<^sup>* \<lparr>tk_orch = orch, tk_world = w, tk_frames = Map.empty\<rparr> s"
  shows "prefix (ok_prefix (stream_frames (tk_frames s) (orch_indices orch p))) (range_bytes (pl_wanted p) data)
    \<and> (length (stream_frames (tk_frames s) (orch_indices orch p)) = length (orch_indices orch p) \<longrightarrow>
       first_error (stream_frames (tk_frames s) (orch_indices orch p)) = None \<longrightarrow>
         ok_prefix (stream_frames (tk_frames s) (orch_indices orch p)) = range_bytes (pl_wanted p) data
         \<and> length (range_bytes (pl_wanted p) data) = unat (body_len_of p))"
  using stream_exact [OF assms] .

lemma sample_planned:
  "\<exists>p orch. plan_request (sample_env\<lparr>ev_blake3 := (\<lambda>_. [1])\<rparr>) \<lparr>ck_key = ''/depot/1'', ck_service = ''steam''\<rparr> ''u'' [] None
     sample_orch () = (Ok p, orch, ())
     \<and> pl_meta p = sample_meta \<and> pl_object p = [1] \<and> pl_total_len p = 10 \<and> pl_wanted p = \<lparr>br_start = 0, br_end = 9\<rparr>
     \<and> or_store orch = \<lparr>ss_ops = alist_foyer, ss_state = []\<rparr> \<and> or_upstream orch = sample_upstream \<and> or_slice_size orch = 4"
proof -
  have i: "index_get sample_index [1] = Ok (Some sample_meta)"
    using valid_sample_meta by (simp add: index_get_def sample_index_def alist_redb_def)
  have m: "om_total_len sample_meta = 10" "\<not> om_stale sample_meta" by (simp_all add: sample_meta_def)
  have w: "whole 10 = Some \<lparr>br_start = 0, br_end = 9\<rparr>" by (simp add: whole_def)
  show ?thesis
    by (cases "index_touch (ev_now_secs sample_env) sample_index [1]")
      (auto simp: plan_request_def Let_def object_id_def request_spec_def probe_index_for_def metadata_def i m wanted_range_def w)
qed

theorem body_is_exact_witness:
  "\<exists>p (fr :: u32 \<rightharpoonup> OrchestratorError + u8 list). fr 1 = Some (Ok [4, 5, 6, 7]) \<and> pl_wanted p = \<lparr>br_start = 0, br_end = 9\<rparr>
     \<and> prefix (ok_prefix (stream_frames fr (orch_indices sample_orch p))) (range_bytes (pl_wanted p) sample_data)"
proof -
  let ?ev = "sample_env\<lparr>ev_blake3 := (\<lambda>_. [1])\<rparr>"
  obtain p orch where pl: "plan_request ?ev \<lparr>ck_key = ''/depot/1'', ck_service = ''steam''\<rparr> ''u'' [] None sample_orch () = (Ok p, orch, ())"
    and p: "pl_meta p = sample_meta" "pl_object p = [1]" "pl_total_len p = 10" "pl_wanted p = \<lparr>br_start = 0, br_end = 9\<rparr>"
    and o: "or_store orch = \<lparr>ss_ops = alist_foyer, ss_state = []\<rparr>" "or_upstream orch = sample_upstream" "or_slice_size orch = 4"
    using sample_planned by blast
  obtain orch' where sl: "orch_slice ?ev p ''u'' [] 1 orch () = Some (Ok (SliceValue_new (header_for sample_meta 4) [4, 5, 6, 7]), orch', ())"
    using sample_slice_at [OF p(1,3) o] by blast
  have w: "payload_window 1 4 \<lparr>br_start = 0, br_end = 9\<rparr> = (0, 4)" by (simp add: payload_window_def saturating_sub_def)
  have t: "slice_task ?ev p ''u'' [] 1 orch () = Some (Ok [4, 5, 6, 7], orch', ())"
    using sl by (simp add: slice_task_def orch_window_def o p w orch_payload_window_def)
  have ix: "orch_indices orch p = [0, 1, 2]"
    by (simp add: orch_indices_def o p Proxy_Range.plan_def plan_indices_def upt_rec)
  let ?start = "\<lparr>tk_orch = orch, tk_world = (), tk_frames = Map.empty\<rparr>"
  let ?s = "\<lparr>tk_orch = orch', tk_world = (), tk_frames = [1 \<mapsto> Ok [4, 5, 6, 7]]\<rparr>"
  have "task_step ?ev p ''u'' [] ?start (?start\<lparr>tk_orch := orch', tk_world := (), tk_frames := (tk_frames ?start)(1 \<mapsto> Ok [4, 5, 6, 7])\<rparr>)"
    by (rule task_step.own) (simp_all add: t ix)
  then have "task_step ?ev p ''u'' [] ?start ?s" by simp
  then have "(task_step ?ev p ''u'' [])\<^sup>*\<^sup>* ?start ?s" by blast
  moreover have "store_right (pl_object p) (om_generation (pl_meta p)) (or_slice_size orch) sample_data (or_store orch)"
    unfolding o p using empty_store_right by (simp add: sample_meta_def)
  moreover have "length sample_data = 10" by (simp add: sample_data_def)
  ultimately have "prefix (ok_prefix (stream_frames (tk_frames ?s) (orch_indices orch p))) (range_bytes (pl_wanted p) sample_data)"
    using body_is_exact [OF _ pl, of "[]" sample_data ?s] o p sample_origin by (simp add: forwarded_filter)
  moreover have "orch_indices sample_orch p = orch_indices orch p" by (simp add: orch_indices_def o)
  ultimately show ?thesis using p(4) by (intro exI [of _ p] exI [of _ "tk_frames ?s"]) auto
qed

end
