(* ===== verification/Proxy_Origin.thy ===== *)
theory Proxy_Origin
  imports Proxy_Body
begin

text \<open>
  Which origin a request leads to (\<open>proxy/server.rs\<close> with \<open>services/matcher.rs\<close> and \<open>services/key.rs\<close>): the
  service is found from the normalised \<open>Host\<close> header, and the URL is built from the same text.
\<close>

definition plain_host_char :: "char \<Rightarrow> bool" where
  "plain_host_char c \<longleftrightarrow> c \<in> set ''abcdefghijklmnopqrstuvwxyz0123456789-./''"

lemma plain_char_facts:
  assumes "plain_host_char c"
  shows "graphic c" "c \<noteq> CHR '':''" "c \<noteq> CHR ''[''" "to_ascii_lowercase_char c = c" "visible_ascii c"
  using assms
  by (auto simp: plain_host_char_def graphic_def to_ascii_lowercase_char_def visible_ascii_def)

lemma normalise_plain:
  assumes "list_all plain_host_char h" "h \<noteq> []" "last h \<noteq> CHR ''.''"
  shows "normalise_host h = h"
proof -
  have c: "plain_host_char x" if "x \<in> set h" for x using assms(1) that by (simp add: list_all_iff)
  have t: "trim h = h" using assms(2) plain_char_facts(1) [OF c] by (intro trim_id) auto
  have "hd h \<noteq> CHR ''[''" using plain_char_facts(3) [OF c] assms(2) by auto
  then have "strip_prefix h ''['' = None"
    using assms(2) by (cases h) (auto simp: strip_prefix_def starts_with_def)
  moreover have "rsplit_once (CHR '':'') h = None"
  proof (cases "rsplit_once (CHR '':'') h")
    case (Some ab)
    then have "CHR '':'' \<in> set h" by (cases ab) (auto simp: rsplit_once_Some)
    then show ?thesis using plain_char_facts(2) [OF c] by blast
  qed simp
  moreover have "trim_end_matches (CHR ''.'') h = h"
    using assms(2,3) by (cases h rule: rev_cases) (auto simp: trim_end_matches_def)
  moreover have "to_ascii_lowercase h = h"
    using plain_char_facts(4) [OF c] by (auto simp: to_ascii_lowercase_def intro: map_idI)
  ultimately show ?thesis by (simp add: normalise_host_def t)
qed

lemma wildcard_matches:
  assumes "normalise_host host = host" "host \<noteq> []" "parent_of host parent" "Services_Matcher.owner ss (Services_Domains.Suffix parent) \<noteq> None"
  shows "\<exists>n. service_for (Matcher_build \<lparr>dl_services = ss\<rparr>) host = Some n"
proof -
  let ?m = "Matcher_build \<lparr>dl_services = ss\<rparr>"
  note maps = Matcher_build_maps [of ss]
  show ?thesis
  proof (cases "mt_exact ?m host")
    case (Some i)
    then show ?thesis using assms(1,2) maps(1,3) [of host] by (auto simp: service_for_def)
  next
    case None
    have "walk_parents (mt_suffix ?m) host \<noteq> None" using assms(3,4) maps(4) by (auto simp: walk_parents_None)
    then obtain i where i: "walk_parents (mt_suffix ?m) host = Some i" by auto
    then obtain q where q: "mt_suffix ?m q = Some i" using walk_parents_Some by blast
    then have "Services_Matcher.owner ss (Services_Domains.Suffix q) \<noteq> None" using maps(4) [of q] by auto
    with i q None show ?thesis using assms(1,2) maps(2) [of q] by (auto simp: service_for_def)
  qed
qed

text \<open>A request for a cold object, with no range, asks the origin of its URL for the first slice.\<close>

lemma cold_plan_fails:
  assumes "index_get (or_index orch) (object_id (ev_blake3 ev) key) = Ok None" "or_metadata orch (object_id (ev_blake3 ev) key) = None"
    and "us_range (or_upstream orch) (ck_service key) url hs 0 (ucast (or_slice_size orch) - 1) w = (Err e, w')"
  shows "\<exists>orch'. plan_request ev key url hs None orch w = (Err (UpstreamFailed e), orch', w')"
  using assms by (simp add: plan_request_def Let_def request_spec_def probe_index_for_def metadata_def cell_def probe_def)

section \<open>Properties\<close>

text \<open>
  C29: the \<open>Host\<close> header can name any origin. Where a service has a wildcard for a domain, a request whose host is another name, a
  slash, a dot and that domain is taken for the service, and its URL leads to that other name, whose
  answer decides the outcome; its cache key is the one of the genuine host.
\<close>

theorem host_header_chooses_origin:
  assumes "list_all plain_host_char (evil @ parent)" "parent \<noteq> []" "last parent \<noteq> CHR ''.''"
    and "Services_Matcher.owner ss (Services_Domains.Suffix parent) \<noteq> None"
    and "req = \<lparr>in_method = ''GET'', in_path = path, in_target = Some path, in_headers = [(''host'', evil @ ''/.'' @ parent)]\<rparr>"
    and "\<not> is_heartbeat path" "ls_matcher (srv_services cfg) = Matcher_build \<lparr>dl_services = ss\<rparr>"
    and "srv_compiled cfg = Map.empty" "\<not> srv_allow_host_port cfg"
    and "\<And>k. index_get (or_index (srv_orchestrator cfg)) k = Ok None" "or_metadata (srv_orchestrator cfg) = Map.empty"
    and "\<And>n. us_range (or_upstream (srv_orchestrator cfg)) n (''http://'' @ evil @ ''/.'' @ parent @ path) []
                0 (ucast (or_slice_size (srv_orchestrator cfg)) - 1) w = (Err (answer n), w')"
  shows "\<exists>n cfg'. service_for (Matcher_build \<lparr>dl_services = ss\<rparr>) (evil @ ''/.'' @ parent) = Some n
    \<and> serve ev is_match req cfg w = (Failed (UpstreamFailed (answer n)), cfg', w')
    \<and> normalise n (evil @ ''/.'' @ parent) path CompiledRule_default = normalise n (''cdn.'' @ parent) path CompiledRule_default"
proof -
  let ?host = "evil @ ''/.'' @ parent"
  have plain: "list_all plain_host_char ?host" using assms(1) by (simp add: plain_host_char_def)
  then have nh: "normalise_host ?host = ?host" using assms(2,3) by (intro normalise_plain) auto
  moreover have "parent_of ?host parent" using assms(2) by (auto simp: parent_of_def intro: exI [of _ "evil @ ''/''"])
  ultimately obtain n where n: "service_for (Matcher_build \<lparr>dl_services = ss\<rparr>) ?host = Some n"
    using wildcard_matches [OF _ _ _ assms(4)] by auto
  have host: "request_host req = ?host"
    using plain plain_char_facts(5) by (simp add: request_host_def header_text_def hget_def to_str_def assms(5) list_all_iff)
  have hs: "header_text (in_headers req) ''range'' = None" "header_text (in_headers req) ''if-range'' = None"
    by (simp_all add: header_text_def hget_def assms(5))
  have fw: "forwarded_request_headers (in_headers req) = []"
    by (simp add: forwarded_filter assms(5) forwardable_def eq_ignore_ascii_case_def)
  have url: "upstream_url (srv_allow_host_port cfg) CompiledRule_default ?host path = ''http://'' @ ?host @ path"
    using assms(9) nh by (simp add: upstream_url_def CompiledRule_default_def)
  have key: "ck_service (normalise n h t r) = n" for h t r by (simp add: normalise_def split: prod.splits)
  obtain orch' where p: "plan_request ev (normalise n ?host path CompiledRule_default) (''http://'' @ ?host @ path) [] None
      (srv_orchestrator cfg) w = (Err (UpstreamFailed (answer n)), orch', w')"
    using cold_plan_fails [OF assms(10), of ev "normalise n ?host path CompiledRule_default" "''http://'' @ ?host @ path" "[]" w "answer n" w']
      assms(11,12) by (auto simp: key)
  have "serve_cached ev cfg req n CompiledRule_default path w = (Failed (UpstreamFailed (answer n)), cfg\<lparr>srv_orchestrator := orch'\<rparr>, w')"
    by (simp only: serve_cached_def Let_def host url fw hs plan_if_range_def p prod.case sum.case OrchestratorError.case)
  then have "serve ev is_match req cfg w = (Failed (UpstreamFailed (answer n)), cfg\<lparr>srv_orchestrator := orch'\<rparr>, w')"
    using assms(6-8) n host by (simp add: serve_def Let_def assms(5) is_cacheable_def CompiledRule_default_def)
  moreover have "normalise n ?host path CompiledRule_default = normalise n (''cdn.'' @ parent) path CompiledRule_default"
    by (simp add: normalise_def CompiledRule_default_def)
  ultimately show ?thesis using n by blast
qed

theorem host_header_chooses_origin_witness:
  "\<exists>n cfg'. serve sample_env (\<lambda>_ _. False)
     \<lparr>in_method = ''GET'', in_path = ''/depot/1'', in_target = Some ''/depot/1'', in_headers = [(''host'', ''evil.example/.steamcontent.com'')]\<rparr>
     (sample_server\<lparr>srv_allow_host_port := False,
        srv_orchestrator := sample_orch\<lparr>or_index := \<lparr>ix_ops = alist_redb, ix_db = []\<rparr>,
          or_upstream := sample_upstream\<lparr>us_range := (\<lambda>service url hs a b w. (Err (Status url 404), w))\<rparr>\<rparr>\<rparr>) ()
   = (Failed (UpstreamFailed (Status ''http://evil.example/.steamcontent.com/depot/1'' 404)), cfg', n)"
proof -
  let ?cfg = "sample_server\<lparr>srv_allow_host_port := False,
        srv_orchestrator := sample_orch\<lparr>or_index := \<lparr>ix_ops = alist_redb, ix_db = []\<rparr>,
          or_upstream := sample_upstream\<lparr>us_range := (\<lambda>service url hs a b w. (Err (Status url 404), w))\<rparr>\<rparr>\<rparr>"
  let ?req = "\<lparr>in_method = ''GET'', in_path = ''/depot/1'', in_target = Some ''/depot/1'',
      in_headers = [(''host'', ''evil.example'' @ ''/.'' @ ''steamcontent.com'')]\<rparr>"
  have i: "index_get (or_index (srv_orchestrator ?cfg)) k = Ok None" for k by (simp add: index_get_def alist_redb_def)
  have "\<exists>n cfg'. service_for (Matcher_build sample_list) (''evil.example'' @ ''/.'' @ ''steamcontent.com'') = Some n
    \<and> serve sample_env (\<lambda>_ _. False) ?req ?cfg ()
        = (Failed (UpstreamFailed (Status (''http://'' @ ''evil.example'' @ ''/.'' @ ''steamcontent.com'' @ ''/depot/1'') 404)), cfg', ())
    \<and> normalise n (''evil.example'' @ ''/.'' @ ''steamcontent.com'') ''/depot/1'' CompiledRule_default
        = normalise n (''cdn.'' @ ''steamcontent.com'') ''/depot/1'' CompiledRule_default"
    unfolding sample_list_def
    by (rule host_header_chooses_origin [OF _ _ _ _ refl, of "''evil.example''" "''steamcontent.com''" _ "''/depot/1''" ?cfg, OF _ _ _ _ _ _ _ _ i])
      (simp_all add: plain_host_char_def Services_Matcher.owner_def is_heartbeat_def HEARTBEAT_PATH_def sample_server_def with_defaults_def
        with_services_def LiveServices_new_def sample_list_def)
  then show ?thesis by auto
qed

end
