(* ===== verification/Sni_ClientHello.thy ===== *)
theory Sni_ClientHello
  imports Rust_Str
begin

text \<open>
  \<open>sni/clienthello.rs\<close>: finding the server name in a TLS ClientHello. The cursor is the record of the buffer and the
  position in it; every read is checked and a failed one ends the parse. The lemmas relate the parser to
  the encoding of the protocol: a hello that is built from fields gives back its name, whatever its other
  fields and extensions hold.
\<close>

section \<open>The parser\<close>

definition RECORD_HANDSHAKE :: u8 where "RECORD_HANDSHAKE = 0x16"
definition HANDSHAKE_CLIENT_HELLO :: u8 where "HANDSHAKE_CLIENT_HELLO = 0x01"
definition EXT_SERVER_NAME :: u16 where "EXT_SERVER_NAME = 0x0000"
definition NAME_TYPE_HOST :: u8 where "NAME_TYPE_HOST = 0x00"
definition MIN_CLIENT_HELLO :: nat where "MIN_CLIENT_HELLO = 43"
definition MAX_CLIENT_HELLO :: nat where "MAX_CLIENT_HELLO = 16 * 1024 + 5"

record Reader =
  rd_bytes :: bytes
  rd_at :: nat

definition Reader_new :: "bytes \<Rightarrow> Reader" where
  "Reader_new bytes = \<lparr>rd_bytes = bytes, rd_at = 0\<rparr>"

definition rd_take :: "nat \<Rightarrow> Reader \<Rightarrow> (bytes \<times> Reader) option" where
  "rd_take n r =
    (let finish = rd_at r + n
     in if rd_at r \<le> length (rd_bytes r) \<and> finish \<le> length (rd_bytes r)
        then Some (take n (drop (rd_at r) (rd_bytes r)), r\<lparr>rd_at := finish\<rparr>)
        else None)"

definition rd_u8 :: "Reader \<Rightarrow> (u8 \<times> Reader) option" where
  "rd_u8 r = map_option (\<lambda>(b, r). (b ! 0, r)) (rd_take 1 r)"

definition rd_u16 :: "Reader \<Rightarrow> (u16 \<times> Reader) option" where
  "rd_u16 r = map_option (\<lambda>(b, r). (from_be_bytes [b ! 0, b ! 1], r)) (rd_take 2 r)"

definition skip_u8_vec :: "Reader \<Rightarrow> Reader option" where
  "skip_u8_vec r = Option.bind (rd_u8 r) (\<lambda>(len, r). map_option snd (rd_take (unat len) r))"

definition skip_u16_vec :: "Reader \<Rightarrow> Reader option" where
  "skip_u16_vec r = Option.bind (rd_u16 r) (\<lambda>(len, r). map_option snd (rd_take (unat len) r))"

definition looks_like_tls :: "bytes \<Rightarrow> bool" where
  "looks_like_tls bytes = (case bytes of b # _ \<Rightarrow> b = RECORD_HANDSHAKE | [] \<Rightarrow> False)"

definition record_length :: "bytes \<Rightarrow> nat option" where
  "record_length bytes =
    (if length bytes < 5 then None
     else let declared = unat (from_be_bytes [bytes ! 3, bytes ! 4] :: u16) in Some (declared + 5))"

definition is_ascii :: "string \<Rightarrow> bool" where
  "is_ascii s = list_all (\<lambda>c. code c < 128) s"

lemma rd_take_less: "rd_take n r = Some (b, r') \<Longrightarrow>
  rd_at r' = rd_at r + n \<and> rd_bytes r' = rd_bytes r \<and> rd_at r' \<le> length (rd_bytes r)"
  by (auto simp: rd_take_def Let_def split: if_splits)

lemma rd_num_less:
  "rd_u8 r = Some (x, r') \<Longrightarrow> rd_at r' = rd_at r + 1 \<and> rd_bytes r' = rd_bytes r \<and> rd_at r' \<le> length (rd_bytes r)"
  "rd_u16 r = Some (y, r') \<Longrightarrow> rd_at r' = rd_at r + 2 \<and> rd_bytes r' = rd_bytes r \<and> rd_at r' \<le> length (rd_bytes r)"
  by (auto simp: rd_u8_def rd_u16_def dest!: rd_take_less)

function name_loop :: "Reader \<Rightarrow> string option" where
  "name_loop n =
    (case rd_u8 n of
       None \<Rightarrow> None
     | Some (name_type, n) \<Rightarrow>
         (case rd_u16 n of
            None \<Rightarrow> None
          | Some (name_len, n) \<Rightarrow>
              (case rd_take (unat name_len) n of
                 None \<Rightarrow> None
               | Some (name, n) \<Rightarrow>
                   if name_type = NAME_TYPE_HOST then
                     (case from_utf8 name of
                        None \<Rightarrow> None
                      | Some host \<Rightarrow> if host = [] \<or> \<not> is_ascii host then None else Some (to_ascii_lowercase host))
                   else name_loop n)))"
  by pat_completeness auto
termination
  by (relation "measure (\<lambda>r. length (rd_bytes r) - rd_at r)") (auto dest!: rd_num_less rd_take_less)

definition name_list :: "bytes \<Rightarrow> string option" where
  "name_list data =
    Option.bind (rd_u16 (Reader_new data)) (\<lambda>(list_len, names).
      Option.bind (rd_take (unat list_len) names) (\<lambda>(list, _). name_loop (Reader_new list)))"

function ext_loop :: "Reader \<Rightarrow> string option" where
  "ext_loop e =
    (case rd_u16 e of
       None \<Rightarrow> None
     | Some (kind, e) \<Rightarrow>
         (case rd_u16 e of
            None \<Rightarrow> None
          | Some (len, e) \<Rightarrow>
              (case rd_take (unat len) e of
                 None \<Rightarrow> None
               | Some (data, e) \<Rightarrow> if kind \<noteq> EXT_SERVER_NAME then ext_loop e else name_list data)))"
  by pat_completeness auto
termination
  by (relation "measure (\<lambda>r. length (rd_bytes r) - rd_at r)") (auto dest!: rd_num_less rd_take_less)

declare name_loop.simps [simp del] ext_loop.simps [simp del]

definition client_hello_name :: "bytes \<Rightarrow> string option" where
  "client_hello_name body =
    Option.bind (rd_u8 (Reader_new body)) (\<lambda>(kind, h).
      if kind \<noteq> HANDSHAKE_CLIENT_HELLO then None
      else
        Option.bind (rd_u8 h) (\<lambda>(hi, h).
        Option.bind (rd_u16 h) (\<lambda>(lo, h).
        Option.bind (rd_u16 h) (\<lambda>(client_version, h).
        Option.bind (rd_take 32 h) (\<lambda>(random, h).
        Option.bind (skip_u8_vec h) (\<lambda>h.
        Option.bind (skip_u16_vec h) (\<lambda>h.
        Option.bind (skip_u8_vec h) (\<lambda>h.
        Option.bind (rd_u16 h) (\<lambda>(extensions_len, h).
        Option.bind (rd_take (unat extensions_len) h) (\<lambda>(extensions, h).
          ext_loop (Reader_new extensions)))))))))))"

definition server_name :: "bytes \<Rightarrow> string option" where
  "server_name rcd =
    Option.bind (rd_u8 (Reader_new rcd)) (\<lambda>(kind, r).
      if kind \<noteq> RECORD_HANDSHAKE then None
      else
        Option.bind (rd_u16 r) (\<lambda>(version, r).
        Option.bind (rd_u16 r) (\<lambda>(record_len, r).
        Option.bind (rd_take (min (unat record_len) (length rcd - 5)) r) (\<lambda>(body, r).
          client_hello_name body))))"

section \<open>The bytes left to read\<close>

definition reads :: "Reader \<Rightarrow> bytes \<Rightarrow> bool" where
  "reads r bs \<longleftrightarrow> rd_at r \<le> length (rd_bytes r) \<and> drop (rd_at r) (rd_bytes r) = bs"

definition after :: "nat \<Rightarrow> Reader \<Rightarrow> Reader" where
  "after n r = r\<lparr>rd_at := rd_at r + n\<rparr>"

lemma reads_new [simp]: "reads (Reader_new bs) bs"
  by (simp add: reads_def Reader_new_def)

lemma reads_take:
  assumes "reads r (xs @ ys)" "length xs = n"
  shows "rd_take n r = Some (xs, after n r)" "reads (after n r) ys"
proof -
  have l: "length (rd_bytes r) - rd_at r = n + length ys" "rd_at r \<le> length (rd_bytes r)"
    using assms length_drop [of "rd_at r" "rd_bytes r"] by (simp_all add: reads_def)
  then have "rd_at r + n \<le> length (rd_bytes r)" by linarith
  then show "rd_take n r = Some (xs, after n r)" using assms by (simp add: rd_take_def after_def reads_def Let_def)
  have "drop n (drop (rd_at r) (rd_bytes r)) = ys" using assms by (simp add: reads_def)
  then show "reads (after n r) ys" using l by (simp add: reads_def after_def add.commute)
qed

lemma reads_u8:
  assumes "reads r (x # ys)"
  shows "rd_u8 r = Some (x, after 1 r)" "reads (after 1 r) ys"
  using reads_take [of r "[x]" ys 1] assms by (simp_all add: rd_u8_def)

lemma reads_u16:
  assumes "reads r (to_be_bytes w @ ys)"
  shows "rd_u16 r = Some (w, after 2 r)" "reads (after 2 r) ys"
proof -
  obtain x y where xy: "to_be_bytes w = [x, y]"
    using length_to_be_bytes [of w] by (cases "to_be_bytes w" rule: remdups_adj.cases) auto
  then have "from_be_bytes [x, y] = w" using le_bytes_inverse(3) [of w] by simp
  then show "rd_u16 r = Some (w, after 2 r)" "reads (after 2 r) ys"
    using reads_take [of r "[x, y]" ys 2] assms xy by (simp_all add: rd_u16_def)
qed

lemma reads_end: "reads r [] \<Longrightarrow> rd_u8 r = None \<and> rd_u16 r = None"
  by (auto simp: reads_def rd_u8_def rd_u16_def rd_take_def)

section \<open>The encoding of a hello\<close>

text \<open>Fields with a length of one or two bytes in front.\<close>

definition vec8 :: "bytes \<Rightarrow> bytes" where "vec8 xs = of_nat (length xs) # xs"
definition vec16 :: "bytes \<Rightarrow> bytes" where "vec16 xs = to_be_bytes (of_nat (length xs) :: u16) @ xs"

definition extension :: "u16 \<times> bytes \<Rightarrow> bytes" where
  "extension e = (case e of (kind, data) \<Rightarrow> to_be_bytes kind @ vec16 data)"

definition name_entry :: "u8 \<times> bytes \<Rightarrow> bytes" where
  "name_entry e = (case e of (kind, name) \<Rightarrow> kind # vec16 name)"

record hello =
  he_record_version :: u16
  he_length :: "u8 \<times> u16"
  he_version :: u16
  he_random :: bytes
  he_session :: bytes
  he_ciphers :: bytes
  he_compression :: bytes
  he_extensions :: "(u16 \<times> bytes) list"

definition hello_body :: "hello \<Rightarrow> bytes" where
  "hello_body h =
    [HANDSHAKE_CLIENT_HELLO, fst (he_length h)] @ to_be_bytes (snd (he_length h)) @ to_be_bytes (he_version h) @ he_random h
      @ vec8 (he_session h) @ vec16 (he_ciphers h) @ vec8 (he_compression h)
      @ vec16 (concat (map extension (he_extensions h)))"

definition hello_record :: "hello \<Rightarrow> bytes" where
  "hello_record h = [RECORD_HANDSHAKE] @ to_be_bytes (he_record_version h) @ vec16 (hello_body h)"

definition hello_fits :: "hello \<Rightarrow> bool" where
  "hello_fits h \<longleftrightarrow> length (he_random h) = 32 \<and> length (he_session h) < 2 ^ 8 \<and> length (he_ciphers h) < 2 ^ 16
     \<and> length (he_compression h) < 2 ^ 8 \<and> length (hello_body h) < 2 ^ 16
     \<and> list_all (\<lambda>e. length (snd e) < 2 ^ 16) (he_extensions h)"

lemma unat_len8 [simp]: "n < 256 \<Longrightarrow> unat (of_nat n :: u8) = n"
  by (simp add: unsigned_of_nat take_bit_eq_mod)

lemma unat_len16 [simp]: "n < 65536 \<Longrightarrow> unat (of_nat n :: u16) = n"
  by (simp add: unsigned_of_nat take_bit_eq_mod)

lemma reads_vec16:
  assumes "reads r (vec16 xs @ ys)" "length xs < 2 ^ 16"
  shows "rd_u16 r = Some (of_nat (length xs), after 2 r)" "rd_take (length xs) (after 2 r) = Some (xs, after (length xs) (after 2 r))"
    "reads (after (length xs) (after 2 r)) ys"
proof -
  have r: "reads r (to_be_bytes (of_nat (length xs) :: u16) @ (xs @ ys))" using assms(1) by (simp add: vec16_def)
  show "rd_u16 r = Some (of_nat (length xs), after 2 r)" by (rule reads_u16(1) [OF r])
  note t = reads_take [OF reads_u16(2) [OF r] refl]
  show "rd_take (length xs) (after 2 r) = Some (xs, after (length xs) (after 2 r))" by (rule t(1))
  show "reads (after (length xs) (after 2 r)) ys" by (rule t(2))
qed

lemma skip_vec16:
  assumes "reads r (vec16 xs @ ys)" "length xs < 2 ^ 16"
  shows "skip_u16_vec r = Some (after (length xs) (after 2 r))" "reads (after (length xs) (after 2 r)) ys"
  using reads_vec16 [OF assms] assms(2) by (simp_all add: skip_u16_vec_def)

lemma skip_vec8:
  assumes "reads r (vec8 xs @ ys)" "length xs < 2 ^ 8"
  shows "skip_u8_vec r = Some (after (length xs) (after 1 r))" "reads (after (length xs) (after 1 r)) ys"
proof -
  have r: "reads r (of_nat (length xs) # (xs @ ys))" using assms(1) by (simp add: vec8_def)
  note t = reads_take [OF reads_u8(2) [OF r] refl]
  show "skip_u8_vec r = Some (after (length xs) (after 1 r))"
    using reads_u8(1) [OF r] t(1) assms(2) by (simp add: skip_u8_vec_def)
  show "reads (after (length xs) (after 1 r)) ys" by (rule t(2))
qed

text \<open>The body of a hello is parsed down to its extensions.\<close>

lemma hello_name:
  assumes "hello_fits h"
  shows "client_hello_name (hello_body h) = ext_loop (Reader_new (concat (map extension (he_extensions h))))"
proof -
  let ?x = "concat (map extension (he_extensions h))"
  have x: "length ?x < 2 ^ 16" using assms by (auto simp: hello_fits_def hello_body_def vec16_def vec8_def)
  define r where "r = Reader_new (hello_body h)"
  have r: "reads r (HANDSHAKE_CLIENT_HELLO # fst (he_length h) # to_be_bytes (snd (he_length h)) @ to_be_bytes (he_version h)
      @ he_random h @ vec8 (he_session h) @ vec16 (he_ciphers h) @ vec8 (he_compression h) @ vec16 ?x @ [])"
    by (simp add: r_def hello_body_def)
  note f = assms [unfolded hello_fits_def]
  note a = reads_u8 [OF r] note b = reads_u8 [OF a(2)] note c = reads_u16 [OF b(2)] note d = reads_u16 [OF c(2)]
  note e = reads_take [OF d(2), of 32] note e = e(1) [OF conjunct1 [OF f]] e(2) [OF conjunct1 [OF f]]
  note g = skip_vec8 [OF e(2)] note i = skip_vec16 [OF g(2)] note j = skip_vec8 [OF i(2)] note k = reads_vec16 [OF j(2) x]
  show ?thesis
    using a b c d e g i j k f x unfolding r_def [symmetric] by (simp add: client_hello_name_def r_def [symmetric])
qed

lemma reads_extension:
  assumes "reads e (extension (kind, data) @ ys)" "length data < 2 ^ 16"
  shows "\<exists>e'. reads e' ys \<and> ext_loop e = (if kind \<noteq> EXT_SERVER_NAME then ext_loop e' else name_list data)"
proof -
  have r: "reads e (to_be_bytes kind @ vec16 data @ ys)" using assms(1) by (simp add: extension_def)
  note a = reads_u16 [OF r] note b = reads_vec16 [OF a(2) assms(2)]
  have "ext_loop e = (if kind \<noteq> EXT_SERVER_NAME then ext_loop (after (length data) (after 2 (after 2 e))) else name_list data)"
    using a b assms(2) by (simp add: ext_loop.simps [of e])
  then show ?thesis using b(3) by blast
qed

lemma ext_loop_extensions:
  assumes "reads e (concat (map extension exts))" "list_all (\<lambda>x. length (snd x) < 2 ^ 16) exts"
  shows "ext_loop e = (case find (\<lambda>x. fst x = EXT_SERVER_NAME) exts of None \<Rightarrow> None | Some (_, data) \<Rightarrow> name_list data)"
  using assms
proof (induction exts arbitrary: e)
  case Nil
  then show ?case using reads_end [of e] by (simp add: ext_loop.simps [of e])
next
  case (Cons x exts)
  obtain kind data where x: "x = (kind, data)" by (cases x)
  obtain e' where "reads e' (concat (map extension exts))"
    "ext_loop e = (if kind \<noteq> EXT_SERVER_NAME then ext_loop e' else name_list data)"
    using reads_extension [of e kind data] Cons.prems x by auto
  then show ?case using Cons.IH [of e'] Cons.prems x by auto
qed

text \<open>The host name of an entry, when it is one.\<close>

definition host_name :: "bytes \<Rightarrow> string option" where
  "host_name name =
    (if name \<noteq> [] \<and> list_all (\<lambda>b. b < 128) name then Some (to_ascii_lowercase (bytes_str name)) else None)"

lemma host_name_checked:
  "(case from_utf8 name of None \<Rightarrow> None
    | Some host \<Rightarrow> if host = [] \<or> \<not> is_ascii host then None else Some (to_ascii_lowercase host)) = host_name name"
proof -
  have "is_ascii (bytes_str name) \<longleftrightarrow> list_all (\<lambda>b. b < 128) name"
  proof -
    have "unat b mod 256 = unat b" for b :: u8 using unsigned_less [of b, where ?'a = nat] by simp
    then show ?thesis by (simp add: is_ascii_def bytes_str_def list_all_iff word_less_nat_alt)
  qed
  moreover have "is_ascii (bytes_str name) \<Longrightarrow> utf8_valid (bytes_str name)"
    by (rule utf8_ascii) (auto simp: is_ascii_def list_all_iff)
  moreover have "bytes_str name = [] \<longleftrightarrow> name = []" by (simp add: bytes_str_def)
  ultimately show ?thesis by (auto simp: from_utf8_def host_name_def)
qed

lemma reads_name:
  assumes "reads n (name_entry (kind, name) @ ys)" "length name < 2 ^ 16"
  shows "\<exists>n'. reads n' ys \<and> name_loop n = (if kind = NAME_TYPE_HOST then host_name name else name_loop n')"
proof -
  have r: "reads n (kind # vec16 name @ ys)" using assms(1) by (simp add: name_entry_def)
  note a = reads_u8 [OF r] note b = reads_vec16 [OF a(2) assms(2)]
  have "name_loop n = (if kind = NAME_TYPE_HOST then host_name name else name_loop (after (length name) (after 2 (after 1 n))))"
    using a b assms(2) by (simp add: name_loop.simps [of n] host_name_checked)
  then show ?thesis using b(3) by blast
qed

lemma name_loop_names:
  assumes "reads n (concat (map name_entry ns))" "list_all (\<lambda>x. length (snd x) < 2 ^ 16) ns"
  shows "name_loop n = (case find (\<lambda>x. fst x = NAME_TYPE_HOST) ns of None \<Rightarrow> None | Some (_, name) \<Rightarrow> host_name name)"
  using assms
proof (induction ns arbitrary: n)
  case Nil
  then show ?case using reads_end [of n] by (simp add: name_loop.simps [of n])
next
  case (Cons x ns)
  obtain kind name where x: "x = (kind, name)" by (cases x)
  obtain n' where "reads n' (concat (map name_entry ns))"
    "name_loop n = (if kind = NAME_TYPE_HOST then host_name name else name_loop n')"
    using reads_name [of n kind name] Cons.prems x by auto
  then show ?case using Cons.IH [of n'] Cons.prems x by auto
qed

lemma name_list_names:
  assumes "length (concat (map name_entry ns)) < 2 ^ 16" "list_all (\<lambda>x. length (snd x) < 2 ^ 16) ns"
  shows "name_list (vec16 (concat (map name_entry ns)) @ rest)
    = (case find (\<lambda>x. fst x = NAME_TYPE_HOST) ns of None \<Rightarrow> None | Some (_, name) \<Rightarrow> host_name name)"
proof -
  let ?l = "concat (map name_entry ns)"
  have "reads (Reader_new (vec16 ?l @ rest)) (vec16 ?l @ rest)" by simp
  note v = reads_vec16 [OF this assms(1)]
  have "name_list (vec16 ?l @ rest) = name_loop (Reader_new ?l)"
    using v assms(1) by (simp add: name_list_def)
  then show ?thesis using name_loop_names [of "Reader_new ?l" ns] assms(2) by simp
qed

text \<open>What follows the record does not matter.\<close>

lemma server_name_body:
  assumes "length body < 2 ^ 16"
  shows "server_name ([RECORD_HANDSHAKE] @ to_be_bytes (v :: u16) @ vec16 body @ rest) = client_hello_name body"
proof -
  define r where "r = Reader_new ([RECORD_HANDSHAKE] @ to_be_bytes v @ vec16 body @ rest)"
  have r: "reads r (RECORD_HANDSHAKE # to_be_bytes v @ vec16 body @ rest)" by (simp add: r_def)
  note a = reads_u8 [OF r] note b = reads_u16 [OF a(2)] note c = reads_vec16 [OF b(2) assms]
  have "min (length body) (length ([RECORD_HANDSHAKE] @ to_be_bytes v @ vec16 body @ rest) - 5) = length body"
    by (simp add: vec16_def)
  then show ?thesis
    using a b c assms unfolding server_name_def r_def [symmetric] by simp
qed

section \<open>Properties\<close>

text \<open>
  C18: the server name of every hello is found. For every ClientHello, whatever its versions, random bytes, session, cipher suites,
  compression methods and other extensions and whatever follows it in the buffer, the parser returns the
  first host name of its first server-name extension in lower case if that is non-empty ASCII, and
  nothing if there is no such extension or no such name.
\<close>

theorem server_name_of_hello:
  assumes "hello_fits h"
    and "\<forall>data. find (\<lambda>x. fst x = EXT_SERVER_NAME) (he_extensions h) = Some (EXT_SERVER_NAME, data) \<longrightarrow>
           data = vec16 (concat (map name_entry ns)) @ tail \<and> list_all (\<lambda>x. length (snd x) < 2 ^ 16) ns
           \<and> length (concat (map name_entry ns)) < 2 ^ 16"
  shows "server_name (hello_record h @ rest) =
    (case find (\<lambda>x. fst x = EXT_SERVER_NAME) (he_extensions h) of
       None \<Rightarrow> None
     | Some _ \<Rightarrow> (case find (\<lambda>x. fst x = NAME_TYPE_HOST) ns of None \<Rightarrow> None | Some (_, name) \<Rightarrow> host_name name))"
proof -
  let ?x = "concat (map extension (he_extensions h))"
  have "length (hello_body h) < 2 ^ 16" using assms(1) by (simp add: hello_fits_def)
  then have "server_name (hello_record h @ rest) = client_hello_name (hello_body h)"
    using server_name_body [of "hello_body h"] by (simp add: hello_record_def)
  also have "\<dots> = (case find (\<lambda>x. fst x = EXT_SERVER_NAME) (he_extensions h) of None \<Rightarrow> None | Some (_, data) \<Rightarrow> name_list data)"
    using hello_name [OF assms(1)] ext_loop_extensions [of "Reader_new ?x" "he_extensions h"] assms(1)
    by (simp add: hello_fits_def)
  finally have eq: "server_name (hello_record h @ rest)
      = (case find (\<lambda>x. fst x = EXT_SERVER_NAME) (he_extensions h) of None \<Rightarrow> None | Some (_, data) \<Rightarrow> name_list data)" .
  show ?thesis
  proof (cases "find (\<lambda>x. fst x = EXT_SERVER_NAME) (he_extensions h)")
    case (Some e)
    then have "fst e = EXT_SERVER_NAME" by (auto simp: find_Some_iff)
    then obtain data where e: "e = (EXT_SERVER_NAME, data)" by (cases e) simp
    then show ?thesis using eq Some assms(2) name_list_names [of ns tail] by simp
  qed (simp add: eq)
qed

definition sample_hello :: hello where
  "sample_hello =
    \<lparr>he_record_version = 0x0301, he_length = (0, 0), he_version = 0x0303, he_random = replicate 32 7, he_session = [],
     he_ciphers = [0x13, 0x01], he_compression = [0],
     he_extensions = [(23, []), (0, vec16 (name_entry (0, str_bytes ''SVC.a'')))]\<rparr>"

theorem server_name_of_hello_witness: "server_name (hello_record sample_hello @ [1, 2, 3]) = Some ''svc.a''"
proof -
  have "hello_fits sample_hello"
    by (simp add: hello_fits_def sample_hello_def hello_body_def vec8_def vec16_def extension_def name_entry_def str_bytes_def)
  then show ?thesis
    using server_name_of_hello [of sample_hello "[(0, str_bytes ''SVC.a'')]" "[]" "[1, 2, 3]"]
    by (simp add: sample_hello_def EXT_SERVER_NAME_def NAME_TYPE_HOST_def host_name_def vec16_def name_entry_def str_bytes_def
        bytes_str_def to_ascii_lowercase_def to_ascii_lowercase_char_def)
      (simp add: char_of_def bit_iff_odd)
qed

end
