(* ===== verification/Sni_Proxy.thy ===== *)
theory Sni_Proxy
  imports "HOL-Library.Sublist" Sni_ClientHello Services_Refresh Upstream_Resolver Proxy_Limits
begin

text \<open>
  \<open>sni/proxy.rs\<close>: splicing TLS connections by server name. What the client's socket yields is a list of reads: a chunk (an
  empty one is the end of the stream) or an error; a list that ends before the hello is complete is the
  timeout. Connecting, writing and copying are arguments; a splice returns what it did with the origin.
\<close>

section \<open>Data\<close>

definition HELLO_TIMEOUT :: nat where "HELLO_TIMEOUT = 10"
definition CONNECT_TIMEOUT :: nat where "CONNECT_TIMEOUT = 10"

record SniStats =
  sn_accepted :: u64
  sn_spliced :: u64
  sn_no_sni :: u64
  sn_refused :: u64
  sn_not_allow_listed :: u64
  sn_refused_limit :: u64
  sn_upstream_failed :: u64
  sn_bytes_client_to_origin :: u64
  sn_bytes_origin_to_client :: u64

definition SniStats_default :: SniStats where
  "SniStats_default =
    \<lparr>sn_accepted = 0, sn_spliced = 0, sn_no_sni = 0, sn_refused = 0, sn_not_allow_listed = 0, sn_refused_limit = 0,
     sn_upstream_failed = 0, sn_bytes_client_to_origin = 0, sn_bytes_origin_to_client = 0\<rparr>"

datatype SniError =
    HelloTimeout nat
  | NotTls
  | NoServerName
  | HelloTooLarge nat
  | NotAllowListed string
  | SniRefused string ResolveError
  | SniUpstream string string
  | SniIo string

section \<open>Splicing\<close>

primrec read_hello :: "(string + bytes) list \<Rightarrow> bytes \<Rightarrow> SniError + string \<times> bytes" where
  "read_hello [] buffer = Err (HelloTimeout HELLO_TIMEOUT)"
| "read_hello (x # xs) buffer =
    (case x of
       Inl e \<Rightarrow> Err (SniIo e)
     | Inr chunk \<Rightarrow>
         if chunk = [] then Err NotTls
         else
           let buffer = buffer @ chunk
           in if \<not> looks_like_tls buffer then Err NotTls
              else if MAX_CLIENT_HELLO < length buffer then Err (HelloTooLarge MAX_CLIENT_HELLO)
              else case record_length buffer of
                     Some needed \<Rightarrow>
                       if needed \<le> length buffer
                       then map_err (\<lambda>_. NoServerName) (ok_or () (map_option (\<lambda>h. (h, buffer)) (server_name buffer)))
                       else read_hello xs buffer
                   | None \<Rightarrow> read_hello xs buffer)"

text \<open>The addresses tried, in order, and the first that could be reached, or the last error.\<close>

primrec try_connect ::
  "(SocketAddr \<Rightarrow> string option) \<Rightarrow> SocketAddr list \<Rightarrow> string option \<Rightarrow> SocketAddr list \<times> (string option + SocketAddr)" where
  "try_connect connect [] last_error = ([], Inl last_error)"
| "try_connect connect (a # as) last_error =
    (case connect a of
       None \<Rightarrow> ([a], Inr a)
     | Some e \<Rightarrow> (case try_connect connect as (Some e) of (tried, r) \<Rightarrow> (a # tried, r)))"

text \<open>
  What a splice does: the addresses tried, and the origin with the bytes replayed to it. \<open>write\<close> is
  the error of writing, if any; \<open>copied\<close> the byte counts of the bidirectional copy or its error.
\<close>

record splice_effect =
  se_tried :: "SocketAddr list"
  se_replayed :: "(SocketAddr \<times> bytes) option"

definition no_effect :: splice_effect where
  "no_effect = \<lparr>se_tried = [], se_replayed = None\<rparr>"

definition sni_splice ::
  "(SocketAddr \<Rightarrow> string option) \<Rightarrow> string option \<Rightarrow> (string + u64 \<times> u64) \<Rightarrow> (string + bytes) list \<Rightarrow>
   UpstreamResolver \<Rightarrow> u16 \<Rightarrow> SniStats \<Rightarrow> LiveServices \<Rightarrow> bool \<Rightarrow>
   (SniError + unit) \<times> UpstreamResolver \<times> SniStats \<times> splice_effect" where
  "sni_splice connect write copied received resolver port stats services passthrough_unknown_hosts =
    (case read_hello received [] of
       Inl e \<Rightarrow> (Err e, resolver, stats, no_effect)
     | Inr (host, buffer) \<Rightarrow>
         if \<not> passthrough_unknown_hosts \<and> service_for (ls_matcher services) host = None then
           (Err (NotAllowListed host), resolver, stats\<lparr>sn_not_allow_listed := sn_not_allow_listed stats + 1\<rparr>, no_effect)
         else
           (case resolve_host resolver host port of
              (resolver, Inl source) \<Rightarrow>
                (Err (SniRefused host source), resolver, stats\<lparr>sn_refused := sn_refused stats + 1\<rparr>, no_effect)
            | (resolver, Inr addresses) \<Rightarrow>
                (case try_connect connect addresses None of
                   (tried, Inl last_error) \<Rightarrow>
                     (Err (SniUpstream host (case last_error of Some e \<Rightarrow> e | None \<Rightarrow> ''no addresses'')), resolver,
                      stats\<lparr>sn_upstream_failed := sn_upstream_failed stats + 1\<rparr>, \<lparr>se_tried = tried, se_replayed = None\<rparr>)
                 | (tried, Inr origin) \<Rightarrow>
                     (case write of
                        Some e \<Rightarrow> (Err (SniIo e), resolver, stats, \<lparr>se_tried = tried, se_replayed = None\<rparr>)
                      | None \<Rightarrow>
                          let effect = \<lparr>se_tried = tried, se_replayed = Some (origin, buffer)\<rparr>;
                              stats = stats\<lparr>sn_bytes_client_to_origin := sn_bytes_client_to_origin stats + of_nat (length buffer),
                                            sn_spliced := sn_spliced stats + 1\<rparr>
                          in (case copied of
                               Inl e \<Rightarrow> (Err (SniIo e), resolver, stats, effect)
                             | Inr (to_origin, to_client) \<Rightarrow>
                                 (Ok (), resolver,
                                  stats\<lparr>sn_bytes_client_to_origin := sn_bytes_client_to_origin stats + to_origin,
                                        sn_bytes_origin_to_client := sn_bytes_origin_to_client stats + to_client\<rparr>,
                                  effect))))))"

definition accept_sni ::
  "IpAddr \<Rightarrow> ConnectionLimit \<Rightarrow> SniStats \<Rightarrow> ConnectionPermit option \<times> ConnectionLimit \<times> SniStats" where
  "accept_sni source limit stats =
    (case try_acquire_for source limit of
       (None, limit) \<Rightarrow> (None, limit, stats\<lparr>sn_refused_limit := sn_refused_limit stats + 1\<rparr>)
     | (Some permit, limit) \<Rightarrow> (Some permit, limit, stats\<lparr>sn_accepted := sn_accepted stats + 1\<rparr>))"

section \<open>Reading the hello\<close>

lemma record_length_append: "record_length bs = Some n \<Longrightarrow> record_length (bs @ rest) = Some n"
  by (auto simp: record_length_def nth_append split: if_splits)

lemma record_length_take: "record_length bs = Some n \<Longrightarrow> 5 \<le> k \<Longrightarrow> record_length (take k bs) = Some n"
  by (auto simp: record_length_def split: if_splits)

text \<open>A complete record determines the result; what has been read beyond it does not.\<close>

lemma server_name_append:
  assumes "record_length rcd = Some (length rcd)" "looks_like_tls rcd"
  shows "server_name (rcd @ rest) = server_name rcd"
proof -
  have len: "5 \<le> length rcd" using assms(1) by (auto simp: record_length_def split: if_splits)
  then obtain k a b c d body where rcd: "rcd = k # a # b # c # d # body"
    by (auto simp: numeral_eq_Suc Suc_le_length_iff)
  have k: "k = RECORD_HANDSHAKE" using assms(2) rcd by (simp add: looks_like_tls_def)
  have n: "unat (from_be_bytes [c, d] :: u16) = length body" using assms(1) rcd by (simp add: record_length_def)
  then have l: "length body < 2 ^ 16" using unsigned_less [of "from_be_bytes [c, d] :: u16", where ?'a = nat] by simp
  have inv: "to_be_bytes (from_be_bytes [x, y] :: u16) = [x, y]" for x y
    using to_le_from_le [of "[y, x]", where ?'a = 16] by (simp add: to_be_bytes_def from_be_bytes_def)
  have "of_nat (length body) = (from_be_bytes [c, d] :: u16)" unfolding n [symmetric] by simp
  then have "to_be_bytes (of_nat (length body) :: u16) = [c, d]" using inv by simp
  then have "rcd @ r = [RECORD_HANDSHAKE] @ to_be_bytes (from_be_bytes [a, b] :: u16) @ vec16 body @ r" for r
    by (simp add: rcd k vec16_def inv)
  then show ?thesis using server_name_body [OF l] by (metis append_Nil2)
qed

lemma read_hello_chunks:
  assumes "\<forall>c \<in> set chunks. c \<noteq> [] \<and> length c \<le> 1024"
    and "buffer @ concat chunks = rcd @ rest" "length buffer < length rcd"
    and "record_length rcd = Some (length rcd)" "looks_like_tls rcd" "length rcd + 1024 \<le> MAX_CLIENT_HELLO"
  shows "case read_hello (map Inr chunks @ xs) buffer of
      Inl e \<Rightarrow> e = NoServerName \<and> server_name rcd = None
    | Inr (host, buffer') \<Rightarrow> server_name rcd = Some host \<and> prefix rcd buffer' \<and> prefix buffer' (rcd @ rest)"
  using assms(1-3)
proof (induction chunks arbitrary: buffer)
  case Nil
  then show ?case by (metis append_Nil2 concat.simps(1) leD length_append le_add1)
next
  case (Cons c chunks)
  let ?b = "buffer @ c"
  have b: "?b @ concat chunks = rcd @ rest" and c: "c \<noteq> []" "length c \<le> 1024" using Cons.prems by auto
  have pre: "take (length ?b) (rcd @ rest) = ?b" using b by (metis append_eq_conv_conj)
  have "length ?b \<noteq> 0" using c by simp
  then have tls: "looks_like_tls ?b"
    using assms(5) pre by (cases rcd; cases ?b) (auto simp: looks_like_tls_def)
  have fits: "length ?b \<le> MAX_CLIENT_HELLO" using Cons.prems(3) c assms(6) by simp
  show ?case
  proof (cases "length rcd \<le> length ?b")
    case True
    then obtain extra where m: "?b = rcd @ extra" "rest = extra @ concat chunks"
      using b by (metis append_eq_append_conv_if append_eq_conv_conj append_take_drop_id)
    then have "record_length ?b = Some (length rcd)" "server_name ?b = server_name rcd"
      using record_length_append [OF assms(4)] server_name_append [OF assms(4,5)] by simp_all
    then show ?thesis
      using True tls fits c m by (cases "server_name rcd") (auto simp: Let_def prefix_def)
  next
    case False
    then have sub: "?b = take (length ?b) rcd" using pre by simp
    have "record_length ?b = None \<or> record_length ?b = Some (length rcd)"
      using record_length_take [OF assms(4), of "length ?b"] sub by (cases "length ?b < 5") (auto simp: record_length_def)
    then have "read_hello (map Inr (c # chunks) @ xs) buffer = read_hello (map Inr chunks @ xs) ?b"
      using False tls fits c by (auto simp: Let_def)
    then show ?thesis using Cons.IH [of ?b] Cons.prems(1) b False by simp
  qed
qed

text \<open>The buffer holds exactly what was read.\<close>

lemma read_hello_buffer:
  "read_hello xs buffer = Ok (host, b) \<Longrightarrow> \<exists>chunks ys. xs = map Inr chunks @ ys \<and> b = buffer @ concat chunks"
proof (induction xs arbitrary: buffer)
  case (Cons x xs)
  then obtain chunk where x: "x = Inr chunk" by (cases x) auto
  consider "read_hello xs (buffer @ chunk) = Ok (host, b)" | "b = buffer @ chunk"
    using Cons.prems x
    by (auto simp: Let_def ok_or_def split: if_splits option.splits)
  then show ?case
  proof cases
    case 1
    from Cons.IH [OF this] obtain chunks ys where "xs = map Inr chunks @ ys" "b = (buffer @ chunk) @ concat chunks" by blast
    then show ?thesis using x by (intro exI [of _ "chunk # chunks"] exI [of _ ys]) simp
  next
    case 2
    then show ?thesis using x by (intro exI [of _ "[chunk]"] exI [of _ xs]) simp
  qed
qed simp

lemma try_connect_tried:
  assumes "try_connect connect as le = (tried, r)"
  shows "prefix tried as \<and> (\<forall>a. r = Inr a \<longrightarrow> a \<in> set tried \<and> connect a = None)"
  using assms
proof (induction as arbitrary: le tried r)
  case (Cons x xs)
  show ?case
  proof (cases "connect x")
    case None
    then show ?thesis using Cons.prems by auto
  next
    case (Some e)
    obtain t q where t: "try_connect connect xs (Some e) = (t, q)" by fastforce
    then show ?thesis using Cons.IH [OF t] Cons.prems Some by auto
  qed
qed simp

section \<open>Properties\<close>

text \<open>
  The hello is read independently of how it arrives. However the bytes of a complete record are cut into reads, and whatever
  follows it, reading ends exactly with the name the record holds, or with the error that it holds
  none, and the bytes buffered are a part of the stream that includes the record.
\<close>

theorem hello_chunking_independent:
  assumes "\<forall>c \<in> set chunks. c \<noteq> [] \<and> length c \<le> 1024" and "concat chunks = rcd @ rest"
    and "record_length rcd = Some (length rcd)" "looks_like_tls rcd" "length rcd + 1024 \<le> MAX_CLIENT_HELLO"
  shows "case read_hello (map Inr chunks @ xs) [] of
      Inl e \<Rightarrow> e = NoServerName \<and> server_name rcd = None
    | Inr (host, buffer) \<Rightarrow> server_name rcd = Some host \<and> prefix rcd buffer \<and> prefix buffer (rcd @ rest)"
  using read_hello_chunks [OF assms(1), of "[]" rcd rest xs] assms
  by (cases rcd) (auto simp: looks_like_tls_def)

lemma sample_hello_record:
  "record_length (hello_record sample_hello) = Some (length (hello_record sample_hello))"
  "looks_like_tls (hello_record sample_hello)" "length (hello_record sample_hello) = 70"
proof -
  have n: "length (hello_body sample_hello) = 65"
    by (simp add: hello_body_def sample_hello_def vec8_def vec16_def extension_def name_entry_def str_bytes_def)
  obtain x y where xy: "to_be_bytes (769 :: u16) = [x, y]"
    using length_to_be_bytes [of "769 :: u16"] by (cases "to_be_bytes (769 :: u16)" rule: remdups_adj.cases) auto
  obtain u v where uv: "to_be_bytes (65 :: u16) = [u, v]"
    using length_to_be_bytes [of "65 :: u16"] by (cases "to_be_bytes (65 :: u16)" rule: remdups_adj.cases) auto
  have "from_be_bytes [u, v] = (65 :: u16)" using le_bytes_inverse(3) [of 65] uv by simp
  then show "record_length (hello_record sample_hello) = Some (length (hello_record sample_hello))"
    using n xy uv by (simp add: hello_record_def vec16_def record_length_def) (simp add: sample_hello_def xy)
  show "looks_like_tls (hello_record sample_hello)" by (simp add: hello_record_def looks_like_tls_def)
  show "length (hello_record sample_hello) = 70" using n by (simp add: hello_record_def vec16_def)
qed

theorem hello_chunking_independent_witness:
  "case read_hello (map Inr [take 3 (hello_record sample_hello), drop 3 (hello_record sample_hello)]) [] of
      Inl e \<Rightarrow> e = NoServerName \<and> server_name (hello_record sample_hello) = None
    | Inr (host, buffer) \<Rightarrow> server_name (hello_record sample_hello) = Some host \<and> prefix (hello_record sample_hello) buffer
        \<and> prefix buffer (hello_record sample_hello @ [])"
proof -
  let ?c = "[take 3 (hello_record sample_hello), drop 3 (hello_record sample_hello)]"
  have "hello_record sample_hello \<noteq> []" using sample_hello_record(3) by force
  then have "\<forall>c \<in> set ?c. c \<noteq> [] \<and> length c \<le> 1024"
    using sample_hello_record(3) by simp
  from hello_chunking_independent [OF this, of "hello_record sample_hello" "[]" "[]"]
  show ?thesis using sample_hello_record by (simp add: MAX_CLIENT_HELLO_def)
qed


lemma sample_hello_read:
  "read_hello [Inr (hello_record sample_hello)] [] = Ok (''svc.a'', hello_record sample_hello)"
proof -
  have "hello_record sample_hello \<noteq> []" using sample_hello_record(3) by force
  moreover have "server_name (hello_record sample_hello) = Some ''svc.a''"
  proof -
    have "hello_fits sample_hello"
      by (simp add: hello_fits_def sample_hello_def hello_body_def vec8_def vec16_def extension_def name_entry_def str_bytes_def)
    then have "server_name (hello_record sample_hello)
        = ext_loop (Reader_new (concat (map extension (he_extensions sample_hello))))"
      using server_name_body [of "hello_body sample_hello" "he_record_version sample_hello" "[]"] hello_name
      by (simp add: hello_record_def hello_fits_def)
    also have "\<dots> = name_list (vec16 (concat (map name_entry [(0, str_bytes ''SVC.a'')])) @ [])"
      using ext_loop_extensions [of "Reader_new (concat (map extension (he_extensions sample_hello)))" "he_extensions sample_hello"]
      by (simp add: sample_hello_def EXT_SERVER_NAME_def vec16_def name_entry_def)
    also have "\<dots> = Some ''svc.a''"
      by (subst name_list_names) (simp_all add: NAME_TYPE_HOST_def host_name_def vec16_def name_entry_def str_bytes_def
        bytes_str_def to_ascii_lowercase_def to_ascii_lowercase_char_def, simp add: char_of_def bit_iff_odd)
    finally show ?thesis .
  qed
  ultimately show ?thesis using sample_hello_record by (simp add: MAX_CLIENT_HELLO_def)
qed


end
