(* ===== verification/Admin_Api.thy ===== *)
theory Admin_Api
  imports Orch_Versions Proxy_Shutdown
begin

text \<open>
  \<open>admin/mod.rs\<close> and \<open>admin/api.rs\<close>: readiness, authentication and the operator endpoints. A handler maps the state, which is
  None until the store is open, and the request to an answer and the new state; routing and the wire
  format are the HTTP library's.
\<close>

section \<open>Readiness\<close>

record Readiness =
  rn_store_open :: bool
  rn_listeners_bound :: bool
  rn_draining :: bool

definition Readiness_new :: Readiness where
  "Readiness_new = \<lparr>rn_store_open = False, rn_listeners_bound = False, rn_draining = False\<rparr>"

definition set_store_open :: "bool \<Rightarrow> Readiness \<Rightarrow> Readiness" where
  "set_store_open b r = r\<lparr>rn_store_open := b\<rparr>"

definition set_listeners_bound :: "bool \<Rightarrow> Readiness \<Rightarrow> Readiness" where
  "set_listeners_bound b r = r\<lparr>rn_listeners_bound := b\<rparr>"

definition begin_drain :: "Readiness \<Rightarrow> Readiness" where
  "begin_drain r = r\<lparr>rn_draining := True\<rparr>"

definition is_ready :: "Readiness \<Rightarrow> bool" where
  "is_ready r \<longleftrightarrow> \<not> rn_draining r \<and> rn_store_open r \<and> rn_listeners_bound r"

text \<open>A line of text.\<close>

definition line :: "string \<Rightarrow> string" where
  "line s = s @ [CHR 0x0A]"

definition healthz :: "nat \<times> string" where
  "healthz = (200, line ''ok'')"

definition readyz :: "Readiness \<Rightarrow> nat \<times> string" where
  "readyz r =
    (if is_ready r then (200, line ''ready'')
     else if rn_draining r then (503, line ''draining'')
     else (503, line ''starting''))"

section \<open>Authentication\<close>

type_synonym AuthToken = "string option"

definition AuthToken_new :: "string \<Rightarrow> AuthToken" where
  "AuthToken_new token = (if token = [] then None else Some token)"

definition constant_time_eq :: "bytes \<Rightarrow> bytes \<Rightarrow> bool" where
  "constant_time_eq a b =
    (if length a \<noteq> length b then False
     else foldl (\<lambda>diff (x, y). diff OR (x XOR y)) 0 (zip a b) = 0)"

definition permits :: "AuthToken \<Rightarrow> headers \<Rightarrow> bool" where
  "permits token hs =
    (case token of
       None \<Rightarrow> True
     | Some expected \<Rightarrow>
         (case Option.bind (hget hs ''authorization'') to_str of
            None \<Rightarrow> False
          | Some value \<Rightarrow>
              (case strip_prefix value ''Bearer '' of
                 None \<Rightarrow> False
               | Some presented \<Rightarrow> constant_time_eq (str_bytes presented) (str_bytes expected))))"

section \<open>State and answers\<close>

record ServiceInfo =
  si_name :: string
  si_patterns :: nat

record ('db, 't, 's, 'e) ApiState =
  api_store :: "('s, 'e) SliceStore"
  api_index :: "('db, 't) ObjectIndex"
  api_drain :: Drain
  api_readiness :: Readiness
  api_token :: AuthToken
  api_services :: "ServiceInfo list"
  api_data_dir :: string
  api_configured_disk_bytes :: u64
  api_min_free_bytes :: u64
  api_slice_size :: u32
  api_mutations_need_token :: bool

record Stats =
  st_objects :: nat
  st_indexed_bytes :: u64
  st_configured_disk_bytes :: u64
  st_effective_disk_bytes :: u64
  st_disk_guard_engaged :: bool
  st_filesystem_total_bytes :: u64
  st_filesystem_available_bytes :: u64
  st_min_free_bytes :: u64
  st_slice_size :: u32
  st_draining :: bool
  st_inflight :: u64

record PurgeParams =
  pp_prefix :: "string option"
  pp_all :: bool

record PurgeResult =
  pr_objects_removed :: nat
  pr_slices_removed :: u64

datatype admin_body = AdminText string | StatsBody Stats | ServicesBody "ServiceInfo list" | PurgeBody PurgeResult

text \<open>The last answer is the panic of a division by a slice size of zero.\<close>

datatype admin_answer = Answer nat admin_body | AdminPanic

definition late_set ::
  "('db, 't, 's, 'e) ApiState \<Rightarrow> ('db, 't, 's, 'e) ApiState option \<Rightarrow> bool \<times> ('db, 't, 's, 'e) ApiState option" where
  "late_set state late = (case late of None \<Rightarrow> (True, Some state) | Some _ \<Rightarrow> (False, late))"

definition unauthorised :: admin_answer where
  "unauthorised = Answer 401 (AdminText (line ''unauthorised''))"

definition starting :: admin_answer where
  "starting = Answer 503 (AdminText (line ''the store is still opening''))"

definition refuse_unauthenticated_mutation :: "('db, 't, 's, 'e) ApiState \<Rightarrow> admin_answer option" where
  "refuse_unauthenticated_mutation state =
    (if api_mutations_need_token state \<and> api_token state = None then Some (Answer 403 (AdminText (line
       (''refusing: this endpoint changes state, the admin API is not bound to loopback, ''
        @ ''and ADMIN_TOKEN is not set. Set ADMIN_TOKEN, or bind the admin API to ''
        @ ''loopback with ADMIN_BIND.''))))
     else None)"

section \<open>Endpoints\<close>

definition admin_stats ::
  "(string \<Rightarrow> string + Statvfs) \<Rightarrow> headers \<Rightarrow> ('db, 't, 's, 'e) ApiState option \<Rightarrow> admin_answer" where
  "admin_stats statvfs hs late =
    (case late of
       None \<Rightarrow> starting
     | Some state \<Rightarrow>
         if \<not> permits (api_token state) hs then unauthorised
         else
           let objects = (case index_len (api_index state) of Inr n \<Rightarrow> n | Inl _ \<Rightarrow> 0);
               indexed_bytes = (case index_total_bytes (api_index state) of Inr n \<Rightarrow> n | Inl _ \<Rightarrow> 0);
               disk = (case space_read statvfs (api_data_dir state) of
                         Inr d \<Rightarrow> d | Inl _ \<Rightarrow> \<lparr>ds_total = 0, ds_available = 0\<rparr>);
               effective = effective_cap (api_configured_disk_bytes state) (api_min_free_bytes state) indexed_bytes disk
           in Answer 200 (StatsBody
                \<lparr>st_objects = objects, st_indexed_bytes = indexed_bytes,
                 st_configured_disk_bytes = api_configured_disk_bytes state, st_effective_disk_bytes = effective,
                 st_disk_guard_engaged = is_engaged (api_configured_disk_bytes state) effective,
                 st_filesystem_total_bytes = ds_total disk, st_filesystem_available_bytes = ds_available disk,
                 st_min_free_bytes = api_min_free_bytes state, st_slice_size = api_slice_size state,
                 st_draining = dr_draining (api_drain state), st_inflight = dr_inflight (api_drain state)\<rparr>))"

definition admin_services :: "headers \<Rightarrow> ('db, 't, 's, 'e) ApiState option \<Rightarrow> admin_answer" where
  "admin_services hs late =
    (case late of
       None \<Rightarrow> starting
     | Some state \<Rightarrow>
         if \<not> permits (api_token state) hs then unauthorised
         else Answer 200 (ServicesBody (api_services state)))"

definition slice_count :: "u32 \<Rightarrow> ObjectMeta \<Rightarrow> u64" where
  "slice_count slice_size m =
    (if om_total_len m = 0 then 0 else div_ceil (om_total_len m) (ucast slice_size))"

definition purge_keys :: "u32 \<Rightarrow> ObjectId \<Rightarrow> ObjectMeta \<Rightarrow> SliceKey list" where
  "purge_keys slice_size object m =
    map (\<lambda>i. SliceKey_new object (om_generation m) (of_nat i)) [0 ..< unat (slice_count slice_size m)]"

text \<open>The loop over the objects; None is the panic.\<close>

primrec purge_objects ::
  "u32 \<Rightarrow> ObjectId list \<Rightarrow> ('s, 'e) SliceStore \<times> ('db, 't) ObjectIndex \<times> u64 \<Rightarrow>
   (('s, 'e) SliceStore \<times> ('db, 't) ObjectIndex \<times> u64) option" where
  "purge_objects slice_size [] x = Some x"
| "purge_objects slice_size (object # objects) x =
    (case x of (store, index, slices_removed) \<Rightarrow>
       Option.bind
         (case index_get index object of
            Inr (Some m) \<Rightarrow>
              if om_total_len m \<noteq> 0 \<and> slice_size = 0 then None
              else Some (foldl store_remove store (purge_keys slice_size object m),
                         slices_removed + slice_count slice_size m)
          | _ \<Rightarrow> Some (store, slices_removed))
         (\<lambda>(store, slices_removed).
            purge_objects slice_size objects
              (store, (case index_remove index object of Inr ix \<Rightarrow> ix | Inl _ \<Rightarrow> index), slices_removed)))"

text \<open>\<open>text\<close> is how an error of the index is displayed.\<close>

definition admin_purge ::
  "(IndexError \<Rightarrow> string) \<Rightarrow> headers \<Rightarrow> PurgeParams \<Rightarrow> ('db, 't, 's, 'e) ApiState option \<Rightarrow> admin_answer \<times> ('db, 't, 's, 'e) ApiState option" where
  "admin_purge text hs params late =
    (case late of
       None \<Rightarrow> (starting, late)
     | Some state \<Rightarrow>
         if \<not> permits (api_token state) hs then (unauthorised, late)
         else case refuse_unauthenticated_mutation state of
           Some refusal \<Rightarrow> (refusal, late)
         | None \<Rightarrow>
             (case (case (pp_prefix params, pp_all params) of
                      (Some pre, _) \<Rightarrow> Some (index_ids_with_prefix (api_index state) pre)
                    | (None, True) \<Rightarrow> Some (index_all_ids (api_index state))
                    | (None, False) \<Rightarrow> None) of
                None \<Rightarrow> (Answer 400 (AdminText (line ''specify ?prefix=... or ?all=true'')), late)
              | Some (Inl e) \<Rightarrow> (Answer 500 (AdminText (line (''cannot read the index: '' @ text e))), late)
              | Some (Inr ids) \<Rightarrow>
                  (case purge_objects (api_slice_size state) ids (api_store state, api_index state, 0) of
                     None \<Rightarrow> (AdminPanic, late)
                   | Some (store, index, slices_removed) \<Rightarrow>
                       (Answer 200 (PurgeBody \<lparr>pr_objects_removed = length ids, pr_slices_removed = slices_removed\<rparr>),
                        Some (state\<lparr>api_store := store, api_index := index\<rparr>)))))"

definition admin_drain ::
  "headers \<Rightarrow> ('db, 't, 's, 'e) ApiState option \<Rightarrow> admin_answer \<times> ('db, 't, 's, 'e) ApiState option" where
  "admin_drain hs late =
    (case late of
       None \<Rightarrow> (starting, late)
     | Some state \<Rightarrow>
         if \<not> permits (api_token state) hs then (unauthorised, late)
         else case refuse_unauthenticated_mutation state of
           Some refusal \<Rightarrow> (refusal, late)
         | None \<Rightarrow>
             (Answer 202 (AdminText (line ''draining'')), Some (state\<lparr>api_readiness := begin_drain (api_readiness state)\<rparr>)))"

section \<open>Authentication is exact\<close>

lemma or_xor_zero: "a OR (x XOR y) = 0 \<longleftrightarrow> a = 0 \<and> x = (y :: u8)"
proof -
  have "x XOR y = 0 \<longleftrightarrow> x = y" by (metis xor.right_neutral xor_self_eq xor.assoc)
  moreover have "a OR b = 0 \<longleftrightarrow> a = 0 \<and> b = 0" for a b :: u8
    by (auto simp: bit_eq_iff bit_or_iff)
  ultimately show ?thesis by simp
qed

lemma constant_time_eq_iff: "constant_time_eq a b \<longleftrightarrow> a = b"
proof -
  have "length a = length b \<Longrightarrow> foldl (\<lambda>diff (x, y). diff OR (x XOR y)) d (zip a b) = 0 \<longleftrightarrow> d = 0 \<and> a = b" for d
    by (induction a b arbitrary: d rule: list_induct2) (auto simp: or_xor_zero)
  then show ?thesis by (auto simp: constant_time_eq_def)
qed

lemma permits_iff:
  "permits (Some token) hs \<longleftrightarrow> (\<exists>value. hget hs ''authorization'' = Some value \<and> list_all visible_ascii value \<and> value = ''Bearer '' @ token)"
proof (cases "hget hs ''authorization''")
  case (Some v)
  have sp: "strip_prefix v ''Bearer '' = Some p \<longleftrightarrow> v = ''Bearer '' @ p" for p
    by (auto simp: strip_prefix_def starts_with_iff)
  show ?thesis
  proof (cases "strip_prefix v ''Bearer ''")
    case None
    then have "v \<noteq> ''Bearer '' @ token" using sp [of token] by simp
    then show ?thesis using Some None by (auto simp: permits_def to_str_def)
  next
    case (Some p)
    then have v: "v = ''Bearer '' @ p" using sp by blast
    show ?thesis
      using \<open>hget hs ''authorization'' = Some v\<close> Some
      by (cases "list_all visible_ascii v") (auto simp: permits_def to_str_def constant_time_eq_iff v)
  qed
qed (simp add: permits_def)

section \<open>Purging\<close>

text \<open>Reads and removals of the database succeed.\<close>

definition index_works :: "('db, 't) ObjectIndex \<Rightarrow> bool" where
  "index_works ix \<longleftrightarrow>
    (\<forall>y i. ix_ops y = ix_ops ix \<longrightarrow> index_inv y \<longrightarrow> (\<exists>x. index_get y i = Ok x) \<and> (\<exists>z. index_remove y i = Ok z))"

lemma index_remove_ops: "index_remove ix i = Ok ix' \<Longrightarrow> ix_ops ix' = ix_ops ix"
  by (auto simp: index_remove_def rbind_Ok)

lemma index_works_step:
  assumes "index_works ix" "index_inv ix"
  obtains ix' where "index_get ix i = Ok (index_map ix i)" "index_remove ix i = Ok ix'" "index_inv ix'"
    "index_map ix' = (index_map ix)(i := None)" "index_works ix'"
proof -
  obtain x ix' where x: "index_get ix i = Ok x" and r: "index_remove ix i = Ok ix'"
    using assms(1) [unfolded index_works_def, THEN spec, THEN spec [of _ i], THEN mp, OF refl, THEN mp, OF assms(2)] by blast
  have "x = index_map ix i" by (rule idx.get_law [OF assms(2) x])
  moreover have "index_works ix'" using assms(1) index_remove_ops [OF r] by (simp add: index_works_def)
  ultimately show thesis using that x r idx.remove_law [OF assms(2) r] by blast
qed

lemma map_le_restrict_trans:
  assumes "a \<subseteq>\<^sub>m b |` (- K)" "b \<subseteq>\<^sub>m c |` (- L)"
  shows "a \<subseteq>\<^sub>m c |` (- (L \<union> K))"
  unfolding map_le_def
proof
  fix x assume x: "x \<in> dom a"
  have "a x = (b |` (- K)) x" using assms(1) x by (simp add: map_le_def)
  then have b: "x \<notin> K" "a x = b x" using x by (auto simp: restrict_map_def split: if_splits)
  then have "x \<in> dom b" using x by (simp add: dom_def)
  then have "b x = (c |` (- L)) x" using assms(2) by (simp add: map_le_def)
  then show "a x = (c |` (- (L \<union> K))) x" using b x by (auto simp: restrict_map_def split: if_splits)
qed

lemma map_le_restrict_None:
  assumes "a \<subseteq>\<^sub>m b |` (- K)" "k \<in> K"
  shows "a k = None"
proof (rule ccontr)
  assume "a k \<noteq> None"
  then have "k \<in> dom a" by (simp add: domIff)
  then have "a k = (b |` (- K)) k" using assms(1) by (simp add: map_le_def)
  with assms(2) \<open>a k \<noteq> None\<close> show False by (simp add: restrict_map_def)
qed

lemma purge_objects_exact:
  assumes "store_inv st" "index_inv ix" "index_works ix" "0 < sz" "distinct ids"
  shows "\<exists>st' ix' n'. purge_objects sz ids (st, ix, n) = Some (st', ix', n') \<and> store_inv st' \<and> index_inv ix'
    \<and> index_map ix' = index_map ix |` (- set ids)
    \<and> store_view st' \<subseteq>\<^sub>m store_view st |` (- (\<Union>i \<in> set ids. case index_map ix i of Some m \<Rightarrow> set (purge_keys sz i m) | None \<Rightarrow> {}))"
  using assms(1-3,5)
proof (induction ids arbitrary: st ix n)
  case Nil
  then show ?case by (simp add: map_le_def restrict_map_def)
next
  case (Cons i ids)
  obtain ix1 where ix1: "index_get ix i = Ok (index_map ix i)" "index_remove ix i = Ok ix1" "index_inv ix1"
      "index_map ix1 = (index_map ix)(i := None)" "index_works ix1"
    using index_works_step [OF Cons.prems(3,2)] .
  define ks where "ks = (case index_map ix i of Some m \<Rightarrow> purge_keys sz i m | None \<Rightarrow> [])"
  define st1 where "st1 = foldl store_remove st ks"
  have st1: "store_inv st1" "store_view st1 \<subseteq>\<^sub>m store_view st |` (- set ks)"
    using purge.remove_all [OF Cons.prems(1), of ks] by (simp_all add: st1_def)
  have step: "\<exists>n1. purge_objects sz (i # ids) (st, ix, n) = purge_objects sz ids (st1, ix1, n1)"
    using ix1 assms(4) by (cases "index_map ix i") (auto simp: st1_def ks_def)
  then obtain n1 where n1: "purge_objects sz (i # ids) (st, ix, n) = purge_objects sz ids (st1, ix1, n1)" by blast
  have "distinct ids" using Cons.prems(4) by simp
  from Cons.IH [OF st1(1) ix1(3,5) this, of n1] obtain st' ix' n' where
    r: "purge_objects sz ids (st1, ix1, n1) = Some (st', ix', n')" "store_inv st'" "index_inv ix'"
      "index_map ix' = index_map ix1 |` (- set ids)"
      "store_view st' \<subseteq>\<^sub>m store_view st1 |` (- (\<Union>j \<in> set ids. case index_map ix1 j of Some m \<Rightarrow> set (purge_keys sz j m) | None \<Rightarrow> {}))"
    by blast
  have same: "index_map ix1 j = index_map ix j" if "j \<in> set ids" for j using that ix1(4) Cons.prems(4) by auto
  have "(\<Union>j \<in> set (i # ids). case index_map ix j of Some m \<Rightarrow> set (purge_keys sz j m) | None \<Rightarrow> {})
      = set ks \<union> (\<Union>j \<in> set ids. case index_map ix1 j of Some m \<Rightarrow> set (purge_keys sz j m) | None \<Rightarrow> {})"
    using same by (auto simp: ks_def split: option.splits)
  moreover have "store_view st' \<subseteq>\<^sub>m store_view st |` (- (set ks \<union> (\<Union>j \<in> set ids. case index_map ix1 j of Some m \<Rightarrow> set (purge_keys sz j m) | None \<Rightarrow> {})))"
    by (rule map_le_restrict_trans [OF r(5) st1(2)])
  moreover have "index_map ix' = index_map ix |` (- set (i # ids))"
    using r(4) ix1(4) by (auto simp: restrict_map_def)
  ultimately show ?case using n1 r(1-3) by auto
qed

section \<open>Properties\<close>




lemma alist_index_works: "ix_ops ix = alist_redb \<Longrightarrow> index_works ix"
  unfolding index_works_def
proof (intro allI impI conjI)
  fix y :: "((ObjectId \<times> bytes) list, (ObjectId \<times> bytes) list) ObjectIndex" and i
  assume a: "ix_ops ix = alist_redb" "ix_ops y = ix_ops ix" "index_inv y"
  have "\<exists>m. valid_meta m \<and> bs = ObjectMeta_encode m" if "map_of (ix_db y) i = Some bs" for bs
    using a that by (auto simp: index_inv_def alist_redb_def)
  then show "\<exists>x. index_get y i = Ok x"
    using a(1,2) by (cases "map_of (ix_db y) i") (auto simp: index_get_def alist_redb_def)
  show "\<exists>z. index_remove y i = Ok z" using a(1,2) by (simp add: index_remove_def alist_redb_def)
qed

definition sample_state ::
  "((ObjectId \<times> bytes) list, (ObjectId \<times> bytes) list, (SliceKey \<times> SliceValue) list, unit) ApiState" where
  "sample_state =
    \<lparr>api_store = \<lparr>ss_ops = alist_foyer, ss_state = [(SliceKey_new [1] 0 1, SliceValue_new (header_for sample_meta 4) [4, 5, 6, 7])]\<rparr>,
     api_index = sample_index, api_drain = Drain_new, api_readiness = Readiness_new, api_token = None, api_services = [],
     api_data_dir = [], api_configured_disk_bytes = 0, api_min_free_bytes = 0, api_slice_size = 4, api_mutations_need_token = False\<rparr>"


text \<open>
  A purge forgets the generation of an object. The slices it removes are those of the current generation; the entry that is removed with them held that
  generation, so after a restart the object starts again in generation zero, whose slices of an
  earlier version the purge has left in the store.
\<close>

theorem purge_forgets_generation:
  assumes "index_inv ix" "index_map ix i = Some m" "om_generation m \<noteq> 0"
    and "purge_objects sz [i] (st, ix, 0) = Some (st', ix', n)" "index_remove ix i = Ok ix'"
    and "or_index orch = ix'" "or_metadata orch i = None" "index_get ix' i = Ok entry"
    and "metadata ev key i url hs k orch w = (Ok (meta, probed), orch', w')"
  shows "om_generation meta = 0 \<and> (\<forall>j. SliceKey_new i (om_generation meta) j \<notin> set (purge_keys sz i m))"
proof -
  have "index_inv ix'" "index_map ix' i = None" using idx.remove_law [OF assms(1,5)] by auto
  then have "index_get ix' i = Ok None" using idx.get_law [of ix' i entry] assms(8) by simp
  then have "om_generation meta = 0"
    using assms(6,7,9)
    by (auto simp: metadata_def cell_def probe_def Let_def probed_meta_def split: sum.splits prod.splits)
  then show ?thesis using assms(3) by (auto simp: purge_keys_def SliceKey_new_def)
qed

theorem purge_forgets_generation_witness:
  "\<exists>meta probed orch' w'. metadata sample_env \<lparr>ck_key = ''/depot/1'', ck_service = ''steam''\<rparr> [1] ''u'' [] 0
       (changed_orch\<lparr>or_index := \<lparr>ix_ops = alist_redb, ix_db = []\<rparr>\<rparr>) () = (Ok (meta, probed), orch', w')
     \<and> om_generation meta = 0"
proof -
  let ?m = "sample_meta\<lparr>om_generation := 1\<rparr>"
  let ?ix = "\<lparr>ix_ops = alist_redb, ix_db = [([1], ObjectMeta_encode ?m)]\<rparr>"
  let ?ix' = "\<lparr>ix_ops = alist_redb, ix_db = [] :: (ObjectId \<times> bytes) list\<rparr>"
  let ?st = "\<lparr>ss_ops = alist_foyer, ss_state = []\<rparr> :: ((SliceKey \<times> SliceValue) list, unit) SliceStore"
  let ?orch = "changed_orch\<lparr>or_index := ?ix'\<rparr>"
  have v: "valid_meta ?m" using valid_sample_meta by (simp add: valid_meta_def)
  have inv: "index_inv ?ix" using v alist_redb_ok by (auto simp: index_inv_def) (auto simp: alist_redb_def split: if_splits)
  have map: "index_map ?ix [1] = Some ?m" using v by (simp add: index_map_def) (simp add: alist_redb_def)
  have get: "index_get ?ix [1] = Ok (Some ?m)" "index_get ?ix' i = Ok None" for i
    using v by (simp_all add: index_get_def alist_redb_def)
  have rem: "index_remove ?ix [1] = Ok ?ix'" by (simp add: index_remove_def alist_redb_def)
  have pg: "purge_objects 4 [[1]] (?st, ?ix, 0) = Some (foldl store_remove ?st (purge_keys 4 [1] ?m), ?ix', 0 + slice_count 4 ?m)"
    by (simp add: get rem)
  obtain meta probed orch' w' where m:
    "metadata sample_env \<lparr>ck_key = ''/depot/1'', ck_service = ''steam''\<rparr> [1] ''u'' [] 0 ?orch () = (Ok (meta, probed), orch', w')"
    by (simp add: metadata_def get cell_def probe_def changed_orch_def changed_shape Let_def)
  have "om_generation meta = 0"
    using purge_forgets_generation [OF inv map _ pg rem, of ?orch None] get(2) m by (simp add: changed_orch_def)
  then show ?thesis using m by blast
qed

end
