(* ===== verification/Telemetry_Sampler.thy ===== *)
theory Telemetry_Sampler
  imports Store_Hybrid Store_Index Proxy_Shutdown
begin

text \<open>
  \<open>telemetry/sampler.rs\<close>: the periodic sampling of levels into gauges. A gauge is a 64-bit number, a labelled one a map from its
  label; the permits of the upstream client are functions, as in the source.
\<close>

record gauges =
  ga_requests_in_flight :: u64
  ga_inflight :: u64
  ga_checksum_failures :: u64
  ga_draining :: u64
  ga_index_objects :: u64
  ga_index_bytes :: u64
  ga_disk_total_bytes :: u64
  ga_disk_available_bytes :: u64
  ga_store_capacity_bytes :: u64
  ga_disk_guard_engaged :: u64
  ga_upstream_limit_service :: "string \<rightharpoonup> u64"
  ga_upstream_inflight_service :: "string \<rightharpoonup> u64"

record ('db, 't) Inputs =
  inp_index :: "('db, 't) ObjectIndex"
  inp_drain :: Drain
  inp_data_dir :: string
  inp_configured_disk_bytes :: u64
  inp_min_free_bytes :: u64
  inp_per_service_limits :: "(string \<times> nat) list"
  inp_service_permits :: "string \<Rightarrow> nat option"
  inp_upstream_capacity :: nat
  inp_upstream_available :: nat

definition sample_disk :: "(string \<Rightarrow> string + Statvfs) \<Rightarrow> ('db, 't) Inputs \<Rightarrow> u64 \<Rightarrow> gauges \<Rightarrow> gauges" where
  "sample_disk statvfs i indexed_bytes g =
    (case space_read statvfs (inp_data_dir i) of
       Inl _ \<Rightarrow> g
     | Inr disk \<Rightarrow>
         let effective = effective_cap (inp_configured_disk_bytes i) (inp_min_free_bytes i) indexed_bytes disk
         in g\<lparr>ga_disk_total_bytes := ds_total disk, ga_disk_available_bytes := ds_available disk,
              ga_store_capacity_bytes := effective,
              ga_disk_guard_engaged := (if is_engaged (inp_configured_disk_bytes i) effective then 1 else 0)\<rparr>)"

definition sample_service :: "('db, 't) Inputs \<Rightarrow> gauges \<Rightarrow> string \<times> nat \<Rightarrow> gauges" where
  "sample_service i g entry =
    (case entry of (service, limit) \<Rightarrow>
       let g = g\<lparr>ga_upstream_limit_service := (ga_upstream_limit_service g)(service \<mapsto> of_nat limit)\<rparr>
       in case inp_service_permits i service of
            Some available \<Rightarrow>
              g\<lparr>ga_upstream_inflight_service := (ga_upstream_inflight_service g)(service \<mapsto> of_nat (limit - available))\<rparr>
          | None \<Rightarrow> g)"

text \<open>\<open>failures\<close> is the process-wide count of checksum failures.\<close>

definition sample_levels :: "u64 \<Rightarrow> ('db, 't) Inputs \<Rightarrow> u64 \<Rightarrow> gauges \<Rightarrow> gauges" where
  "sample_levels failures i indexed_bytes g =
    (let g = g\<lparr>ga_requests_in_flight := dr_inflight (inp_drain i),
               ga_inflight := of_nat (inp_upstream_capacity i - inp_upstream_available i)\<rparr>;
         already = ga_checksum_failures g;
         g = (if already < failures then g\<lparr>ga_checksum_failures := already + (failures - already)\<rparr> else g)
     in g\<lparr>ga_draining := (if dr_draining (inp_drain i) then 1 else 0),
          ga_index_objects := of_nat (case index_len (inp_index i) of Inr n \<Rightarrow> n | Inl _ \<Rightarrow> 0),
          ga_index_bytes := indexed_bytes\<rparr>)"

definition sample_gauges :: "(string \<Rightarrow> string + Statvfs) \<Rightarrow> u64 \<Rightarrow> ('db, 't) Inputs \<Rightarrow> gauges \<Rightarrow> gauges" where
  "sample_gauges statvfs failures i g =
    (let indexed_bytes = (case index_total_bytes (inp_index i) of Inr n \<Rightarrow> n | Inl _ \<Rightarrow> 0)
     in foldl (sample_service i) (sample_disk statvfs i indexed_bytes (sample_levels failures i indexed_bytes g))
          (inp_per_service_limits i))"

section \<open>Properties\<close>

lemma sample_service_gauges:
  assumes "distinct (map fst limits)"
  shows "ga_checksum_failures (foldl (sample_service i) g limits) = ga_checksum_failures g"
    and "(service, limit) \<in> set limits \<Longrightarrow>
      ga_upstream_limit_service (foldl (sample_service i) g limits) service = Some (of_nat limit)
      \<and> (\<forall>available. inp_service_permits i service = Some available \<longrightarrow>
           ga_upstream_inflight_service (foldl (sample_service i) g limits) service = Some (of_nat (limit - available)))"
proof -
  show "ga_checksum_failures (foldl (sample_service i) g limits) = ga_checksum_failures g"
    by (induction limits arbitrary: g) (auto simp: sample_service_def Let_def split: prod.splits option.splits)
  show "ga_upstream_limit_service (foldl (sample_service i) g limits) service = Some (of_nat limit)
      \<and> (\<forall>available. inp_service_permits i service = Some available \<longrightarrow>
           ga_upstream_inflight_service (foldl (sample_service i) g limits) service = Some (of_nat (limit - available)))"
    if "(service, limit) \<in> set limits"
    using that assms
  proof (induction limits arbitrary: g rule: rev_induct)
    case (snoc x xs)
    then show ?case
      by (cases x; cases "x = (service, limit)")
        (auto simp: sample_service_def Let_def image_iff split: option.splits)
  qed simp
qed

text \<open>
  A sample shows the state it was taken of: the count of checksum failures never falls and reaches the process-wide one,
  and for each service with a limit the limit and the fetches in flight are shown, never more in
  flight than the limit.
\<close>

theorem sample_shows_state:
  assumes "distinct (map fst (inp_per_service_limits i))"
  shows "ga_checksum_failures (sample_gauges statvfs failures i g) = max failures (ga_checksum_failures g)
    \<and> (\<forall>service limit available. (service, limit) \<in> set (inp_per_service_limits i) \<longrightarrow>
         inp_service_permits i service = Some available \<longrightarrow> limit < 2 ^ 64 \<longrightarrow>
         (\<exists>l n. ga_upstream_limit_service (sample_gauges statvfs failures i g) service = Some l
            \<and> ga_upstream_inflight_service (sample_gauges statvfs failures i g) service = Some n
            \<and> unat n = limit - available \<and> n \<le> l))"
proof -
  have disk: "ga_checksum_failures (sample_disk statvfs i b h) = ga_checksum_failures h" for b h
    by (simp add: sample_disk_def Let_def split: sum.splits)
  have levels: "ga_checksum_failures (sample_levels failures i b h) = max failures (ga_checksum_failures h)" for b h
    by (auto simp: sample_levels_def Let_def max_def not_le)
  have unat: "unat (of_nat x :: u64) = x" if "x < 2 ^ 64" for x
    using that by (simp add: unsigned_of_nat take_bit_eq_mod)
  obtain h where h: "sample_gauges statvfs failures i g = foldl (sample_service i) h (inp_per_service_limits i)"
    and c: "ga_checksum_failures h = max failures (ga_checksum_failures g)"
    using disk levels by (metis sample_gauges_def)
  have "\<exists>l n. ga_upstream_limit_service (sample_gauges statvfs failures i g) service = Some l
      \<and> ga_upstream_inflight_service (sample_gauges statvfs failures i g) service = Some n
      \<and> unat n = limit - available \<and> n \<le> l"
    if "(service, limit) \<in> set (inp_per_service_limits i)" "inp_service_permits i service = Some available" "limit < 2 ^ 64"
    for service limit available
    using sample_service_gauges(2) [OF assms that(1), of i h] that(2,3) unat [of limit] unat [of "limit - available"]
    by (intro exI [of _ "of_nat limit"] exI [of _ "of_nat (limit - available)"]) (simp add: h word_le_nat_alt)
  then show ?thesis using h c sample_service_gauges(1) [OF assms, of i h] by simp
qed

end
