(* ===== verification/Telemetry_Metrics.thy ===== *)
theory Telemetry_Metrics
  imports Proxy_Server
begin

text \<open>
  \<open>telemetry/metrics.rs\<close>: the metrics the cache registers, the series it publishes at zero, and the labels of what the
  server counts. Creating a collector and registering it are the metrics library: \<open>create\<close> checks the
  name and the labels, \<open>register\<close> adds to the registry or fails. The buckets of the histograms are
  floating point and are left out.
\<close>

section \<open>The collectors\<close>

datatype metric_kind = Counter | Histogram | Gauge

record metric_desc =
  md_name :: string
  md_kind :: metric_kind
  md_labels :: "string list"

definition CACHE_STATUSES :: "string list" where
  "CACHE_STATUSES = [''HIT'', ''MISS'', ''PARTIAL'', ''BYPASS'']"

abbreviation desc :: "metric_kind \<Rightarrow> string \<Rightarrow> string list \<Rightarrow> metric_desc" where
  "desc kind name labels \<equiv> \<lparr>md_name = name, md_kind = kind, md_labels = labels\<rparr>"

definition collectors :: "metric_desc list" where
  "collectors =
    [desc Counter ''cachic_requests_total'' [''cdn_service'', ''status''],
     desc Counter ''cachic_bytes_served_total'' [''cdn_service'', ''status''],
     desc Counter ''cachic_bytes_fetched_total'' [''cdn_service''],
     desc Histogram ''cachic_upstream_seconds'' [''cdn_service''],
     desc Gauge ''cachic_upstream_inflight'' [],
     desc Counter ''cachic_checksum_failures_total'' [''cdn_service''],
     desc Counter ''cachic_generation_bumps_total'' [''cdn_service''],
     desc Counter ''cachic_upstream_guard_refusals_total'' [''reason''],
     desc Gauge ''cachic_client_connections'' [],
     desc Histogram ''cachic_request_seconds'' [''cdn_service'', ''status''],
     desc Counter ''cachic_responses_total'' [''cdn_service'', ''code''],
     desc Counter ''cachic_upstream_errors_total'' [''cdn_service'', ''kind''],
     desc Counter ''cachic_stale_responses_total'' [''cdn_service''],
     desc Gauge ''cachic_upstream_inflight_service'' [''cdn_service''],
     desc Gauge ''cachic_upstream_limit_service'' [''cdn_service''],
     desc Gauge ''cachic_requests_in_flight'' [],
     desc Gauge ''cachic_draining'' [],
     desc Gauge ''cachic_store_capacity_bytes'' [],
     desc Gauge ''cachic_disk_available_bytes'' [],
     desc Gauge ''cachic_disk_total_bytes'' [],
     desc Gauge ''cachic_disk_guard_engaged'' [],
     desc Gauge ''cachic_index_objects'' [],
     desc Gauge ''cachic_index_bytes'' []]"

primrec create_all :: "(metric_desc \<Rightarrow> string option) \<Rightarrow> metric_desc list \<Rightarrow> string + unit" where
  "create_all create [] = Ok ()"
| "create_all create (d # ds) = (case create d of Some e \<Rightarrow> Err e | None \<Rightarrow> create_all create ds)"

primrec register_all :: "('r \<Rightarrow> metric_desc \<Rightarrow> string + 'r) \<Rightarrow> metric_desc list \<Rightarrow> 'r \<Rightarrow> string + 'r" where
  "register_all register [] r = Ok r"
| "register_all register (d # ds) r = rbind (register r d) (register_all register ds)"

definition Metrics_new ::
  "(metric_desc \<Rightarrow> string option) \<Rightarrow> ('r \<Rightarrow> metric_desc \<Rightarrow> string + 'r) \<Rightarrow> 'r \<Rightarrow> string + 'r" where
  "Metrics_new create register registry =
    rbind (create_all create collectors) (\<lambda>_. register_all register collectors registry)"

text \<open>The series of a counter vector: a value for each combination of labels it has been asked for.\<close>

type_synonym series = "string \<times> string list \<rightharpoonup> u64"

definition reset_series :: "string \<Rightarrow> string list \<Rightarrow> series \<Rightarrow> series" where
  "reset_series name labels s = s((name, labels) \<mapsto> 0)"

definition initialise_known_series :: "string list \<Rightarrow> series \<Rightarrow> series" where
  "initialise_known_series services s =
    (let s = foldl (\<lambda>s reason. reset_series ''cachic_upstream_guard_refusals_total'' [reason] s) s Refusal_ALL;
         s = reset_series ''cachic_checksum_failures_total'' [''-''] s
     in foldl (\<lambda>s service. foldl (\<lambda>s status. reset_series ''cachic_requests_total'' [service, status] s) s CACHE_STATUSES) s services)"

section \<open>Registration\<close>

text \<open>
  What the library documents: a collector is created when its name and labels are identifiers, and
  registered unless one of its name is in the registry.
\<close>

definition metric_identifier :: "string \<Rightarrow> bool" where
  "metric_identifier s \<longleftrightarrow> s \<noteq> [] \<and> \<not> is_digit (hd s)
     \<and> list_all (\<lambda>c. (97 \<le> code c \<and> code c \<le> 122) \<or> (65 \<le> code c \<and> code c \<le> 90) \<or> is_digit c \<or> c = CHR ''_'') s"

definition well_named :: "metric_desc \<Rightarrow> bool" where
  "well_named d \<longleftrightarrow> metric_identifier (md_name d) \<and> list_all metric_identifier (md_labels d) \<and> distinct (md_labels d)"

definition registry_ok :: "(metric_desc \<Rightarrow> string option) \<Rightarrow> ('r \<Rightarrow> metric_desc \<Rightarrow> string + 'r) \<Rightarrow> ('r \<Rightarrow> string set) \<Rightarrow> bool" where
  "registry_ok create register names \<longleftrightarrow>
    (\<forall>d. well_named d \<longrightarrow> create d = None)
    \<and> (\<forall>r d. md_name d \<notin> names r \<longrightarrow> (\<exists>r'. register r d = Ok r' \<and> names r' = insert (md_name d) (names r)))
    \<and> (\<forall>r d. md_name d \<in> names r \<longrightarrow> (\<exists>e. register r d = Err e))"

lemma create_all_ok: "(\<forall>d \<in> set ds. create d = None) \<Longrightarrow> create_all create ds = Ok ()"
  by (induction ds) auto

lemma register_all_ok:
  assumes "registry_ok create register names" "distinct (map md_name ds)" "set (map md_name ds) \<inter> names r = {}"
  shows "\<exists>r'. register_all register ds r = Ok r' \<and> names r' = names r \<union> set (map md_name ds)"
  using assms(2,3)
proof (induction ds arbitrary: r)
  case (Cons d ds)
  obtain r1 where r1: "register r d = Ok r1" "names r1 = insert (md_name d) (names r)"
    using assms(1) Cons.prems unfolding registry_ok_def by force
  then obtain r' where "register_all register ds r1 = Ok r' \<and> names r' = names r1 \<union> set (map md_name ds)"
    using Cons.IH [of r1] Cons.prems by auto
  then show ?case using r1 by auto
qed simp

lemma collectors_named: "list_all well_named collectors"
  by (simp add: collectors_def well_named_def metric_identifier_def is_digit_def)

lemma collectors_distinct: "distinct (map md_name collectors)"
  by code_simp

text \<open>
  The registry is complete. With a registry that has none of the names yet, creating the metrics succeeds and
  registers every one of them; done twice on one registry it fails.
\<close>

theorem metrics_registered:
  assumes "registry_ok create register names" "names registry = {}"
  shows "\<exists>r. Metrics_new create register registry = Ok r \<and> names r = set (map md_name collectors)
    \<and> (\<exists>e. Metrics_new create register r = Err e)"
proof -
  have c: "create_all create collectors = Ok ()"
    using collectors_named assms(1) by (intro create_all_ok) (auto simp: list_all_iff registry_ok_def)
  obtain r where r: "register_all register collectors registry = Ok r" "names r = set (map md_name collectors)"
    using register_all_ok [OF assms(1) collectors_distinct, of registry] assms(2) by auto
  obtain d ds where d: "collectors = d # ds" by (simp add: collectors_def)
  have "md_name d \<in> names r" unfolding r(2) d by simp
  then have "\<exists>e. register_all register collectors r = Err e"
    using assms(1) unfolding d registry_ok_def by fastforce
  then show ?thesis using c r by (auto simp: Metrics_new_def)
qed

definition list_register :: "string list \<Rightarrow> metric_desc \<Rightarrow> string + string list" where
  "list_register r d = (if md_name d \<in> set r then Err ''AlreadyReg'' else Ok (md_name d # r))"

theorem metrics_registered_witness:
  "\<exists>r. Metrics_new (\<lambda>d. if well_named d then None else Some ''Msg'') list_register [] = Ok r \<and> set r = set (map md_name collectors)"
proof -
  have "registry_ok (\<lambda>d. if well_named d then None else Some ''Msg'') list_register set"
    by (auto simp: registry_ok_def list_register_def)
  then show ?thesis using metrics_registered by fastforce
qed

section \<open>Labels\<close>

lemma status_listed: "CacheStatus_as_str s \<in> set CACHE_STATUSES"
  by (cases s) (simp_all add: CacheStatus_as_str_def CACHE_STATUSES_def)

lemma reason_listed: "Refusal_reason r \<in> set Refusal_ALL"
  by (cases r) (simp_all add: Refusal_reason_def Refusal_ALL_def)

text \<open>The header the access record takes the cache status from, and the one for the service.\<close>

definition labelled :: "LiveServices \<Rightarrow> headers \<Rightarrow> bool" where
  "labelled services hs \<longleftrightarrow>
    (\<forall>v. hget hs ''x-cache'' = Some v \<longrightarrow> v \<in> set CACHE_STATUSES)
    \<and> (\<forall>v. hget hs ''x-cachic-service'' = Some v \<longrightarrow> (\<exists>host. service_for (ls_matcher services) host = Some v))"

lemma serve_labelled:
  assumes "serve ev is_match req cfg w = (Served r spawned, cfg', w')"
  shows "labelled (srv_services cfg) (rs_headers r)"
proof -
  have plain: "labelled s (rs_headers (text_response st msg))" for s st msg
    by (simp add: labelled_def text_response_def hget_def)
  have build: "rs_headers r = hs" if "build_response st hs b sp = Served r sp'" for st hs b sp sp'
    using that by (auto simp: build_response_def split: if_splits)
  have plan: "labelled (srv_services cfg) (plan_headers hn service p)"
    if "service_for (ls_matcher (srv_services cfg)) host = Some service" for hn service p host
    using that status_listed by (auto simp: labelled_def plan_headers_def hget_def)
  have rp: "rs_headers r = plan_headers hn sv p"
    if "respond_plan ev hd hn sv url fw p orch = (Served r sp, orch')" for hd hn sv url fw p orch sp orch'
    using that by (auto simp: respond_plan_def Let_def dest!: build split: if_splits prod.splits sum.splits)
  have sc: "labelled (srv_services cfg) (rs_headers r)"
    if "serve_cached ev cfg req service rule target w = (Served r spawned, cfg', w')"
      and s: "service_for (ls_matcher (srv_services cfg)) (request_host req) = Some service" for service rule target
  proof -
    have "rs_headers r \<in> {plan_headers (srv_hostname cfg) service p |p. True}
        \<union> {[(''content-range'', x), (''x-lancache-processed-by'', srv_hostname cfg)] |x. True}"
      using that(1)
      by (auto simp: serve_cached_def Let_def dest!: build rp split: prod.splits sum.splits OrchestratorError.splits)
    then show ?thesis using plan [OF s] by (auto simp: labelled_def hget_def)
  qed
  have hb: "labelled (srv_services cfg) (snd (heartbeat_respond (200, []) hn))" for hn
    by (cases "header_value hn") (auto simp: labelled_def Let_def heartbeat_respond_def hget_def happend_def)
  show ?thesis
    using assms sc plain hb [of "srv_hostname cfg"]
    by (auto simp: serve_def Let_def dest!: build split: if_splits option.splits prod.splits)
qed

definition closed_labels :: "LiveServices \<Rightarrow> server_metric \<Rightarrow> bool" where
  "closed_labels services m \<longleftrightarrow>
    (case m of
       Requests service status \<Rightarrow> (service = ''-'' \<or> (\<exists>host. service_for (ls_matcher services) host = Some service)) \<and> status \<in> insert ''-'' (set CACHE_STATUSES)
     | BytesServed service status _ \<Rightarrow> (service = ''-'' \<or> (\<exists>host. service_for (ls_matcher services) host = Some service)) \<and> status \<in> insert ''-'' (set CACHE_STATUSES)
     | RequestSeconds service status _ \<Rightarrow> (service = ''-'' \<or> (\<exists>host. service_for (ls_matcher services) host = Some service)) \<and> status \<in> insert ''-'' (set CACHE_STATUSES)
     | Responses service st \<Rightarrow> (service = ''-'' \<or> (\<exists>host. service_for (ls_matcher services) host = Some service))
         \<and> st \<in> show_nat ` {200, 204, 206, 404, 405, 416, 501, 502}
     | _ \<Rightarrow> True)"

lemma access_event_labels:
  assumes "labelled services (rs_headers r)"
  shows "ae_service (access_event now el ip req r) = ''-'' \<or> (\<exists>host. service_for (ls_matcher services) host = Some (ae_service (access_event now el ip req r)))"
    and "ae_cache_status (access_event now el ip req r) \<in> insert ''-'' (set CACHE_STATUSES)"
  using assms
  by (auto simp: access_event_def header_text_def labelled_def to_str_def split: option.splits bind_splits if_splits)

lemma count_request_closed:
  assumes "labelled services (rs_headers r)" "rs_status r \<in> {200, 204, 206, 404, 405, 416, 501, 502}"
  shows "\<exists>added. count_request (access_event now el ip req r) (Some l) = Some (l @ added) \<and> list_all (closed_labels services) added"
proof -
  have "show_word (ae_status (access_event now el ip req r)) \<in> show_nat ` {200, 204, 206, 404, 405, 416, 501, 502}"
    using assms(2) by (auto simp: access_event_def)
  then show ?thesis
    using access_event_labels [OF assms(1), of now el ip req] by (simp add: count_request_def closed_labels_def)
qed

lemma reset_one: "reset_series name labels s k = (if k = (name, labels) then Some 0 else s k)"
  by (simp add: reset_series_def)

lemma reset_all:
  "foldl (\<lambda>s x. reset_series name (f x) s) s xs k = (if k \<in> (\<lambda>x. (name, f x)) ` set xs then Some 0 else s k)"
  by (induction xs arbitrary: s) (auto simp: reset_series_def)

lemma initialise_exact:
  "initialise_known_series services s k =
    (if k \<in> (\<lambda>x. (''cachic_upstream_guard_refusals_total'', [x])) ` set Refusal_ALL
        \<union> {(''cachic_checksum_failures_total'', [''-''])}
        \<union> (\<lambda>(x, y). (''cachic_requests_total'', [x, y])) ` (set services \<times> set CACHE_STATUSES)
     then Some 0 else s k)"
proof -
  have r: "foldl (\<lambda>s service. foldl (\<lambda>s status. reset_series ''cachic_requests_total'' [service, status] s) s CACHE_STATUSES) t services k
      = (if k \<in> (\<lambda>(x, y). (''cachic_requests_total'', [x, y])) ` (set services \<times> set CACHE_STATUSES) then Some 0 else t k)" for t
    by (induction services arbitrary: t) (auto simp: reset_all)
  show ?thesis
    unfolding initialise_known_series_def Let_def r reset_one reset_all by (simp only: Un_iff singleton_iff split: if_split) blast
qed

text \<open>
  Labels are bounded by construction. Whatever a client sends, handling its request counts only series whose service is one
  the domain list matches or a dash, whose cache status is one of the four or a dash and whose code is
  one the server answers with; nothing of the request becomes a label. At start-up exactly the
  series of the known services, statuses and refusal reasons are published at zero, and every reason of
  a refusal is among them.
\<close>

theorem metric_labels_closed:
  assumes "handle ev is_match elapsed ip req cfg w = (out, cfg', w')" "srv_metrics cfg = Some l"
  shows "(\<exists>added. srv_metrics cfg' = Some (l @ added) \<and> list_all (closed_labels (srv_services cfg)) added)
    \<and> dom (initialise_known_series services Map.empty)
        = (\<lambda>x. (''cachic_upstream_guard_refusals_total'', [x])) ` set Refusal_ALL
          \<union> {(''cachic_checksum_failures_total'', [''-''])}
          \<union> (\<lambda>(x, y). (''cachic_requests_total'', [x, y])) ` (set services \<times> set CACHE_STATUSES)
    \<and> initialise_known_series services Map.empty (''cachic_upstream_guard_refusals_total'', [Refusal_reason refusal]) = Some 0"
proof (intro conjI)
  show "dom (initialise_known_series services Map.empty)
        = (\<lambda>x. (''cachic_upstream_guard_refusals_total'', [x])) ` set Refusal_ALL
          \<union> {(''cachic_checksum_failures_total'', [''-''])}
          \<union> (\<lambda>(x, y). (''cachic_requests_total'', [x, y])) ` (set services \<times> set CACHE_STATUSES)"
    unfolding dom_def initialise_exact by (simp only: split: if_split) blast
  show "initialise_known_series services Map.empty (''cachic_upstream_guard_refusals_total'', [Refusal_reason refusal]) = Some 0"
    unfolding initialise_exact using reason_listed [of refusal] by (simp only: Un_iff image_eqI if_True simp_thms)
  show "\<exists>added. srv_metrics cfg' = Some (l @ added) \<and> list_all (closed_labels (srv_services cfg)) added"
  proof (cases "drain_enter (srv_drain cfg)")
    case None
    then show ?thesis using assms by (simp add: handle_def)
  next
    case (Some d)
    obtain so cfg1 w1 where sv: "serve ev is_match req (cfg\<lparr>srv_drain := d\<rparr>) w = (so, cfg1, w1)" by (metis prod_cases3)
    have keep: "srv_metrics cfg1 = Some l" using serve_keeps [OF sv] assms(2) by (metis ServerConfig.select_convs(3) ServerConfig.surjective ServerConfig.update_convs(1,11))
    show ?thesis
    proof (cases so)
      case (Served r spawned)
      have "labelled (srv_services cfg) (rs_headers r)" using serve_labelled [OF sv [unfolded Served]] by simp
      moreover have "rs_status r \<in> {200, 204, 206, 404, 405, 416, 501, 502}" using serve_status [OF sv [unfolded Served]] by auto
      ultimately obtain added where "count_request (access_event (ev_now_secs ev) elapsed ip req r) (Some l) = Some (l @ added)"
        "list_all (closed_labels (srv_services cfg)) added"
        using count_request_closed by blast
      then show ?thesis using assms Some Served sv keep by (auto simp: handle_def Let_def)
    next
      case (Failed e)
      let ?r = "text_response 502 (''upstream error'' @ [CHR 0x0A])"
      have "labelled (srv_services cfg) (rs_headers ?r)" "rs_status ?r \<in> {200, 204, 206, 404, 405, 416, 501, 502}"
        by (simp_all add: text_response_def labelled_def hget_def)
      then obtain added where "count_request (access_event (ev_now_secs ev) elapsed ip req ?r) (Some l) = Some (l @ added)"
        "list_all (closed_labels (srv_services cfg)) added"
        using count_request_closed by blast
      then show ?thesis using assms Some Failed sv keep by (auto simp: handle_def Let_def)
    next
      case Panicked
      then show ?thesis using assms Some sv keep by (auto simp: handle_def Let_def)
    qed
  qed
qed

theorem metric_labels_closed_witness:
  "\<exists>added. srv_metrics (fst (snd (handle sample_env (\<lambda>_ _. False) 0 ''10.0.0.7''
      \<lparr>in_method = ''GET'', in_path = ''/x'', in_target = None, in_headers = []\<rparr> (sample_server\<lparr>srv_metrics := Some []\<rparr>) ()))) = Some added
     \<and> list_all (closed_labels (srv_services sample_server)) added"
proof -
  let ?cfg = "sample_server\<lparr>srv_metrics := Some []\<rparr>"
  let ?req = "\<lparr>in_method = ''GET'', in_path = ''/x'', in_target = None, in_headers = []\<rparr>"
  obtain out cfg' w' where h: "handle sample_env (\<lambda>_ _. False) 0 ''10.0.0.7'' ?req ?cfg () = (out, cfg', w')" by (metis prod_cases3)
  have "\<exists>added. srv_metrics cfg' = Some ([] @ added) \<and> list_all (closed_labels (srv_services ?cfg)) added"
    by (rule conjunct1 [OF metric_labels_closed [OF h]]) simp
  then show ?thesis unfolding h by simp
qed

end
