(* ===== verification/Upstream_Served.thy ===== *)
theory Upstream_Served
  imports Upstream_Client Proxy_Body
begin

text \<open>
  The client of \<open>upstream/client.rs\<close> as the upstream of \<open>orchestrator/mod.rs\<close>. Between two fetches of a client whose
  permits are free nothing of it has changed but the counters of its resolver, so these and the network
  are the world the orchestrator passes on. What an origin promises over HTTP then becomes the promise
  the correctness of slices and bodies rests on.
\<close>

section \<open>The client as an upstream\<close>

definition client_upstream ::
  "(string \<Rightarrow> ParsedUrl option) \<Rightarrow> 'w UpstreamClient \<Rightarrow> (UpstreamResolver \<times> 'w) upstream" where
  "client_upstream url_parse c =
    \<lparr>us_range = (\<lambda>service url hs start finish (r, w).
       case the (fetch_range url_parse service url hs start finish (c\<lparr>uc_resolver := r\<rparr>) w) of
         (result, c', w') \<Rightarrow> (result, uc_resolver c', w')),
     us_stream = (\<lambda>service url hs (r, w).
       case the (fetch_stream url_parse service url hs (c\<lparr>uc_resolver := r\<rparr>) w) of
         (result, c', w') \<Rightarrow> (result, uc_resolver c', w'))\<rparr>"

definition permits_free :: "'w UpstreamClient \<Rightarrow> bool" where
  "permits_free c \<longleftrightarrow> 0 < uc_inflight c \<and> (\<forall>service n. uc_per_service c service = Some n \<longrightarrow> 0 < n)"

lemma permits_free_resolver [simp]: "permits_free (c\<lparr>uc_resolver := r\<rparr>) = permits_free c"
  by (simp add: permits_free_def)

lemma service_permit_free:
  assumes "permits_free c"
  obtains taken c1 where "service_permit service c = Some (taken, c1)" "0 < uc_inflight c1"
    "uc_http c1 = uc_http c" "uc_config c1 = uc_config c" "drop_service_permit taken service c1 = c"
  using assms
  by (cases "uc_per_service c service")
    (auto simp: permits_free_def service_permit_def drop_service_permit_def fun_upd_idem)

lemma check_url_resolver: "\<exists>checked r. check_url url_parse url c = (checked, c\<lparr>uc_resolver := r\<rparr>)"
proof -
  have "snd (check_url url_parse url c) = c\<lparr>uc_resolver := uc_resolver (snd (check_url url_parse url c))\<rparr>"
    by (simp add: check_url_def check_host_def Let_def split: option.split prod.split)
  then show ?thesis by (metis prod.collapse)
qed

text \<open>A client with free permits always returns, changed only in its resolver, with an answer of the network.\<close>

lemma fetch_range_free:
  assumes "permits_free c"
  obtains result r w' where "fetch_range url_parse service url hs start finish (c\<lparr>uc_resolver := q\<rparr>) w = Some (result, c\<lparr>uc_resolver := r\<rparr>, w')"
    and "\<And>x. result = Ok x \<Longrightarrow> \<exists>v v' response. uc_http c (range_request url hs start finish) v = (Ok response, v')
           \<and> accept_range (cc_max_body_bytes (uc_config c)) url start finish response = Ok x"
proof -
  obtain checked r where k: "check_url url_parse url (c\<lparr>uc_resolver := q\<rparr>) = (checked, c\<lparr>uc_resolver := r\<rparr>)"
    using check_url_resolver [of url_parse url "c\<lparr>uc_resolver := q\<rparr>"] by auto
  show ?thesis
  proof (cases checked)
    case (Inl e)
    then show ?thesis using k that [of "Err e" r w] by (simp add: fetch_range_def)
  next
    case (Inr u)
    obtain taken c1 where p: "service_permit service (c\<lparr>uc_resolver := r\<rparr>) = Some (taken, c1)" "0 < uc_inflight c1"
      by (rule service_permit_free [of "c\<lparr>uc_resolver := r\<rparr>" service]) (use assms in auto)
    obtain c2 where g: "global_permit c1 = Some c2" using p(2) by (simp add: global_permit_def)
    note restored = permits_restored [OF p(1) g]
    obtain result w' where f: "fetch_attempts c2 url hs start finish 0 w = (result, w')" by fastforce
    have "\<exists>v v' response. uc_http c (range_request url hs start finish) v = (Ok response, v')
        \<and> accept_range (cc_max_body_bytes (uc_config c)) url start finish response = Ok x" if "result = Ok x" for x
      using fetch_attempts_sends [of 0 c2 url hs start finish w] f that restored by (fastforce simp: prod_eq_iff)
    then show ?thesis
      using that [of result r w'] k Inr p(1) g f restored(1) by (simp add: fetch_range_def)
  qed
qed

lemma fetch_stream_free:
  assumes "permits_free c"
  obtains result r w' where "fetch_stream url_parse service url hs (c\<lparr>uc_resolver := q\<rparr>) w = Some (result, c\<lparr>uc_resolver := r\<rparr>, w')"
    and "\<And>x. result = Ok x \<Longrightarrow> \<exists>v v' response. uc_http c \<lparr>rq_url = url, rq_headers = hs\<rparr> v = (Ok response, v')
           \<and> accept_stream url response = Ok x"
proof -
  obtain checked r where k: "check_url url_parse url (c\<lparr>uc_resolver := q\<rparr>) = (checked, c\<lparr>uc_resolver := r\<rparr>)"
    using check_url_resolver [of url_parse url "c\<lparr>uc_resolver := q\<rparr>"] by auto
  show ?thesis
  proof (cases checked)
    case (Inl e)
    then show ?thesis using k that [of "Err e" r w] by (simp add: fetch_stream_def)
  next
    case (Inr u)
    obtain taken c1 where p: "service_permit service (c\<lparr>uc_resolver := r\<rparr>) = Some (taken, c1)" "uc_http c1 = uc_http c"
      "drop_service_permit taken service c1 = c\<lparr>uc_resolver := r\<rparr>"
      by (rule service_permit_free [of "c\<lparr>uc_resolver := r\<rparr>" service]) (use assms in auto)
    obtain answer w' where h: "uc_http c \<lparr>rq_url = url, rq_headers = hs\<rparr> w = (answer, w')" by fastforce
    show ?thesis
    proof (cases answer)
      case (Inl e)
      then show ?thesis using that [of "Err (RequestFailed url e)" r w'] k Inr p h by (simp add: fetch_stream_def)
    next
      case response: (Inr response)
      then show ?thesis using that [of "accept_stream url response" r w'] k Inr p h by (auto simp: fetch_stream_def)
    qed
  qed
qed

section \<open>What an origin promises over HTTP\<close>

definition http_validators :: "HttpResponse \<Rightarrow> Validators" where
  "http_validators response =
    response_validators \<lparr>up_status = hr_status response, up_headers = hr_headers response, up_body = []\<rparr>"

definition http_serves :: "'w http \<Rightarrow> string \<Rightarrow> u8 list \<Rightarrow> Validators \<Rightarrow> bool" where
  "http_serves http url data vals \<longleftrightarrow>
    (\<forall>hs a b w response w'. no_range hs \<longrightarrow> http (range_request url hs a b) w = (Ok response, w') \<longrightarrow>
       hr_status response = 206 \<longrightarrow> validators_match vals (http_validators response) \<longrightarrow>
       prefix (ok_prefix (hr_chunks response)) (drop (unat a) data))
    \<and> (\<forall>hs w response w'. no_range hs \<longrightarrow> http \<lparr>rq_url = url, rq_headers = hs\<rparr> w = (Ok response, w') \<longrightarrow>
       is_success (hr_status response) \<longrightarrow> prefix (ok_prefix (hr_chunks response)) data)"

lemma response_validators_headers:
  "up_headers a = up_headers b \<Longrightarrow> response_validators a = response_validators b"
  by (simp add: response_validators_def response_header_def)

lemma client_origin:
  assumes c: "permits_free c" and h: "http_serves (uc_http c) url data vals"
  shows "origin_serves (client_upstream url_parse c) url data vals"
  unfolding origin_serves_def
proof (intro conjI allI impI)
  fix service hs a b w r w'
  assume n: "no_range hs" and u: "us_range (client_upstream url_parse c) service url hs a b w = (Ok r, w')"
    and m: "validators_match vals (response_validators r)"
  obtain rs w0 where w: "w = (rs, w0)" by fastforce
  obtain result rs' w1 where "fetch_range url_parse service url hs a b (c\<lparr>uc_resolver := rs\<rparr>) w0 = Some (result, c\<lparr>uc_resolver := rs'\<rparr>, w1)"
    and res: "\<And>x. result = Ok x \<Longrightarrow> \<exists>v v' response. uc_http c (range_request url hs a b) v = (Ok response, v')
           \<and> accept_range (cc_max_body_bytes (uc_config c)) url a b response = Ok x"
    by (rule fetch_range_free [OF c, of url_parse service url hs a b rs w0]) blast
  then have "result = Ok r" using u by (simp add: client_upstream_def w)
  then obtain v v' response where s: "uc_http c (range_request url hs a b) v = (Ok response, v')"
    and x: "accept_range (cc_max_body_bytes (uc_config c)) url a b response = Ok r"
    using res by blast
  note e = accept_range_Ok [OF x]
  show "prefix (up_body r) (drop (unat a) data)"
  proof (cases "up_status r = 206")
    case True
    have "http_validators response = response_validators r"
      using e unfolding http_validators_def by (intro response_validators_headers) simp
    then have "prefix (ok_prefix (hr_chunks response)) (drop (unat a) data)"
      using h n s m True e unfolding http_serves_def by metis
    then show ?thesis using e True by auto
  next
    case False
    then show ?thesis using e by simp
  qed
next
  fix service hs w hd cs w'
  assume n: "no_range hs" and u: "us_stream (client_upstream url_parse c) service url hs w = (Ok (hd, cs), w')"
  obtain rs w0 where w: "w = (rs, w0)" by fastforce
  obtain result rs' w1 where "fetch_stream url_parse service url hs (c\<lparr>uc_resolver := rs\<rparr>) w0 = Some (result, c\<lparr>uc_resolver := rs'\<rparr>, w1)"
    and res: "\<And>x. result = Ok x \<Longrightarrow> \<exists>v v' response. uc_http c \<lparr>rq_url = url, rq_headers = hs\<rparr> v = (Ok response, v')
           \<and> accept_stream url response = Ok x"
    by (rule fetch_stream_free [OF c, of url_parse service url hs rs w0]) blast
  then have "result = Ok (hd, cs)" using u by (simp add: client_upstream_def w)
  then obtain v v' response where s: "uc_http c \<lparr>rq_url = url, rq_headers = hs\<rparr> v = (Ok response, v')"
    and x: "accept_stream url response = Ok (hd, cs)"
    using res by blast
  then have "is_success (hr_status response)" "hr_chunks response = cs"
    by (auto simp: accept_stream_def Let_def split: if_splits)
  then show "prefix (ok_prefix cs) data" using h n s unfolding http_serves_def by metis
qed

text \<open>
  C13: the client implements the upstream the orchestrator is built on. While no permit is held elsewhere, each of its
  fetches returns, with every permit given back, and gives the orchestrator its result; and if the
  origin answers matching ranges and whole requests with bytes of one version of an object, the client
  hands on bytes of that version only.
\<close>

theorem client_implements_upstream:
  assumes "permits_free c"
  shows "(\<exists>result r' w'. fetch_range url_parse service url hs a b (c\<lparr>uc_resolver := r\<rparr>) w = Some (result, c\<lparr>uc_resolver := r'\<rparr>, w')
        \<and> us_range (client_upstream url_parse c) service url hs a b (r, w) = (result, (r', w')))
    \<and> (\<exists>result r' w'. fetch_stream url_parse service url hs (c\<lparr>uc_resolver := r\<rparr>) w = Some (result, c\<lparr>uc_resolver := r'\<rparr>, w')
        \<and> us_stream (client_upstream url_parse c) service url hs (r, w) = (result, (r', w')))
    \<and> (http_serves (uc_http c) url data vals \<longrightarrow> origin_serves (client_upstream url_parse c) url data vals)"
proof (intro conjI impI)
  obtain result r' w' where "fetch_range url_parse service url hs a b (c\<lparr>uc_resolver := r\<rparr>) w = Some (result, c\<lparr>uc_resolver := r'\<rparr>, w')"
    by (rule fetch_range_free [OF assms, of url_parse service url hs a b r w])
  then show "\<exists>result r' w'. fetch_range url_parse service url hs a b (c\<lparr>uc_resolver := r\<rparr>) w = Some (result, c\<lparr>uc_resolver := r'\<rparr>, w')
        \<and> us_range (client_upstream url_parse c) service url hs a b (r, w) = (result, (r', w'))"
    by (simp add: client_upstream_def)
  obtain result r' w' where "fetch_stream url_parse service url hs (c\<lparr>uc_resolver := r\<rparr>) w = Some (result, c\<lparr>uc_resolver := r'\<rparr>, w')"
    by (rule fetch_stream_free [OF assms, of url_parse service url hs r w])
  then show "\<exists>result r' w'. fetch_stream url_parse service url hs (c\<lparr>uc_resolver := r\<rparr>) w = Some (result, c\<lparr>uc_resolver := r'\<rparr>, w')
        \<and> us_stream (client_upstream url_parse c) service url hs (r, w) = (result, (r', w'))"
    by (simp add: client_upstream_def)
  show "origin_serves (client_upstream url_parse c) url data vals" if "http_serves (uc_http c) url data vals"
    by (rule client_origin [OF assms that])
qed

theorem client_implements_upstream_witness:
  "us_range (client_upstream sample_url_parse sample_client) ''steam'' ''u'' [] 0 2 (sample_resolver, 0)
     = (Ok \<lparr>up_status = 206, up_headers = [], up_body = [1, 2, 3]\<rparr>, (sample_resolver, 2))"
proof -
  have f: "permits_free sample_client" by (simp add: permits_free_def sample_client_def)
  have same: "sample_client\<lparr>uc_resolver := sample_resolver\<rparr> = sample_client" by (simp add: sample_client_def)
  show ?thesis
    using client_implements_upstream [OF f, of sample_url_parse "''steam''" "''u''" "[]" 0 2 sample_resolver 0] sample_fetch
    unfolding same by (auto simp: sample_client_def)
qed

end
