(* ===== verification/Main_Run.thy ===== *)
theory Main_Run
  imports Upstream_Served Sni_Proxy Admin_Api Telemetry_Sampler Telemetry_Metrics
begin

text \<open>
  \<open>main.rs\<close>: start-up as one function of the configuration and of what the machine answers (files, sockets, the cache
  engine, the database, the libraries). It returns what happened in order, each event with the
  readiness at that moment, and the running system or the fatal error. Error texts are kept as the
  errors they show; logging is left out. The system's shared parts are the values they start with.
\<close>

section \<open>Data\<close>

definition EXIT_CONFIG :: u8 where "EXIT_CONFIG = 78"
definition EXIT_UNAVAILABLE :: u8 where "EXIT_UNAVAILABLE = 69"
definition MAX_CLIENT_CONNECTIONS :: u64 where "MAX_CLIENT_CONNECTIONS = 10000"
definition DRAIN_TIMEOUT :: nat where "DRAIN_TIMEOUT = 20"

datatype cause =
    PrepareFailed ConfigError
  | MetricsFailed string
  | AdminBind SocketAddr string
  | StoreOpen StoreError
  | IndexOpen IndexError
  | DomainsDir string load_error
  | DomainsBundled DomainsError
  | ResolverFailed ResolveError
  | ClientFailed UpstreamError
  | RuleFailed CompileError
  | HttpBind SocketAddr string
  | RefreshClient string
  | HttpsBind SocketAddr string

datatype Fatal = FatalConfig cause | FatalUnavailable cause

record ('db, 't, 's, 'w, 'r) platform =
  pf_guard_file :: read_result
  pf_guard_dir :: "string + unit"
  pf_guard_write :: "string + unit"
  pf_toml :: "string \<Rightarrow> string + Rules"
  pf_read_file :: "string \<Rightarrow> string + string"
  pf_metric_create :: "metric_desc \<Rightarrow> string option"
  pf_metric_register :: "'r \<Rightarrow> metric_desc \<Rightarrow> string + 'r"
  pf_registry :: 'r
  pf_bind :: "SocketAddr \<Rightarrow> string + unit"
  pf_foyer :: "('s, (UpstreamResolver \<times> 'w) fetch_env) foyer"
  pf_foyer_build :: "EngineConfig \<Rightarrow> string + 's"
  pf_create_dir_all :: "string \<Rightarrow> string + unit"
  pf_redb :: "('db, 't) redb"
  pf_redb_create :: "string \<Rightarrow> IndexError + 'db"
  pf_domains_json :: "string \<Rightarrow> string + RawService list"
  pf_domains_index :: "string \<Rightarrow> string + string"
  pf_domains_entries :: "string \<Rightarrow> string + (string + (string \<times> (string + string))) list"
  pf_include_str :: "string \<Rightarrow> string"
  pf_dns_build :: "ResolverConfig \<Rightarrow> string + lookup"
  pf_http_build :: "HttpBuilder \<Rightarrow> TransportError + 'w http"
  pf_url_parse :: "string \<Rightarrow> ParsedUrl option"
  pf_compiles :: "string list \<Rightarrow> bool"
  pf_refresh_client :: "string + unit"
  pf_hostname_env :: "string option"
  pf_hostname_file :: "string option"

datatype startup_event =
    AdminListening | StoreOpened | SamplerStarted | HttpListening | RefreshSpawned | HttpsListening | MarkedReady | ApiPublished

type_synonym startup_log = "(startup_event \<times> Readiness) list"

record ('db, 't, 's, 'w) running_system =
  sy_readiness :: Readiness
  sy_server :: "('db, 't, 's, UpstreamResolver \<times> 'w) ServerConfig"
  sy_client :: "'w UpstreamClient"
  sy_series :: series
  sy_sampler :: "('db, 't) Inputs"
  sy_refresh_source :: RefreshSource
  sy_sni_resolver :: UpstreamResolver
  sy_sni_port :: u16
  sy_sni_passthrough :: bool
  sy_sni_stats :: SniStats
  sy_api :: "('db, 't, 's, (UpstreamResolver \<times> 'w) fetch_env) ApiState option"

section \<open>Start-up\<close>

definition path_join :: "string \<Rightarrow> string \<Rightarrow> string" where
  "path_join dir name = (if dir = [] \<or> last dir = CHR ''/'' then dir @ name else dir @ ''/'' @ name)"

definition is_loopback :: "IpAddr \<Rightarrow> bool" where
  "is_loopback ip = (case ip of IpV4 a \<Rightarrow> v4_is_loopback a | IpV6 a \<Rightarrow> v6_is_loopback a)"

definition hostname :: "string option \<Rightarrow> string option \<Rightarrow> string" where
  "hostname env_name etc_hostname =
    (case (case env_name of Some h \<Rightarrow> if h \<noteq> [] then Some h else None | None \<Rightarrow> None) of
       Some h \<Rightarrow> h
     | None \<Rightarrow>
         (case map_option trim etc_hostname of
            Some h \<Rightarrow> if h \<noteq> [] then h else ''cachic''
          | None \<Rightarrow> ''cachic''))"

definition domain_list_of ::
  "('db, 't, 's, 'w, 'r) platform \<Rightarrow> Config \<Rightarrow> Fatal + DomainList" where
  "domain_list_of pf c =
    (case cf_cache_domains_dir c of
       Some dir \<Rightarrow>
         map_err (\<lambda>e. FatalConfig (DomainsDir dir e))
           (load_dir (pf_domains_json pf) (pf_domains_index pf dir) (pf_domains_entries pf dir))
     | None \<Rightarrow> map_err (\<lambda>e. FatalUnavailable (DomainsBundled e)) (bundled (pf_domains_json pf) (pf_include_str pf)))"

definition per_service_inflight :: "Rules \<Rightarrow> (string \<times> nat) list" where
  "per_service_inflight rules =
    List.map_filter (\<lambda>(service, rule). map_option (Pair service) (sr_max_inflight rule)) (ru_services rules)"

primrec compile_rules ::
  "(string list \<Rightarrow> bool) \<Rightarrow> Rules \<Rightarrow> string list \<Rightarrow> (string \<rightharpoonup> CompiledRule) \<Rightarrow> CompileError + (string \<rightharpoonup> CompiledRule)" where
  "compile_rules compiles rules [] compiled = Ok compiled"
| "compile_rules compiles rules (name # names) compiled =
    rbind (CompiledRule_compile compiles name (for_service rules name)) (\<lambda>r.
      compile_rules compiles rules names (compiled(name \<mapsto> r)))"

definition service_infos :: "DomainList \<Rightarrow> ServiceInfo list" where
  "service_infos list = map (\<lambda>s. \<lparr>si_name = sv_name s, si_patterns = length (sv_patterns s)\<rparr>) (dl_services list)"

text \<open>A fallible step: its error ends the start-up with what has happened so far.\<close>

definition try_start :: "startup_log \<Rightarrow> Fatal + 'a \<Rightarrow> ('a \<Rightarrow> startup_log \<times> (Fatal + 'b)) \<Rightarrow> startup_log \<times> (Fatal + 'b)" where
  "try_start log r k = (case r of Inl f \<Rightarrow> (log, Err f) | Inr x \<Rightarrow> k x)"

text \<open>The end of the start: binding both listeners, the refresh of the domain list, and publishing the admin API.\<close>

definition bind_listeners ::
  "('db, 't, 's, 'w, 'r) platform \<Rightarrow> Config \<Rightarrow> startup_log \<Rightarrow> Readiness \<Rightarrow>
   ('s, (UpstreamResolver \<times> 'w) fetch_env) SliceStore \<Rightarrow> ('db, 't) ObjectIndex \<Rightarrow> DomainList \<Rightarrow> UpstreamResolver \<Rightarrow>
   'w UpstreamClient \<Rightarrow> ('db, 't, 's, UpstreamResolver \<times> 'w) ServerConfig \<Rightarrow> series \<Rightarrow> ('db, 't) Inputs \<Rightarrow>
   startup_log \<times> (Fatal + ('db, 't, 's, 'w) running_system)" where
  "bind_listeners pf c log readiness store index list sni_resolver client server known sampler =
    (let http_addr = \<lparr>sa_ip = IpV4 (V4 0 0 0 0), sa_port = cf_http_port c\<rparr>
     in
     try_start log (map_err (\<lambda>e. FatalUnavailable (HttpBind http_addr e)) (pf_bind pf http_addr)) (\<lambda>_.
     let log = log @ [(HttpListening, readiness)];
         source = \<lparr>so_repo = cf_cache_domains_repo c, so_interval = cf_cache_domains_refresh c\<rparr>
     in
     try_start log (map_err (\<lambda>e. FatalUnavailable (RefreshClient e)) (pf_refresh_client pf)) (\<lambda>_.
     let log = log @ [(RefreshSpawned, readiness)];
         https_addr = \<lparr>sa_ip = IpV4 (V4 0 0 0 0), sa_port = cf_https_port c\<rparr>
     in
     try_start log (map_err (\<lambda>e. FatalUnavailable (HttpsBind https_addr e)) (pf_bind pf https_addr)) (\<lambda>_.
     let log = log @ [(HttpsListening, readiness)];
         readiness = set_listeners_bound True readiness;
         log = log @ [(MarkedReady, readiness)];
         api =
           \<lparr>api_store = store, api_index = index, api_drain = Drain_new, api_readiness = readiness,
            api_token = AuthToken_new (cf_admin_token c), api_services = service_infos list,
            api_data_dir = cf_cache_data_dir c, api_configured_disk_bytes = cf_cache_disk_size c,
            api_min_free_bytes = cf_min_free_disk c, api_slice_size = ucast (cf_cache_slice_size c),
            api_mutations_need_token = (\<not> is_loopback (cf_admin_bind c))\<rparr>
     in
     (log @ [(ApiPublished, readiness)],
      Ok \<lparr>sy_readiness = readiness, sy_server = server, sy_client = client, sy_series = known, sy_sampler = sampler,
          sy_refresh_source = source, sy_sni_resolver = sni_resolver, sy_sni_port = cf_https_port c,
          sy_sni_passthrough = cf_passthrough_unknown_hosts c, sy_sni_stats = SniStats_default,
          sy_api = Some api\<rparr>)))))"

text \<open>The second half, from the client to the server.\<close>

definition serve_system ::
  "('db, 't, 's, 'w, 'r) platform \<Rightarrow> Config \<Rightarrow> Rules \<Rightarrow> startup_log \<Rightarrow> Readiness \<Rightarrow>
   ('s, (UpstreamResolver \<times> 'w) fetch_env) SliceStore \<Rightarrow> ('db, 't) ObjectIndex \<Rightarrow> DomainList \<Rightarrow> UpstreamResolver \<Rightarrow>
   startup_log \<times> (Fatal + ('db, 't, 's, 'w) running_system)" where
  "serve_system pf c rules log readiness store index list sni_resolver =
    (let services = LiveServices_new list;
         limits = per_service_inflight rules;
         resolver = with_metrics sni_resolver;
         client_config = ClientConfig_default\<lparr>cc_max_inflight := cf_upstream_max_inflight c, cc_per_service_inflight := limits\<rparr>
     in
     try_start log (map_err (\<lambda>e. FatalUnavailable (ClientFailed e)) (UpstreamClient_new (pf_http_build pf) resolver client_config)) (\<lambda>client.
     let orchestrator =
           orch_with_metrics (with_stale_on_error (cf_stale_on_error c)
             (Orchestrator_new store index (client_upstream (pf_url_parse pf) client) (ucast (cf_cache_slice_size c)) (cf_readahead_slices c)));
         names = map sv_name (dl_services list)
     in
     try_start log (map_err (\<lambda>e. FatalConfig (RuleFailed e)) (compile_rules (pf_compiles pf) rules names Map.empty)) (\<lambda>compiled.
     let known = initialise_known_series names Map.empty;
         connections = with_per_peer MAX_CLIENT_CONNECTIONS (cf_max_connections_per_peer c);
         sampler =
           \<lparr>inp_index = index, inp_drain = Drain_new, inp_data_dir = cf_cache_data_dir c,
            inp_configured_disk_bytes = cf_cache_disk_size c, inp_min_free_bytes = cf_min_free_disk c,
            inp_per_service_limits = limits, inp_service_permits = service_permits client,
            inp_upstream_capacity = cf_upstream_max_inflight c, inp_upstream_available = available_permits client\<rparr>;
         log = log @ [(SamplerStarted, readiness)];
         server =
           \<lparr>srv_orchestrator = orchestrator, srv_log_format = cf_log_format c, srv_metrics = Some [], srv_services = services,
            srv_rules = rules, srv_compiled = compiled, srv_hostname = hostname (pf_hostname_env pf) (pf_hostname_file pf),
            srv_passthrough_unknown_hosts = cf_passthrough_unknown_hosts c,
            srv_allow_host_port = cf_allow_private_upstreams c, srv_connections = connections, srv_drain = Drain_new\<rparr>
     in
     bind_listeners pf c log readiness store index list sni_resolver client server known sampler)))"

definition startup ::
  "('db, 't, 's, 'w, 'r) platform \<Rightarrow> Config \<Rightarrow> startup_log \<times> (Fatal + ('db, 't, 's, 'w) running_system)" where
  "startup pf c =
    try_start [] (map_err (\<lambda>e. FatalConfig (PrepareFailed e))
        (snd (prepare (pf_guard_file pf) (pf_guard_dir pf) (pf_guard_write pf) (pf_toml pf) (pf_read_file pf) c))) (\<lambda>operator.
     let rules = merge operator in
     try_start [] (map_err (\<lambda>e. FatalUnavailable (MetricsFailed e))
        (Metrics_new (pf_metric_create pf) (pf_metric_register pf) (pf_registry pf))) (\<lambda>_.
     let readiness = Readiness_new;
         admin_addr = \<lparr>sa_ip = cf_admin_bind c, sa_port = cf_admin_port c\<rparr>
     in
     try_start [] (map_err (\<lambda>e. FatalUnavailable (AdminBind admin_addr e)) (pf_bind pf admin_addr)) (\<lambda>_.
     let log = [(AdminListening, readiness)] in
     try_start log (map_err (\<lambda>e. FatalUnavailable (StoreOpen e))
        (open_with_metrics (pf_foyer pf) (pf_foyer_build pf) (pf_create_dir_all pf)
           (path_join (cf_cache_data_dir c) ''slices'') (StoreConfig_from_config c) True)) (\<lambda>store.
     try_start log (map_err (\<lambda>e. FatalUnavailable (IndexOpen e))
        (index_open (pf_redb pf) (pf_redb_create pf) (path_join (cf_cache_data_dir c) ''index.redb''))) (\<lambda>index.
     let readiness = set_store_open True readiness;
         log = log @ [(StoreOpened, readiness)]
     in
     try_start log (domain_list_of pf c) (\<lambda>list.
     try_start log (map_err (\<lambda>e. FatalConfig (ResolverFailed e))
        (UpstreamResolver_new (pf_dns_build pf) (cf_upstream_dns c) (cf_allow_private_upstreams c))) (\<lambda>resolver.
     serve_system pf c rules log readiness store index list resolver)))))))"

definition main_exit :: "Fatal + 'a \<Rightarrow> u8" where
  "main_exit r =
    (case r of Inr _ \<Rightarrow> 0 | Inl (FatalConfig _) \<Rightarrow> EXIT_CONFIG | Inl (FatalUnavailable _) \<Rightarrow> EXIT_UNAVAILABLE)"

text \<open>The beginning of a shutdown: readiness fails first, then the drain refuses new work.\<close>

definition begin_shutdown :: "('db, 't, 's, 'w) running_system \<Rightarrow> ('db, 't, 's, 'w) running_system" where
  "begin_shutdown s =
    s\<lparr>sy_readiness := begin_drain (sy_readiness s),
      sy_server := (sy_server s)\<lparr>srv_drain := (srv_drain (sy_server s))\<lparr>dr_draining := True\<rparr>\<rparr>\<rparr>"

section \<open>Lemmas\<close>

lemma try_start_OkD: "try_start log r k = (log', Ok s) \<Longrightarrow> \<exists>x. r = Inr x \<and> k x = (log', Ok s)"
  by (cases r) (simp_all add: try_start_def)

lemma domain_list_errors:
  "domain_list_of pf c = Inl f \<Longrightarrow> (\<exists>dir e. f = FatalConfig (DomainsDir dir e)) \<or> (\<exists>e. f = FatalUnavailable (DomainsBundled e))"
  by (auto simp: domain_list_of_def map_err_def split: option.splits sum.splits)

lemma ready_iff [simp]:
  "\<not> is_ready Readiness_new" "\<not> is_ready (set_store_open True Readiness_new)"
  "is_ready (set_listeners_bound True (set_store_open True Readiness_new))"
  by (simp_all add: is_ready_def Readiness_new_def set_store_open_def set_listeners_bound_def)

lemma not_ready_draining [simp]: "\<not> is_ready (begin_drain r)"
  by (simp add: is_ready_def begin_drain_def)

text \<open>What a complete start looks like, and how far it has come when a step fails.\<close>

definition full_startup :: startup_log where
  "full_startup =
    (let starting = Readiness_new; opened = set_store_open True starting; ready = set_listeners_bound True opened in
     [(AdminListening, starting), (StoreOpened, opened), (SamplerStarted, opened), (HttpListening, opened),
      (RefreshSpawned, opened), (HttpsListening, opened), (MarkedReady, ready), (ApiPublished, ready)])"

primrec events_before :: "cause \<Rightarrow> nat" where
  "events_before (PrepareFailed _) = 0"
| "events_before (MetricsFailed _) = 0"
| "events_before (AdminBind _ _) = 0"
| "events_before (StoreOpen _) = 1"
| "events_before (IndexOpen _) = 1"
| "events_before (DomainsDir _ _) = 2"
| "events_before (DomainsBundled _) = 2"
| "events_before (ResolverFailed _) = 2"
| "events_before (ClientFailed _) = 2"
| "events_before (RuleFailed _) = 2"
| "events_before (HttpBind _ _) = 3"
| "events_before (RefreshClient _) = 4"
| "events_before (HttpsBind _ _) = 5"

definition operator_fault :: "cause \<Rightarrow> bool" where
  "operator_fault k =
    (case k of PrepareFailed _ \<Rightarrow> True | DomainsDir _ _ \<Rightarrow> True | ResolverFailed _ \<Rightarrow> True | RuleFailed _ \<Rightarrow> True | _ \<Rightarrow> False)"

definition stopped_at :: "startup_log \<Rightarrow> Fatal \<Rightarrow> bool" where
  "stopped_at log f =
    (case f of
       FatalConfig k \<Rightarrow> operator_fault k \<and> log = take (events_before k) full_startup
     | FatalUnavailable k \<Rightarrow> \<not> operator_fault k \<and> log = take (events_before k) full_startup)"

definition orderly :: "startup_log \<times> (Fatal + ('db, 't, 's, 'w) running_system) \<Rightarrow> bool" where
  "orderly out =
    (case snd out of
       Inr s \<Rightarrow> fst out = full_startup \<and> sy_readiness s = set_listeners_bound True (set_store_open True Readiness_new)
     | Inl f \<Rightarrow> stopped_at (fst out) f)"

lemmas orderly_defs = stopped_at_def operator_fault_def full_startup_def Let_def

lemma orderly_try:
  "(\<And>e. stopped_at log (g e)) \<Longrightarrow> (\<And>x. orderly (k x)) \<Longrightarrow> orderly (try_start log (map_err g r) k)"
  by (cases r) (simp_all add: try_start_def orderly_def)

lemma orderly_done:
  "log = full_startup \<Longrightarrow> sy_readiness s = set_listeners_bound True (set_store_open True Readiness_new) \<Longrightarrow> orderly (log, Ok s)"
  by (simp add: orderly_def)

lemma serve_orderly:
  assumes "opened = set_store_open True Readiness_new" "log = [(AdminListening, Readiness_new), (StoreOpened, opened)]"
  shows "orderly (serve_system pf c rules log opened store index list resolver)"
  unfolding serve_system_def bind_listeners_def assms Let_def
  by (intro orderly_try orderly_done) (simp_all add: orderly_defs)

lemma startup_orderly: "orderly (startup pf c)"
proof -
  let ?o = "set_store_open True Readiness_new"
  have d: "orderly (try_start [(AdminListening, Readiness_new), (StoreOpened, ?o)] (domain_list_of pf c) k)"
    if "\<And>x. orderly (k x)" for k :: "_ \<Rightarrow> startup_log \<times> (Fatal + ('a, 'b, 'c, 'd) running_system)"
    using that domain_list_errors [of pf c]
    by (cases "domain_list_of pf c") (auto simp: try_start_def orderly_def orderly_defs)
  show ?thesis
    unfolding startup_def Let_def append.simps
    by (intro orderly_try d serve_orderly) (simp_all add: orderly_defs)
qed

section \<open>The running system\<close>

lemma map_err_Inr: "map_err g r = Inr x \<longleftrightarrow> r = Inr x"
  by (cases r) simp_all

lemma compile_rules_dom:
  "compile_rules compiles rules names compiled = Ok compiled' \<Longrightarrow> dom compiled' = dom compiled \<union> set names"
proof (induction names arbitrary: compiled)
  case (Cons name names)
  then obtain r where r: "compile_rules compiles rules names (compiled(name \<mapsto> r)) = Ok compiled'" by (auto simp: rbind_Ok)
  show ?case unfolding Cons.IH [OF r] dom_fun_upd by auto
qed simp

lemma serve_Ok:
  assumes "serve_system pf c rules log opened store index list resolver = (log', Ok s)"
  shows "UpstreamClient_new (pf_http_build pf) (with_metrics resolver)
        (ClientConfig_default\<lparr>cc_max_inflight := cf_upstream_max_inflight c, cc_per_service_inflight := per_service_inflight rules\<rparr>)
      = Ok (sy_client s)"
    and "srv_orchestrator (sy_server s) = orch_with_metrics (with_stale_on_error (cf_stale_on_error c)
        (Orchestrator_new store index (client_upstream (pf_url_parse pf) (sy_client s)) (ucast (cf_cache_slice_size c)) (cf_readahead_slices c)))"
    and "compile_rules (pf_compiles pf) rules (map sv_name (dl_services list)) Map.empty = Ok (srv_compiled (sy_server s))"
    and "srv_services (sy_server s) = LiveServices_new list" and "srv_rules (sy_server s) = rules"
    and "srv_allow_host_port (sy_server s) = cf_allow_private_upstreams c" and "sy_sni_resolver s = resolver"
    and "\<exists>api. sy_api s = Some api \<and> api_store api = store \<and> api_index api = index
        \<and> api_slice_size api = ucast (cf_cache_slice_size c) \<and> api_token api = AuthToken_new (cf_admin_token c)
        \<and> api_mutations_need_token api = (\<not> is_loopback (cf_admin_bind c))"
    and "srv_connections (sy_server s) = with_per_peer MAX_CLIENT_CONNECTIONS (cf_max_connections_per_peer c)" and "srv_metrics (sy_server s) = Some []"
  using assms unfolding serve_system_def bind_listeners_def Let_def
  by (auto dest!: try_start_OkD simp: map_err_Inr)

lemma startup_Ok:
  assumes "startup pf c = (log, Ok s)"
  obtains operator store index list resolver where
    "snd (prepare (pf_guard_file pf) (pf_guard_dir pf) (pf_guard_write pf) (pf_toml pf) (pf_read_file pf) c) = Ok operator"
    and "open_with_metrics (pf_foyer pf) (pf_foyer_build pf) (pf_create_dir_all pf)
           (path_join (cf_cache_data_dir c) ''slices'') (StoreConfig_from_config c) True = Ok store"
    and "index_open (pf_redb pf) (pf_redb_create pf) (path_join (cf_cache_data_dir c) ''index.redb'') = Ok index"
    and "domain_list_of pf c = Ok list"
    and "UpstreamResolver_new (pf_dns_build pf) (cf_upstream_dns c) (cf_allow_private_upstreams c) = Ok resolver"
    and "serve_system pf c (merge operator) [(AdminListening, Readiness_new), (StoreOpened, set_store_open True Readiness_new)]
           (set_store_open True Readiness_new) store index list resolver = (log, Ok s)"
  using assms unfolding startup_def Let_def append.simps
  by (blast dest!: try_start_OkD map_err_Inr [THEN iffD1])

lemma started_server:
  assumes "startup pf c = (log, Ok s)"
  shows "srv_connections (sy_server s) = with_per_peer MAX_CLIENT_CONNECTIONS (cf_max_connections_per_peer c)" "srv_metrics (sy_server s) = Some []"
  by (rule startup_Ok [OF assms], erule serve_Ok)+

lemma new_client_permits: "UpstreamClient_new build r config = Ok c \<Longrightarrow> cc_max_inflight config \<noteq> 0 \<Longrightarrow> permits_free c"
  by (auto simp: permits_free_def UpstreamClient_new_def rbind_Ok less_max_iff_disj dest!: map_of_SomeD)

text \<open>What the parts of a running system have of the configuration and of each other.\<close>

lemma started_config:
  assumes "startup pf c = (log, Ok s)"
  shows "validate c = Ok ()" "unat (or_slice_size (srv_orchestrator (sy_server s))) = unat (cf_cache_slice_size c)"
    "or_upstream (srv_orchestrator (sy_server s)) = client_upstream (pf_url_parse pf) (sy_client s)" "permits_free (sy_client s)"
proof -
  obtain operator store index list resolver where p: "snd (prepare (pf_guard_file pf) (pf_guard_dir pf) (pf_guard_write pf) (pf_toml pf) (pf_read_file pf) c) = Ok operator"
    and sv: "serve_system pf c (merge operator) [(AdminListening, Readiness_new), (StoreOpened, set_store_open True Readiness_new)]
           (set_store_open True Readiness_new) store index list resolver = (log, Ok s)"
    by (rule startup_Ok [OF assms])
  show v: "validate c = Ok ()" using p by (auto simp: prepare_def split: sum.splits)
  obtain k where "k \<le> 31" "unat (cf_cache_slice_size c) = 2 ^ k"
    using v is_power_of_two_range [of "cf_cache_slice_size c"] unfolding validate_Ok by (auto simp: MIN_SLICE_SIZE_def)
  moreover from this have "unat (cf_cache_slice_size c) < 2 ^ 32"
    using power_increasing [of k 31 "2 :: nat"] by simp
  ultimately have "unat (ucast (cf_cache_slice_size c) :: u32) = unat (cf_cache_slice_size c)"
    by (simp add: unsigned_ucast_eq take_bit_nat_eq_self)
  then show "unat (or_slice_size (srv_orchestrator (sy_server s))) = unat (cf_cache_slice_size c)"
    by (simp add: serve_Ok(2) [OF sv] orch_with_metrics_def with_stale_on_error_def Orchestrator_new_def)
  show "or_upstream (srv_orchestrator (sy_server s)) = client_upstream (pf_url_parse pf) (sy_client s)"
    by (simp add: serve_Ok(2) [OF sv] orch_with_metrics_def with_stale_on_error_def Orchestrator_new_def)
  have "cf_upstream_max_inflight c \<noteq> 0" using v by (simp add: validate_Ok)
  then show "permits_free (sy_client s)"
    using new_client_permits [OF serve_Ok(1) [OF sv]] by simp
qed

section \<open>Properties\<close>

primrec fatal_cause :: "Fatal \<Rightarrow> cause" where
  "fatal_cause (FatalConfig k) = k"
| "fatal_cause (FatalUnavailable k) = k"

text \<open>
  C20: a start is all or nothing, in one order. When it succeeds the events are those of a complete start, ready only once
  the store is open and both listeners are bound, the exit status is 0, and a shutdown first fails
  readiness and then refuses new work. When it fails the events are exactly those before the failing
  step, none of them ready, and the exit status is 78 for a fault of the operator and 69 for anything else.
\<close>

theorem startup_in_order:
  fixes pf :: "('db, 't, 's, 'w, 'r) platform" and c :: Config
  defines "out \<equiv> startup pf c"
  shows "case snd out of
      Inr s \<Rightarrow> fst out = full_startup \<and> map (is_ready \<circ> snd) full_startup = replicate 6 False @ [True, True]
        \<and> main_exit (snd out) = 0 \<and> is_ready (sy_readiness s)
        \<and> \<not> is_ready (sy_readiness (begin_shutdown s)) \<and> drain_enter (srv_drain (sy_server (begin_shutdown s))) = None
    | Inl f \<Rightarrow> fst out = take (events_before (fatal_cause f)) full_startup \<and> (\<nexists>e. e \<in> set (fst out) \<and> is_ready (snd e))
        \<and> main_exit (snd out) = (if operator_fault (fatal_cause f) then 78 else 69)"
proof (cases "snd out")
  case (Inr s)
  then have "fst out = full_startup" "is_ready (sy_readiness s)"
    using startup_orderly [of pf c] by (simp_all add: out_def orderly_def)
  then show ?thesis
    using Inr by (simp add: main_exit_def begin_shutdown_def drain_enter_def full_startup_def numeral_eq_Suc Let_def)
next
  case (Inl f)
  then have f: "stopped_at (fst out) f" using startup_orderly [of pf c] by (simp add: out_def orderly_def)
  have "events_before (fatal_cause f) \<le> 5" by (cases "fatal_cause f") simp_all
  then have "set (take (events_before (fatal_cause f)) full_startup) \<subseteq> set (take 5 full_startup)" by (rule set_take_subset_set_take)
  then have "\<not> is_ready (snd e)" if "e \<in> set (take (events_before (fatal_cause f)) full_startup)" for e
    using that by (auto simp: full_startup_def Let_def)
  then show ?thesis
    using f Inl by (cases f) (auto simp: stopped_at_def main_exit_def EXIT_CONFIG_def EXIT_UNAVAILABLE_def)
qed

text \<open>
  C25: a running system is wired from its configuration. The configuration has been validated; proxy and admin API use one
  store, one index and one slice size, the configured one without loss; every permit of the client is
  free; the proxy's and the pass-through's resolver block private addresses unless the configuration
  allows them; each service of the loaded list has its compiled rule; and purges off loopback need a token.
\<close>

theorem system_is_wired:
  assumes "startup pf c = (log, Ok s)"
  defines "orch \<equiv> srv_orchestrator (sy_server s)"
  shows "validate c = Ok () \<and> permits_free (sy_client s) \<and> unat (or_slice_size orch) = unat (cf_cache_slice_size c)
    \<and> (\<exists>api. sy_api s = Some api \<and> api_store api = or_store orch \<and> api_index api = or_index orch \<and> api_slice_size api = or_slice_size orch
          \<and> (api_mutations_need_token api \<longleftrightarrow> \<not> is_loopback (cf_admin_bind c)))
    \<and> ur_allow_private (uc_resolver (sy_client s)) = cf_allow_private_upstreams c
    \<and> ur_allow_private (sy_sni_resolver s) = cf_allow_private_upstreams c
    \<and> dom (srv_compiled (sy_server s)) = sv_name ` set (dl_services (ls_list (srv_services (sy_server s))))"
proof -
  obtain operator store index list resolver where
    r: "UpstreamResolver_new (pf_dns_build pf) (cf_upstream_dns c) (cf_allow_private_upstreams c) = Ok resolver"
    and sv: "serve_system pf c (merge operator) [(AdminListening, Readiness_new), (StoreOpened, set_store_open True Readiness_new)]
           (set_store_open True Readiness_new) store index list resolver = (log, Ok s)"
    by (rule startup_Ok [OF assms(1)])
  note w = serve_Ok [OF sv]
  have o: "or_store orch = store" "or_index orch = index" "or_slice_size orch = ucast (cf_cache_slice_size c)"
    by (simp_all add: orch_def w(2) orch_with_metrics_def with_stale_on_error_def Orchestrator_new_def)
  have "ur_allow_private resolver = cf_allow_private_upstreams c"
    using r by (auto simp: UpstreamResolver_new_def with_servers_def rbind_Ok split: if_splits)
  moreover have "uc_resolver (sy_client s) = with_metrics resolver"
    using w(1) by (auto simp: UpstreamClient_new_def rbind_Ok dest!: sym [of _ "sy_client s"])
  ultimately show ?thesis
    using started_config [OF assms(1)] compile_rules_dom [OF w(3)] w(7,8) o
    by (auto simp: orch_def w(4) LiveServices_new_def with_metrics_def)
qed

text \<open>
  C2: what a running system sends is what the origin holds. Of an object that does not change while it is served and has a
  strong validator or none, planned on the running system's client and slice size over a store that holds
  no wrong slice of it, a client receives a prefix of the bytes it asked for, whatever other clients do
  meanwhile; and all of them, as many as declared, when the stream ends without an error.
\<close>

theorem running_system_serves:
  assumes "startup pf c = (log, Ok s)"
    and "or_upstream orch0 = or_upstream (srv_orchestrator (sy_server s))"
    and "or_slice_size orch0 = or_slice_size (srv_orchestrator (sy_server s))"
    and "hs = forwarded_request_headers client"
    and "plan_request ev key url hs raw orch0 w0 = (Ok p, orch, w)"
    and "0 < pl_total_len p" and "length data = unat (pl_total_len p)"
    and "length data \<le> 2 ^ 32 * unat (cf_cache_slice_size c)"
    and "http_serves (uc_http (sy_client s)) url data (meta_validators (pl_meta p))" and "\<not> weak (meta_validators (pl_meta p))"
    and "store_right (pl_object p) (om_generation (pl_meta p)) (or_slice_size orch0) data (or_store orch0)"
    and "(task_step ev p url hs)\<^sup>*\<^sup>* \<lparr>tk_orch = orch, tk_world = w, tk_frames = Map.empty\<rparr> t"
  shows "prefix (ok_prefix (stream_frames (tk_frames t) (orch_indices orch p))) (range_bytes (pl_wanted p) data)
    \<and> (length (stream_frames (tk_frames t) (orch_indices orch p)) = length (orch_indices orch p) \<longrightarrow>
       first_error (stream_frames (tk_frames t) (orch_indices orch p)) = None \<longrightarrow>
         ok_prefix (stream_frames (tk_frames t) (orch_indices orch p)) = range_bytes (pl_wanted p) data
         \<and> length (range_bytes (pl_wanted p) data) = unat (body_len_of p))"
proof -
  note st = started_config [OF assms(1)]
  have o: "origin_serves (or_upstream orch0) url data (meta_validators (pl_meta p))"
    using client_origin [OF st(4) assms(9)] by (simp add: assms(2) st(3))
  have n: "no_range hs" by (simp add: assms(4) forwarded_no_range)
  note k = plan_right [OF assms(5) o n assms(10,11)]
  show ?thesis
    by (rule stream_exact [OF assms(4-7) _ _ _ assms(12)]) (use k o assms(3,8) st(2) in simp_all)
qed

text \<open>
  Refusals of the pass-through are not counted. Its resolver has no metrics, and has none after resolving
  any host, while the proxy's starts counting at zero.
\<close>

theorem sni_refusals_uncounted:
  assumes "startup pf c = (log, Ok s)"
  shows "ur_metrics (fst (resolve_host (sy_sni_resolver s) host port)) = None
    \<and> ur_metrics (uc_resolver (sy_client s)) = Some (\<lambda>_. 0)"
proof -
  obtain operator store index list resolver where
    r: "UpstreamResolver_new (pf_dns_build pf) (cf_upstream_dns c) (cf_allow_private_upstreams c) = Ok resolver"
    and sv: "serve_system pf c (merge operator) [(AdminListening, Readiness_new), (StoreOpened, set_store_open True Readiness_new)]
           (set_store_open True Readiness_new) store index list resolver = (log, Ok s)"
    by (rule startup_Ok [OF assms])
  note w = serve_Ok [OF sv]
  have "ur_metrics resolver = None"
    using r by (auto simp: UpstreamResolver_new_def with_servers_def rbind_Ok split: if_splits)
  moreover have "uc_resolver (sy_client s) = with_metrics resolver"
    using w(1) by (auto simp: UpstreamClient_new_def rbind_Ok dest!: sym [of _ "sy_client s"])
  ultimately show ?thesis
    by (auto simp: w(7) with_metrics_def resolve_host_def count_refusal_def Let_def split: option.split sum.split prod.split)
qed

section \<open>A start\<close>

text \<open>A machine on which everything succeeds. It restarts with one object in its index, ten bytes of an origin that
  ignores ranges.\<close>

definition whole_meta :: ObjectMeta where
  "whole_meta = sample_meta\<lparr>om_no_ranges := True\<rparr>"

definition whole_http :: "unit http" where
  "whole_http rq w = (Ok \<lparr>hr_status = 200, hr_headers = [], hr_content_length = None, hr_chunks = [Ok sample_data]\<rparr>, w)"

definition sample_platform ::
  "((ObjectId \<times> bytes) list, (ObjectId \<times> bytes) list, (SliceKey \<times> SliceValue) list, unit, nat) platform" where
  "sample_platform =
    \<lparr>pf_guard_file = NotFound, pf_guard_dir = Ok (), pf_guard_write = Ok (), pf_toml = (\<lambda>_. Err []), pf_read_file = (\<lambda>_. Err []),
     pf_metric_create = (\<lambda>_. None), pf_metric_register = (\<lambda>r _. Ok r), pf_registry = 0, pf_bind = (\<lambda>_. Ok ()),
     pf_foyer = alist_foyer, pf_foyer_build = (\<lambda>_. Ok []), pf_create_dir_all = (\<lambda>_. Ok ()), pf_redb = alist_redb,
     pf_redb_create = (\<lambda>_. Ok [([1], ObjectMeta_encode whole_meta)]),
     pf_domains_json = (\<lambda>_. Ok [\<lparr>raw_name = ''steam'', raw_description = [], raw_domain_files = [''steam.txt'']\<rparr>]),
     pf_domains_index = (\<lambda>_. Ok []), pf_domains_entries = (\<lambda>_. Ok [Ok (''steam.txt'', Ok ''steam.com'')]),
     pf_include_str = (\<lambda>_. []), pf_dns_build = (\<lambda>_. Ok (ur_inner sample_resolver)), pf_http_build = (\<lambda>_. Ok whole_http),
     pf_url_parse = sample_url_parse, pf_compiles = (\<lambda>_. True), pf_refresh_client = Ok (),
     pf_hostname_env = None, pf_hostname_file = None\<rparr>"

definition sample_settings :: Config where
  "sample_settings =
    \<lparr>cf_cache_disk_size = 65536, cf_cache_mem_size = 65536, cf_cache_max_age = 0, cf_cache_slice_size = 4096,
     cf_cache_direct_io = False, cf_cache_flushers = 1, cf_cache_buffer_pool = 65536, cf_cache_data_dir = ''/data'',
     cf_min_free_disk = 0, cf_force_config = False, cf_http_port = 80, cf_https_port = 443, cf_admin_port = 9090,
     cf_max_connections_per_peer = 100, cf_admin_bind = IpV4 (V4 127 0 0 1), cf_upstream_dns = [IpV4 (V4 8 8 8 8)],
     cf_upstream_max_inflight = 4, cf_stale_on_error = True, cf_readahead_slices = 1, cf_allow_private_upstreams = False,
     cf_passthrough_unknown_hosts = False, cf_cache_domains_repo = [], cf_cache_domains_refresh = 0,
     cf_cache_domains_dir = Some ''/domains'', cf_rules_file = None, cf_log_format = Json, cf_log_level = [], cf_admin_token = []\<rparr>"

lemma sample_validates: "validate sample_settings = Ok ()"
proof -
  have "is_power_of_two (4096 :: u64)" by (auto simp: is_power_of_two_iff intro!: exI [of _ 12])
  then show ?thesis by (simp add: validate_Ok sample_settings_def MIN_SLICE_SIZE_def saturating_mul_def)
qed

lemma sample_prepared:
  "snd (prepare NotFound (Ok ()) (Ok ()) (\<lambda>_. Err []) (\<lambda>_. Err []) sample_settings) = Ok Rules_default"
  by (simp add: prepare_def sample_validates) (simp add: check_def record_settings_def sample_settings_def)

lemma sample_domains:
  "domain_list_of sample_platform sample_settings
     = Ok \<lparr>dl_services = [\<lparr>sv_name = ''steam'', sv_description = [], sv_patterns = [Exact ''steam.com'']\<rparr>]\<rparr>"
proof -
  have l: "lines ''steam.com'' = [''steam.com'']" "trim ''steam.com'' = ''steam.com''" "split_whitespace ''steam.com'' = [''steam.com'']"
    by code_simp+
  have p: "Pattern_parse ''steam.com'' = Some (Exact ''steam.com'')" by code_simp
  have e: "ends_with ''steam.txt'' ''.txt''" by code_simp
  show ?thesis
    by (simp add: domain_list_of_def sample_platform_def sample_settings_def load_dir_def e DomainList_parse_def parse_service_def
        domain_file_def domain_line_def l p pattern_count_def Let_def starts_with_def)
qed

lemma sample_metrics: "Metrics_new (\<lambda>_. None) (\<lambda>r _. Ok r) (0 :: nat) = Ok 0"
proof -
  have "register_all (\<lambda>r _. Ok r) ds (0 :: nat) = Ok 0" for ds by (induction ds) simp_all
  moreover have "create_all (\<lambda>_. None) collectors = Ok ()" by (simp add: create_all_ok)
  ultimately show ?thesis by (simp only: Metrics_new_def rbind_simps)
qed

lemma compile_all: "\<exists>compiled'. compile_rules (\<lambda>_. True) rules names compiled = Ok compiled'"
proof (induction names arbitrary: compiled)
  case (Cons name names)
  have "find (\<lambda>p. False) xs = None" for xs :: "string list" by (simp add: find_None_iff)
  then have "\<exists>r. CompiledRule_compile (\<lambda>_. True) name rule = Ok r" for rule
    by (simp add: CompiledRule_compile_def build_set_def)
  then show ?case using Cons.IH by (metis compile_rules.simps(2) rbind_simps(2))
qed simp

lemma sample_started:
  "\<exists>s. startup sample_platform sample_settings = (full_startup, Ok s) \<and> uc_http (sy_client s) = whole_http
     \<and> or_index (srv_orchestrator (sy_server s)) = \<lparr>ix_ops = alist_redb, ix_db = [([1], ObjectMeta_encode whole_meta)]\<rparr>
     \<and> or_store (srv_orchestrator (sy_server s)) = \<lparr>ss_ops = alist_foyer, ss_state = []\<rparr>
     \<and> or_slice_size (srv_orchestrator (sy_server s)) = 4096 \<and> or_fills (srv_orchestrator (sy_server s)) = FillRegistry_new"
proof -
  let ?pf = sample_platform and ?c = sample_settings
  have pr: "snd (prepare (pf_guard_file ?pf) (pf_guard_dir ?pf) (pf_guard_write ?pf) (pf_toml ?pf) (pf_read_file ?pf) ?c) = Ok Rules_default"
    and m: "Metrics_new (pf_metric_create ?pf) (pf_metric_register ?pf) (pf_registry ?pf) = Ok 0"
    by (simp_all only: sample_platform_def platform.select_convs sample_prepared sample_metrics)
  have b: "pf_bind ?pf a = Ok ()" "pf_refresh_client ?pf = Ok ()" for a by (simp_all add: sample_platform_def)
  have ix: "index_open (pf_redb ?pf) (pf_redb_create ?pf) path = Ok \<lparr>ix_ops = alist_redb, ix_db = [([1], ObjectMeta_encode whole_meta)]\<rparr>" for path
    by (simp add: sample_platform_def index_open_def) (simp add: alist_redb_def)
  have st: "open_with_metrics (pf_foyer ?pf) (pf_foyer_build ?pf) (pf_create_dir_all ?pf) dir config True = Ok \<lparr>ss_ops = alist_foyer, ss_state = []\<rparr>"
    for dir config by (simp add: sample_platform_def open_with_metrics_def)
  have rs: "UpstreamResolver_new (pf_dns_build ?pf) (cf_upstream_dns ?c) (cf_allow_private_upstreams ?c) = Ok sample_resolver"
    by (simp add: sample_platform_def sample_settings_def UpstreamResolver_new_def with_servers_def sample_resolver_def)
  obtain compiled where cp: "compile_rules (pf_compiles ?pf) (merge Rules_default) [''steam''] Map.empty = Ok compiled"
    unfolding sample_platform_def platform.select_convs using compile_all by blast
  have sz: "ucast (cf_cache_slice_size ?c) = (4096 :: u32)" by (simp add: sample_settings_def)
  have h: "pf_http_build ?pf cfg = Ok whole_http" for cfg by (simp add: sample_platform_def)
  have "\<exists>s. snd (startup ?pf ?c) = Ok s \<and> uc_http (sy_client s) = whole_http
     \<and> or_index (srv_orchestrator (sy_server s)) = \<lparr>ix_ops = alist_redb, ix_db = [([1], ObjectMeta_encode whole_meta)]\<rparr>
     \<and> or_store (srv_orchestrator (sy_server s)) = \<lparr>ss_ops = alist_foyer, ss_state = []\<rparr>
     \<and> or_slice_size (srv_orchestrator (sy_server s)) = 4096 \<and> or_fills (srv_orchestrator (sy_server s)) = FillRegistry_new"
    unfolding startup_def serve_system_def bind_listeners_def sample_domains
    by (simp add: try_start_def Let_def pr m b ix st rs cp h sz del: compile_rules.simps add: UpstreamClient_new_def orch_with_metrics_def with_stale_on_error_def Orchestrator_new_def)
  then show ?thesis using startup_orderly [of ?pf ?c] by (auto simp: orderly_def prod_eq_iff)
qed

theorem startup_in_order_witness:
  "fst (startup sample_platform sample_settings) = full_startup \<and> main_exit (snd (startup sample_platform sample_settings)) = 0"
  using startup_in_order [of sample_platform sample_settings] sample_started by auto

theorem system_is_wired_witness:
  "\<exists>s. startup sample_platform sample_settings = (full_startup, Ok s) \<and> unat (or_slice_size (srv_orchestrator (sy_server s))) = 4096
     \<and> \<not> ur_allow_private (sy_sni_resolver s)"
proof -
  obtain s where "startup sample_platform sample_settings = (full_startup, Ok s)" using sample_started by blast
  with system_is_wired [OF this] show ?thesis by (auto simp: sample_settings_def)
qed

text \<open>The object of the index, planned and filled on the started system.\<close>

lemma whole_planned:
  assumes "or_index orch0 = \<lparr>ix_ops = alist_redb, ix_db = [([1], ObjectMeta_encode whole_meta)]\<rparr>"
    and "or_store orch0 = \<lparr>ss_ops = alist_foyer, ss_state = []\<rparr>"
  shows "\<exists>p orch. plan_request (sample_env\<lparr>ev_blake3 := (\<lambda>_. [1])\<rparr>) \<lparr>ck_key = ''/depot/1'', ck_service = ''steam''\<rparr> ''u'' [] None
     orch0 w0 = (Ok p, orch, w0)
     \<and> pl_meta p = whole_meta \<and> pl_object p = [1] \<and> pl_service p = ''steam'' \<and> pl_total_len p = 10 \<and> pl_wanted p = \<lparr>br_start = 0, br_end = 9\<rparr>
     \<and> or_store orch = \<lparr>ss_ops = alist_foyer, ss_state = []\<rparr> \<and> or_upstream orch = or_upstream orch0
     \<and> or_slice_size orch = or_slice_size orch0 \<and> or_fills orch = or_fills orch0"
proof -
  have "valid_meta whole_meta" using valid_sample_meta by (simp add: whole_meta_def valid_meta_def)
  then have i: "index_get (or_index orch0) [1] = Ok (Some whole_meta)"
    by (simp add: index_get_def assms(1) alist_redb_def)
  have m: "om_total_len whole_meta = 10" "\<not> om_stale whole_meta" by (simp_all add: whole_meta_def sample_meta_def)
  have w: "whole 10 = Some \<lparr>br_start = 0, br_end = 9\<rparr>" by (simp add: whole_def)
  show ?thesis
    by (cases "index_touch (ev_now_secs sample_env) (or_index orch0) [1]")
      (auto simp: plan_request_def Let_def object_id_def request_spec_def probe_index_for_def metadata_def i m wanted_range_def w assms(2))
qed

lemma whole_filled:
  assumes "pl_meta p = whole_meta" "pl_object p = [1]" "or_store orch = \<lparr>ss_ops = alist_foyer, ss_state = []\<rparr>"
    and "or_fills orch = FillRegistry_new" "or_slice_size orch = 4096"
    and "us_stream (or_upstream orch) (pl_service p) ''u'' [] w = (Ok ([], [Ok sample_data]), w')"
  shows "\<exists>orch'. orch_slice ev p ''u'' [] 0 orch w = Some (Ok (SliceValue_new (header_for whole_meta 4096) sample_data), orch', w')"
proof -
  have n: "om_no_ranges whole_meta" "om_generation whole_meta = 0" by (simp_all add: whole_meta_def sample_meta_def)
  have d: "length sample_data = 10" "sample_data \<noteq> []" by (simp_all add: sample_data_def)
  have c: "cut_slices 4096 act sample_data 0 x = Some (sample_data, 0, x)" for act and x :: "'x"
    by (subst cut_slices.simps) (simp add: d)
  show ?thesis
    using n d
    by (simp add: orch_slice_def ensure_filled_def assms store_contains_def claim_def FillRegistry_new_def run_fill_def c Let_def
        land_slice_def store_insert_def store_get_def update_fill_def release_def alist_foyer_def)
qed

lemma whole_answer:
  assumes "permits_free c" "uc_http c = whole_http"
  shows "us_stream (client_upstream sample_url_parse c) service ''u'' [] (sample_resolver, ()) = (Ok ([], [Ok sample_data]), (sample_resolver, ()))"
proof -
  let ?c = "c\<lparr>uc_resolver := sample_resolver\<rparr>"
  have u: "check_url sample_url_parse ''u'' ?c = (Ok (), ?c)"
    by (simp add: check_url_def check_host_def sample_url_parse_def sample_resolution)
  obtain taken c1 where "service_permit service ?c = Some (taken, c1)" "uc_http c1 = whole_http" "drop_service_permit taken service c1 = ?c"
    by (rule service_permit_free [of ?c service]) (use assms in auto)
  then have "fetch_stream sample_url_parse service ''u'' [] ?c () = Some (Ok ([], [Ok sample_data]), ?c, ())"
    by (simp add: fetch_stream_def u whole_http_def accept_stream_def is_redirection_def is_success_def Let_def)
  then show ?thesis by (simp add: client_upstream_def)
qed

lemma whole_serves: "http_serves whole_http url sample_data vals"
  by (auto simp: http_serves_def whole_http_def)

theorem sni_refusals_uncounted_witness:
  "\<exists>s. startup sample_platform sample_settings = (full_startup, Ok s)
     \<and> ur_metrics (fst (resolve_host (sy_sni_resolver s) ''127.0.0.1'' 443)) = None"
  using sample_started sni_refusals_uncounted by blast

theorem running_system_serves_witness:
  "\<exists>(p :: Plan) (fr :: u32 \<rightharpoonup> OrchestratorError + u8 list). fr 0 = Some (Ok sample_data) \<and> pl_wanted p = \<lparr>br_start = 0, br_end = 9\<rparr>
     \<and> prefix (ok_prefix (stream_frames fr [0])) (range_bytes (pl_wanted p) sample_data)"
proof -
  let ?ev = "sample_env\<lparr>ev_blake3 := (\<lambda>_. [1])\<rparr>" and ?w = "(sample_resolver, ())"
  obtain sys where sys: "startup sample_platform sample_settings = (full_startup, Ok sys)" "uc_http (sy_client sys) = whole_http"
    and o: "or_index (srv_orchestrator (sy_server sys)) = \<lparr>ix_ops = alist_redb, ix_db = [([1], ObjectMeta_encode whole_meta)]\<rparr>"
      "or_store (srv_orchestrator (sy_server sys)) = \<lparr>ss_ops = alist_foyer, ss_state = []\<rparr>"
    and f: "or_slice_size (srv_orchestrator (sy_server sys)) = 4096" "or_fills (srv_orchestrator (sy_server sys)) = FillRegistry_new"
    using sample_started by blast
  let ?o = "srv_orchestrator (sy_server sys)"
  note k = started_config [OF sys(1)]
  obtain p orch where pl: "plan_request ?ev \<lparr>ck_key = ''/depot/1'', ck_service = ''steam''\<rparr> ''u'' [] None ?o ?w = (Ok p, orch, ?w)"
    and p: "pl_meta p = whole_meta" "pl_object p = [1]" "pl_total_len p = 10" "pl_wanted p = \<lparr>br_start = 0, br_end = 9\<rparr>"
    and q: "or_store orch = \<lparr>ss_ops = alist_foyer, ss_state = []\<rparr>" "or_upstream orch = or_upstream ?o" "or_slice_size orch = or_slice_size ?o"
      "or_fills orch = or_fills ?o"
    using whole_planned [OF o, of ?w] by blast
  have "us_stream (or_upstream orch) (pl_service p) ''u'' [] ?w = (Ok ([], [Ok sample_data]), ?w)"
    using whole_answer [OF k(4) sys(2)] k(3) by (simp add: q(2) sample_platform_def)
  then obtain orch' where sl: "orch_slice ?ev p ''u'' [] 0 orch ?w = Some (Ok (SliceValue_new (header_for whole_meta 4096) sample_data), orch', ?w)"
    using whole_filled [OF p(1,2) q(1)] q f by metis
  have win: "payload_window 0 4096 \<lparr>br_start = 0, br_end = 9\<rparr> = (0, 10)" by (simp add: payload_window_def saturating_sub_def)
  have d: "length sample_data = 10" by (simp add: sample_data_def)
  have t: "slice_task ?ev p ''u'' [] 0 orch ?w = Some (Ok sample_data, orch', ?w)"
    using sl by (simp add: slice_task_def orch_window_def q f p win orch_payload_window_def d)
  have ix: "orch_indices orch p = [0]"
    by (simp add: orch_indices_def q f p Proxy_Range.plan_def plan_indices_def upt_rec)
  let ?start = "\<lparr>tk_orch = orch, tk_world = ?w, tk_frames = Map.empty\<rparr>"
  let ?t = "\<lparr>tk_orch = orch', tk_world = ?w, tk_frames = [0 \<mapsto> Ok sample_data]\<rparr>"
  have "task_step ?ev p ''u'' [] ?start (?start\<lparr>tk_orch := orch', tk_world := ?w, tk_frames := (tk_frames ?start)(0 \<mapsto> Ok sample_data)\<rparr>)"
    by (rule task_step.own) (simp_all add: t ix)
  then have steps: "(task_step ?ev p ''u'' [])\<^sup>*\<^sup>* ?start ?t" by auto
  have "store_right (pl_object p) (om_generation (pl_meta p)) (or_slice_size ?o) sample_data (or_store ?o)"
    by (simp add: o empty_store_right)
  then have r: "prefix (ok_prefix (stream_frames (tk_frames ?t) (orch_indices orch p))) (range_bytes (pl_wanted p) sample_data)"
    using running_system_serves [OF sys(1) refl refl _ pl, of "[]" sample_data, OF _ _ _ _ _ _ _ steps] p
    by (simp add: d forwarded_filter sys(2) whole_serves weak_def meta_validators_def Validators_new_def whole_meta_def sample_meta_def sample_settings_def)
  show ?thesis by (rule exI [of _ p], rule exI [of _ "[0 \<mapsto> Ok sample_data]"]) (use r p(4) ix in simp)
qed

end
