(* ===== verification/Testkit_Content.thy ===== *)
theory Testkit_Content
  imports Rust_Str
begin

text \<open>
  \<open>cachic-testkit/src/content.rs\<close>: the content of a mock object as a function of its seed and the offset. The
  loop that writes blocks of eight bytes is shown equal to reading every byte on its own, at any offset
  and across the wrap-around of positions, so a range can be compared without a copy of the object.
\<close>

section \<open>Operations\<close>

definition BLOCK :: u64 where "BLOCK = 8"
definition MIX :: u64 where "MIX = 0x9E3779B97F4A7C15"

definition splitmix64 :: "u64 \<Rightarrow> u64" where
  "splitmix64 z =
    (let z = z + MIX;
         z = (z XOR drop_bit 30 z) * 0xBF58476D1CE4E5B9;
         z = (z XOR drop_bit 27 z) * 0x94D049BB133111EB
     in z XOR drop_bit 31 z)"

definition block_at :: "u64 \<Rightarrow> u64 \<Rightarrow> bytes" where
  "block_at seed block_index = to_le_bytes (splitmix64 (seed XOR (block_index * MIX)))"

text \<open>The bytes written to a buffer of the given length.\<close>

lemma unat_within: "unat (pos mod BLOCK) = unat pos mod 8"
  by (simp add: BLOCK_def unat_mod)

function content_fill :: "u64 \<Rightarrow> u64 \<Rightarrow> nat \<Rightarrow> bytes" where
  "content_fill seed pos remaining =
    (if remaining = 0 then []
     else
       let block_index = pos div BLOCK;
           within = unat (pos mod BLOCK);
           block = block_at seed block_index;
           n = min (unat BLOCK - within) remaining
       in take n (drop within block) @ content_fill seed (pos + of_nat n) (remaining - n))"
  by pat_completeness auto
termination
proof (relation "measure (\<lambda>(_, _, remaining). remaining)")
  fix seed pos :: u64 and remaining block_index within block n
  assume "remaining \<noteq> 0" "block_index = pos div BLOCK" "within = unat (pos mod BLOCK)"
    "block = block_at seed block_index" "n = min (unat BLOCK - within) remaining"
  moreover have "unat (pos mod BLOCK) < unat BLOCK" by (simp add: unat_within) (simp add: BLOCK_def)
  ultimately show "((seed, pos + of_nat n, remaining - n), seed, pos, remaining) \<in> measure (\<lambda>(_, _, remaining). remaining)"
    by simp
qed simp

declare content_fill.simps [simp del]

definition content_range :: "u64 \<Rightarrow> u64 \<Rightarrow> nat \<Rightarrow> bytes" where
  "content_range seed offset len = content_fill seed offset len"

definition seed_for :: "string \<Rightarrow> u64" where
  "seed_for name = foldl (\<lambda>h b. (h XOR ucast b) * 0x100000001B3) 0xcbf29ce484222325 (str_bytes name)"

section \<open>Every byte on its own\<close>

definition byte_at :: "u64 \<Rightarrow> u64 \<Rightarrow> u8" where
  "byte_at seed pos = block_at seed (pos div BLOCK) ! unat (pos mod BLOCK)"

lemma length_block [simp]: "length (block_at seed i) = 8"
  by (simp add: block_at_def)

lemma in_block:
  assumes "k < 8 - unat (pos mod BLOCK)"
  shows "(pos + of_nat k) div BLOCK = pos div BLOCK" "unat ((pos + of_nat k) mod BLOCK) = unat (pos mod BLOCK) + k"
proof -
  let ?p = "unat pos"
  have p: "?p = 8 * (?p div 8) + ?p mod 8" "?p < 2 ^ 64" using unsigned_less [of pos, where ?'a = nat] by simp_all
  have k: "?p mod 8 + k < 8" using assms by (simp add: unat_within)
  have "?p div 8 < 2 ^ 61" using p(2) by (simp add: less_mult_imp_div_less)
  then have "8 * (?p div 8) + 8 \<le> 2 ^ 64" by simp
  then have "?p + k < 2 ^ 64" using p k by linarith
  moreover have "unat (of_nat k :: u64) = k" using k by (simp add: unsigned_of_nat take_bit_eq_mod)
  ultimately have u: "unat (pos + of_nat k) = ?p + k" by (simp add: unat_word_ariths)
  have m: "(?p + k) mod 8 = ?p mod 8 + k" using k by (metis mod_add_left_eq mod_less)
  show "unat ((pos + of_nat k) mod BLOCK) = unat (pos mod BLOCK) + k" by (simp add: unat_within u m)
  have "(?p + k) div 8 = ?p div 8"
  proof (rule div_nat_eqI)
    define q r where "q = ?p div 8" and "r = ?p mod 8"
    then have "?p = 8 * q + r" "r + k < 8" using p(1) k by simp_all
    then show "8 * (?p div 8) \<le> ?p + k" "?p + k < 8 * Suc (?p div 8)"
      unfolding q_def [symmetric] by simp_all
  qed
  then have "unat ((pos + of_nat k) div BLOCK) = unat (pos div BLOCK)" by (simp add: BLOCK_def unat_div u)
  then show "(pos + of_nat k) div BLOCK = pos div BLOCK" by (simp only: word_unat_eq_iff)
qed

lemma block_bytes:
  assumes "n \<le> 8 - unat (pos mod BLOCK)"
  shows "take n (drop (unat (pos mod BLOCK)) (block_at seed (pos div BLOCK))) = map (\<lambda>i. byte_at seed (pos + of_nat i)) [0 ..< n]"
proof (rule nth_equalityI)
  fix i
  assume "i < length (take n (drop (unat (pos mod BLOCK)) (block_at seed (pos div BLOCK))))"
  then have i: "i < n" "i < 8 - unat (pos mod BLOCK)" by auto
  show "take n (drop (unat (pos mod BLOCK)) (block_at seed (pos div BLOCK))) ! i
      = map (\<lambda>i. byte_at seed (pos + of_nat i)) [0 ..< n] ! i"
    using i in_block [OF i(2)] by (simp add: byte_at_def)
qed (use assms in auto)

lemma content_fill_bytes: "content_fill seed pos n = map (\<lambda>i. byte_at seed (pos + of_nat i)) [0 ..< n]"
proof (induction seed pos n rule: content_fill.induct)
  case (1 seed pos n)
  show ?case
  proof (cases "n = 0")
    case True
    then show ?thesis by (simp add: content_fill.simps)
  next
    case False
    define k where "k = min (unat BLOCK - unat (pos mod BLOCK)) n"
    have k: "k \<le> 8 - unat (pos mod BLOCK)" "k \<le> n" by (simp_all add: k_def BLOCK_def)
    have "content_fill seed pos n = map (\<lambda>i. byte_at seed (pos + of_nat i)) [0 ..< k]
        @ map (\<lambda>i. byte_at seed (pos + of_nat k + of_nat i)) [0 ..< n - k]"
      using 1 [OF False refl refl refl refl] block_bytes [OF k(1), of seed]
      by (subst content_fill.simps) (simp add: False Let_def flip: k_def)
    also have "map (\<lambda>i. byte_at seed (pos + of_nat k + of_nat i)) [0 ..< n - k]
        = map (\<lambda>i. byte_at seed (pos + of_nat i)) (map (\<lambda>i. i + k) [0 ..< n - k])"
      by (simp add: ac_simps)
    also have "map (\<lambda>i. i + k) [0 ..< n - k] = [k ..< n]" using k(2) by (simp add: map_add_upt)
    finally show ?thesis using upt_add_eq_append [of 0 k "n - k"] k(2) by (simp flip: map_append)
  qed
qed

lemma content_append:
  "content_range seed offset (m + n) = content_range seed offset m @ content_range seed (offset + of_nat m) n"
proof -
  have "map (\<lambda>i. byte_at seed (offset + of_nat i)) [0 ..< m + n]
      = map (\<lambda>i. byte_at seed (offset + of_nat i)) [0 ..< m] @ map (\<lambda>i. byte_at seed (offset + of_nat m + of_nat i)) [0 ..< n]"
    by (rule nth_equalityI) (auto simp: nth_append)
  then show ?thesis by (simp add: content_range_def content_fill_bytes)
qed

text \<open>
  Any byte of a mock object can be checked alone. A range of the content, at any offset and of any length,
  is the bytes at its positions one by one; so cutting it anywhere, or reading part of a longer range,
  gives the same bytes.
\<close>

theorem content_is_positional:
  "content_range seed offset len = map (\<lambda>i. byte_at seed (offset + of_nat i)) [0 ..< len]
   \<and> content_range seed offset (m + n) = content_range seed offset m @ content_range seed (offset + of_nat m) n"
  using content_append by (simp add: content_range_def content_fill_bytes)

lemma content_segment:
  assumes "a + n \<le> len"
  shows "content_range seed (of_nat a) n = take n (drop a (content_range seed 0 len))"
  using assms by (intro nth_equalityI) (simp_all add: content_range_def content_fill_bytes)

lemma length_content [simp]: "length (content_range seed offset n) = n"
  by (simp add: content_range_def content_fill_bytes)

end
