(* ===== verification/Testkit_MockCdn.thy ===== *)
theory Testkit_MockCdn
  imports Testkit_Content Upstream_Served
begin

text \<open>
  \<open>cachic-testkit/src/mockcdn.rs\<close>: the origin the tests run against. A request is its method, path and headers; a response its
  status, headers and the chunks of its body. Delays change no value and are left out; the listener and
  the connections are the HTTP library.
\<close>

section \<open>Data\<close>

definition STREAM_CHUNK :: u64 where "STREAM_CHUNK = 256 * 1024"

datatype Failure = NoFailure | ServerError | Stall | Truncate | Reset

definition failure_code :: "Failure \<Rightarrow> u8" where
  "failure_code f = (case f of NoFailure \<Rightarrow> 0 | ServerError \<Rightarrow> 1 | Stall \<Rightarrow> 2 | Truncate \<Rightarrow> 3 | Reset \<Rightarrow> 4)"

datatype RangeBehaviour = Honour | Ignore

record MockStats =
  ms_requests :: u64
  ms_range_requests :: u64
  ms_bytes_served :: u64

definition MockStats_default :: MockStats where
  "MockStats_default = \<lparr>ms_requests = 0, ms_range_requests = 0, ms_bytes_served = 0\<rparr>"

definition stats_reset :: "MockStats \<Rightarrow> MockStats" where
  "stats_reset s = s\<lparr>ms_requests := 0, ms_range_requests := 0, ms_bytes_served := 0\<rparr>"

record MockConfig =
  mc_range_behaviour :: RangeBehaviour
  mc_failure :: u8
  mc_etag_suffix :: u64

definition MockConfig_default :: MockConfig where
  "MockConfig_default = \<lparr>mc_range_behaviour = Honour, mc_failure = 0, mc_etag_suffix = 0\<rparr>"

definition set_failure :: "Failure \<Rightarrow> MockConfig \<Rightarrow> MockConfig" where
  "set_failure f c = c\<lparr>mc_failure := failure_code f\<rparr>"

definition change_validators :: "MockConfig \<Rightarrow> MockConfig" where
  "change_validators c = c\<lparr>mc_etag_suffix := mc_etag_suffix c + 1\<rparr>"

definition object_path :: "string \<Rightarrow> u64 \<Rightarrow> string" where
  "object_path name len = ''/o/'' @ name @ ''/'' @ show_word len"

section \<open>Operations\<close>

definition parse_path :: "string \<Rightarrow> (u64 \<times> u64) option" where
  "parse_path path =
    Option.bind (strip_prefix path ''/o/'') (\<lambda>rest.
    Option.bind (rsplit_once (CHR ''/'') rest) (\<lambda>(name, len).
    map_option (\<lambda>len. (seed_for name, len)) (parse_uint len)))"

definition parse_single_range :: "string \<Rightarrow> u64 \<Rightarrow> (u64 \<times> u64) option" where
  "parse_single_range raw len =
    Option.bind (strip_prefix (trim raw) ''bytes='') (\<lambda>spec.
      if CHR '','' \<in> set spec then None
      else
        Option.bind (split_once (CHR ''-'') spec) (\<lambda>(start, finish).
          let s = trim start; e = trim finish in
          if s = [] then
            Option.bind (parse_uint e) (\<lambda>n :: u64.
              if n = 0 \<or> len = 0 then None
              else let n = min n len in Some (len - n, len - 1))
          else if e = [] then
            Option.bind (parse_uint s) (\<lambda>start. if len \<le> start then None else Some (start, len - 1))
          else
            Option.bind (parse_uint s) (\<lambda>start.
            Option.bind (parse_uint e) (\<lambda>finish.
              if finish < start \<or> len \<le> start then None else Some (start, min finish (len - 1))))))"

fun show_hex :: "nat \<Rightarrow> string" where
  "show_hex n =
    (let digit = (\<lambda>d. char_of (if d < 10 then 48 + d else 87 + d))
     in if n < 16 then [digit n] else show_hex (n div 16) @ [digit (n mod 16)])"

declare show_hex.simps [simp del]

definition zero_padded :: "nat \<Rightarrow> string \<Rightarrow> string" where
  "zero_padded width s = replicate (width - length s) (CHR ''0'') @ s"

definition etag_for :: "u64 \<Rightarrow> u64 \<Rightarrow> u64 \<Rightarrow> string" where
  "etag_for seed len suf =
    [CHR 0x22] @ zero_padded 16 (show_hex (unat seed)) @ ''-'' @ show_hex (unat len) @ ''-'' @ show_hex (unat suf) @ [CHR 0x22]"

record MockRequest =
  mq_method :: string
  mq_path :: string
  mq_headers :: headers

record MockResponse =
  mp_status :: nat
  mp_headers :: headers
  mp_body :: "bytes list"

function mock_chunks :: "u64 \<Rightarrow> u64 \<Rightarrow> u64 \<Rightarrow> u64 \<Rightarrow> bytes list" where
  "mock_chunks seed start len sent =
    (if sent < len then
       let n = min STREAM_CHUNK (len - sent)
       in content_range seed (start + sent) (unat n) # mock_chunks seed start len (sent + n)
     else [])"
  by pat_completeness auto
termination
proof (relation "measure (\<lambda>(_, _, len, sent). unat len - unat sent)")
  fix seed start len sent n :: u64
  assume l: "sent < len" and n: "n = min STREAM_CHUNK (len - sent)"
  have "unat (len - sent) = unat len - unat sent" using l by (simp add: unat_sub order_less_imp_le)
  then have "unat n \<le> unat len - unat sent" "0 < unat n"
    using l n by (simp_all add: unat_min word_less_nat_alt STREAM_CHUNK_def)
  moreover from this have "unat (sent + n) = unat sent + unat n"
    using l unsigned_less [of len, where ?'a = nat] by (simp add: unat_word_ariths word_less_nat_alt)
  ultimately show "((seed, start, len, sent + n), seed, start, len, sent) \<in> measure (\<lambda>(_, _, len, sent). unat len - unat sent)"
    using l by (simp add: word_less_nat_alt)
qed simp

declare mock_chunks.simps [simp del]

definition mock_empty :: "nat \<Rightarrow> headers \<Rightarrow> MockResponse" where
  "mock_empty status hs = \<lparr>mp_status = status, mp_headers = hs, mp_body = []\<rparr>"

definition mock_requested :: "MockConfig \<Rightarrow> u64 \<Rightarrow> string option \<Rightarrow> (string \<times> (u64 \<times> u64) option) option" where
  "mock_requested config len raw_range =
    (if mc_range_behaviour config = Honour then map_option (\<lambda>r. (r, parse_single_range r len)) raw_range else None)"

definition mock_object ::
  "MockConfig \<Rightarrow> u64 \<Rightarrow> u64 \<Rightarrow> bool \<Rightarrow> (string \<times> (u64 \<times> u64) option) option \<Rightarrow> MockStats \<Rightarrow> MockResponse \<times> MockStats" where
  "mock_object config seed len is_head requested stats =
    (case (case requested of
             Some (_, Some (s, e)) \<Rightarrow> (s, e, True)
           | _ \<Rightarrow> (0, saturating_sub len 1, False)) of
       (start, finish, partial) \<Rightarrow>
         let n = (if len = 0 then 0 else finish - start + 1);
             hs = [(''content-type'', ''application/octet-stream''), (''content-length'', show_word n),
                   (''etag'', etag_for seed len (mc_etag_suffix config)),
                   (''accept-ranges'', if mc_range_behaviour config = Honour then ''bytes'' else ''none'')]
               @ (if partial then [(''content-range'', ''bytes '' @ show_word start @ ''-'' @ show_word finish @ ''/'' @ show_word len)] else []);
             status = (if partial then 206 else 200)
         in if is_head \<or> n = 0 then (mock_empty status hs, stats)
            else (\<lparr>mp_status = status, mp_headers = hs, mp_body = mock_chunks seed start n 0\<rparr>,
                  stats\<lparr>ms_bytes_served := ms_bytes_served stats + n\<rparr>))"

definition mock_handle :: "MockConfig \<Rightarrow> MockRequest \<Rightarrow> MockStats \<Rightarrow> MockResponse \<times> MockStats" where
  "mock_handle config req stats =
    (let stats = stats\<lparr>ms_requests := ms_requests stats + 1\<rparr>; failure = mc_failure config
     in if failure = 1 then (mock_empty 503 [], stats)
        else if failure = 3 \<or> failure = 4 then
          (\<lparr>mp_status = 200, mp_headers = [(''content-length'', ''1000000'')],
            mp_body = (if failure = 3 then [str_bytes ''partial''] else [])\<rparr>, stats)
        else
          (case parse_path (mq_path req) of
             None \<Rightarrow> (mock_empty 404 [], stats)
           | Some (seed, len) \<Rightarrow>
               if mq_method req \<noteq> ''GET'' \<and> mq_method req \<noteq> ''HEAD'' then (mock_empty 405 [], stats)
               else
                 let raw_range = Option.bind (hget (mq_headers req) ''range'') to_str;
                     stats = (if raw_range \<noteq> None then stats\<lparr>ms_range_requests := ms_range_requests stats + 1\<rparr> else stats);
                     requested = mock_requested config len raw_range
                 in (case requested of
                       Some (raw, None) \<Rightarrow>
                         if starts_with raw ''bytes='' \<and> CHR '','' \<notin> set raw
                         then (mock_empty 416 [(''content-range'', ''bytes */'' @ show_word len)], stats)
                         else mock_object config seed len (mq_method req = ''HEAD'') requested stats
                     | _ \<Rightarrow> mock_object config seed len (mq_method req = ''HEAD'') requested stats)))"

section \<open>The object is served whole\<close>

lemma mock_chunks_concat:
  "sent \<le> len \<Longrightarrow> concat (mock_chunks seed start len sent) = content_range seed (start + sent) (unat len - unat sent)"
proof (induction seed start len sent rule: mock_chunks.induct)
  case (1 seed start len sent)
  show ?case
  proof (cases "sent < len")
    case False
    then have "len = sent" using 1(2) by simp
    then show ?thesis by (subst mock_chunks.simps) (simp add: content_range_def content_fill_bytes)
  next
    case True
    define n where "n = min STREAM_CHUNK (len - sent)"
    have "unat (len - sent) = unat len - unat sent" using True by (simp add: unat_sub order_less_imp_le)
    then have n: "unat n \<le> unat len - unat sent" by (simp add: n_def unat_min)
    then have u: "unat (sent + n) = unat sent + unat n" "sent + n \<le> len"
      using True unsigned_less [of len, where ?'a = nat] by (simp_all add: unat_word_ariths word_less_nat_alt word_le_nat_alt)
    have "concat (mock_chunks seed start len sent)
        = content_range seed (start + sent) (unat n) @ content_range seed (start + sent + of_nat (unat n)) (unat len - unat sent - unat n)"
      using 1(1) [OF True n_def u(2)] True u(1)
      by (subst mock_chunks.simps) (simp add: Let_def add.assoc flip: n_def)
    also have "\<dots> = content_range seed (start + sent) (unat n + (unat len - unat sent - unat n))"
      using content_append by simp
    also have "unat n + (unat len - unat sent - unat n) = unat len - unat sent" using n by simp
    finally show ?thesis .
  qed
qed

section \<open>Names\<close>

lemma parse_object_path: "parse_path (object_path name len) = Some (seed_for name, len)"
proof -
  have "rsplit_once (CHR ''/'') (name @ ''/'' @ show_word len) = Some (name, show_word len)"
    by (simp add: rsplit_once_Some digit_not)
  then show ?thesis unfolding parse_path_def object_path_def strip_prefix_append by simp
qed

lemma show_hex_graphic: "c \<in> set (show_hex n) \<Longrightarrow> graphic c"
proof (induction n rule: show_hex.induct)
  case (1 n)
  have d: "graphic (char_of (if d < 10 then 48 + d else 87 + d))" if "d < 16" for d :: nat
    using that by (auto simp: graphic_def)
  show ?case
    using 1 d [of n] d [of "n mod 16"] by (subst (asm) (2) show_hex.simps) (auto simp: Let_def split: if_splits)
qed

lemma etag_visible: "to_str (etag_for seed len suf) = Some (etag_for seed len suf)" "\<not> starts_with (etag_for seed len suf) ''W/''"
proof -
  have "visible_ascii c" if "c \<in> set (show_hex n)" for c n
    using show_hex_graphic [OF that] by (auto simp: visible_ascii_def graphic_def)
  then have "\<forall>c \<in> set (etag_for seed len suf). visible_ascii c"
    by (auto simp: etag_for_def zero_padded_def) (simp_all add: visible_ascii_def)
  then show "to_str (etag_for seed len suf) = Some (etag_for seed len suf)" by (simp add: to_str_def list_all_iff)
  show "\<not> starts_with (etag_for seed len suf) ''W/''" by (simp add: etag_for_def)
qed

end
