(* ===== verification/Testkit_Served.thy ===== *)
theory Testkit_Served
  imports Testkit_MockCdn
begin

text \<open>
  The whole cache in front of the mock origin: client, orchestrator, slice tasks and stream on one side, the mock
  object on the other. What the differential tests compare byte by byte is proved for every object,
  range, slice size and order of the tasks.
\<close>

section \<open>The mock origin as a network\<close>

text \<open>\<open>uri_path\<close> is the path of a URL, which the HTTP library parses.\<close>

definition mock_http :: "(string \<Rightarrow> string) \<Rightarrow> MockConfig \<Rightarrow> MockStats http" where
  "mock_http uri_path config rq stats =
    (case mock_handle config \<lparr>mq_method = ''GET'', mq_path = uri_path (rq_url rq), mq_headers = rq_headers rq\<rparr> stats of
       (response, stats) \<Rightarrow>
         (Ok \<lparr>hr_status = mp_status response, hr_headers = mp_headers response,
              hr_content_length = Option.bind (hget (mp_headers response) ''content-length'') parse_u64,
              hr_chunks = map Inr (mp_body response)\<rparr>, stats))"

lemma parse_range_request:
  "parse_single_range (''bytes='' @ show_nat (unat a) @ ''-'' @ show_nat (unat b)) len =
    (if b < a \<or> len \<le> a then None else Some (a, min b (len - 1)))"
proof -
  have t: "trim (''bytes='' @ show_word a @ ''-'' @ show_word b) = ''bytes='' @ show_word a @ ''-'' @ show_word b"
    using trim_show_spec [of "FromTo a b"] by (simp add: show_spec_def)
  show ?thesis
    unfolding parse_single_range_def t strip_prefix_append by (simp add: digit_not split_once_append)
qed

lemma range_text_visible: "to_str (''bytes='' @ show_nat m @ ''-'' @ show_nat n) = Some (''bytes='' @ show_nat m @ ''-'' @ show_nat n)"
proof -
  have "visible_ascii c" if "c \<in> set (show_nat k)" for c k
    using show_nat_graphic [OF that] by (auto simp: visible_ascii_def is_digit_def)
  then show ?thesis by (auto simp: to_str_def list_all_iff) (simp_all add: visible_ascii_def)
qed

lemma mock_object_body:
  assumes "mock_object config seed len False requested stats = (response, stats')"
  shows "(mp_status response = 206 \<longleftrightarrow> (\<exists>r s e. requested = Some (r, Some (s, e))))"
    and "mp_status response \<noteq> 206 \<Longrightarrow> concat (mp_body response) = content_range seed 0 (unat len)"
    and "requested = Some (r, Some (s, e)) \<Longrightarrow> s \<le> e \<Longrightarrow> e < len \<Longrightarrow>
         concat (mp_body response) = take (unat e - unat s + 1) (drop (unat s) (content_range seed 0 (unat len)))"
proof -
  show "(mp_status response = 206 \<longleftrightarrow> (\<exists>r s e. requested = Some (r, Some (s, e))))"
    using assms by (auto simp: mock_object_def mock_empty_def Let_def split: option.splits if_splits)
  show "concat (mp_body response) = content_range seed 0 (unat len)" if "mp_status response \<noteq> 206"
  proof (cases "len = 0")
    case True
    then show ?thesis using assms that
      by (auto simp: mock_object_def mock_empty_def Let_def content_range_def content_fill_bytes split: option.splits if_splits)
  next
    case False
    then have "1 \<le> len" by (simp add: word_le_nat_alt Suc_le_eq unat_gt_0)
    then have "saturating_sub len 1 - 0 + 1 = len" by (simp add: saturating_sub_def)
    then have "mp_body response = mock_chunks seed 0 len 0"
      using assms that False by (auto simp: mock_object_def mock_empty_def Let_def split: option.splits if_splits)
    then show ?thesis using mock_chunks_concat [of 0 len seed 0] by simp
  qed
  show "concat (mp_body response) = take (unat e - unat s + 1) (drop (unat s) (content_range seed 0 (unat len)))"
    if r: "requested = Some (r, Some (s, e))" "s \<le> e" "e < len"
  proof -
    have d: "unat (e - s) = unat e - unat s" using r(2) by (rule unat_sub)
    have "unat e < 2 ^ 64 - 1" using r(3) unsigned_less [of len, where ?'a = nat] by (simp add: word_less_nat_alt)
    then have n: "unat (e - s + 1) = unat e - unat s + 1" using d by (simp add: unat_word_ariths)
    then have "e - s + 1 \<noteq> 0" by auto
    then have "mp_body response = mock_chunks seed s (e - s + 1) 0"
      using assms r by (auto simp: mock_object_def mock_empty_def Let_def split: if_splits)
    then have "concat (mp_body response) = content_range seed s (unat e - unat s + 1)"
      using mock_chunks_concat [of 0 "e - s + 1" seed s] n by simp
    also have "\<dots> = take (unat e - unat s + 1) (drop (unat s) (content_range seed 0 (unat len)))"
      using content_segment [of "unat s" "unat e - unat s + 1" "unat len" seed] r(2,3)
      by (simp add: word_less_nat_alt word_le_nat_alt)
    finally show ?thesis .
  qed
qed

text \<open>An origin that does not fail is one: it serves every range and the whole of the object.\<close>

lemma mock_serves:
  assumes p: "parse_path (uri_path url) = Some (seed, len)" and f: "mc_failure config = 0"
  shows "http_serves (mock_http uri_path config) url (content_range seed 0 (unat len)) vals"
  unfolding http_serves_def
proof (intro conjI allI impI)
  fix hs and a b :: u64 and w response w'
  let ?raw = "''bytes='' @ show_nat (unat a) @ ''-'' @ show_nat (unat b)"
  assume n: "no_range hs" and h: "mock_http uri_path config (range_request url hs a b) w = (Ok response, w')"
    and s: "hr_status response = 206"
  have raw: "Option.bind (hget (rq_headers (range_request url hs a b)) ''range'') to_str = Some ?raw"
    using range_text_visible by (simp add: range_request_def hget_def)
  obtain stats mr where o: "mock_object config seed len False (mock_requested config len (Some ?raw)) stats = (mr, w')"
    and r: "hr_status response = mp_status mr" "hr_chunks response = map Inr (mp_body mr)"
    using h s f p raw
    by (auto simp: mock_http_def mock_handle_def mock_empty_def Let_def range_request_def
        split: option.splits prod.splits if_splits)
  obtain s' e where q: "mock_requested config len (Some ?raw) = Some (?raw, Some (s', e))"
    using mock_object_body(1) [OF o] s r by (auto simp: mock_requested_def split: if_splits)
  then have "s' = a" "e = min b (len - 1)" "a \<le> b" "a < len"
    using parse_range_request [of a b len] by (auto simp: mock_requested_def split: if_splits)
  moreover from this have "unat (len - 1) = unat len - 1" by (intro unat_pred) auto
  moreover from calculation have "e < len" "a \<le> e" by (auto simp: word_less_nat_alt word_le_nat_alt unat_min)
  ultimately show "prefix (ok_prefix (hr_chunks response)) (drop (unat a) (content_range seed 0 (unat len)))"
    using mock_object_body(3) [OF o q] r by (simp add: take_is_prefix)
next
  fix hs w response w'
  assume n: "no_range hs" and h: "mock_http uri_path config \<lparr>rq_url = url, rq_headers = hs\<rparr> w = (Ok response, w')"
    and s: "is_success (hr_status response)"
  have raw: "hget hs ''range'' = None"
    using n by (auto simp: hget_def no_range_def list_all_iff map_of_eq_None_iff)
  obtain stats mr where o: "mock_object config seed len False (mock_requested config len None) stats = (mr, w')"
    and r: "hr_status response = mp_status mr" "hr_chunks response = map Inr (mp_body mr)"
    using h s f p raw
    by (auto simp: mock_http_def mock_handle_def mock_requested_def Let_def split: prod.splits if_splits)
  have "mp_status mr \<noteq> 206" using mock_object_body(1) [OF o] by (simp add: mock_requested_def)
  then show "prefix (ok_prefix (hr_chunks response)) (content_range seed 0 (unat len))"
    using mock_object_body(2) [OF o] r by simp
qed

section \<open>Through the cache\<close>


text \<open>An object of ten bytes, known to the orchestrator, in slices of four.\<close>

definition mock_meta :: ObjectMeta where
  "mock_meta = sample_meta\<lparr>om_etag := Some (etag_for (seed_for ''a'') 10 0)\<rparr>"

definition mock_client :: "MockStats UpstreamClient" where
  "mock_client =
    \<lparr>uc_http = mock_http (\<lambda>_. object_path ''a'' 10) MockConfig_default, uc_resolver = sample_resolver, uc_inflight = 1,
     uc_per_service = Map.empty, uc_config = ClientConfig_default\<rparr>"

definition mock_orch ::
  "((ObjectId \<times> bytes) list, (ObjectId \<times> bytes) list, (SliceKey \<times> SliceValue) list, UpstreamResolver \<times> MockStats) Orchestrator" where
  "mock_orch =
    (Orchestrator_new \<lparr>ss_ops = alist_foyer, ss_state = []\<rparr> \<lparr>ix_ops = alist_redb, ix_db = []\<rparr>
       (client_upstream sample_url_parse mock_client) 4 2)\<lparr>or_metadata := [[1] \<mapsto> Some mock_meta]\<rparr>"

abbreviation mock_world :: "UpstreamResolver \<times> MockStats" where
  "mock_world \<equiv> (sample_resolver, MockStats_default)"

lemma mock_planned:
  "\<exists>p. plan_request (sample_env\<lparr>ev_blake3 := (\<lambda>_. [1])\<rparr>) \<lparr>ck_key = ''/o/a/10'', ck_service = ''steam''\<rparr> ''u'' [] None mock_orch mock_world
     = (Ok p, mock_orch, mock_world)
     \<and> pl_meta p = mock_meta \<and> pl_object p = [1] \<and> pl_total_len p = 10 \<and> pl_wanted p = \<lparr>br_start = 0, br_end = 9\<rparr>"
  by (simp add: plan_request_def Let_def object_id_def request_spec_def probe_index_for_def metadata_def index_get_def alist_redb_def
      mock_orch_def Orchestrator_new_def cell_def mock_meta_def sample_meta_def wanted_range_def whole_def)

lemma mock_answer:
  "mock_handle MockConfig_default \<lparr>mq_method = ''GET'', mq_path = object_path ''a'' 10, mq_headers = rq_headers (range_request ''u'' [] 4 7)\<rparr> stats
    = (\<lparr>mp_status = 206,
        mp_headers = [(''content-type'', ''application/octet-stream''), (''content-length'', show_nat 4),
          (''etag'', etag_for (seed_for ''a'') 10 0), (''accept-ranges'', ''bytes''), (''content-range'', ''bytes '' @ show_nat 4 @ ''-'' @ show_nat 7 @ ''/'' @ show_nat 10)],
        mp_body = [content_range (seed_for ''a'') 4 4]\<rparr>,
       stats\<lparr>ms_requests := ms_requests stats + 1, ms_range_requests := ms_range_requests stats + 1,
             ms_bytes_served := ms_bytes_served stats + 4\<rparr>)"
proof -
  have r: "mock_requested MockConfig_default 10 (Some (''bytes='' @ show_nat 4 @ ''-'' @ show_nat 7))
      = Some (''bytes='' @ show_nat 4 @ ''-'' @ show_nat 7, Some (4, 7))"
    using parse_range_request [of 4 7 10] by (simp add: mock_requested_def MockConfig_default_def)
  have h: "Option.bind (hget (rq_headers (range_request ''u'' [] 4 7)) ''range'') to_str = Some (''bytes='' @ show_nat 4 @ ''-'' @ show_nat 7)"
    using range_text_visible [of 4 7] by (simp add: range_request_def hget_def)
  have c: "mock_chunks (seed_for ''a'') 4 4 0 = [content_range (seed_for ''a'') 4 4]"
    by (subst mock_chunks.simps, subst mock_chunks.simps) (simp add: STREAM_CHUNK_def)
  show ?thesis
    unfolding mock_handle_def MockRequest.simps h parse_object_path option.case Let_def prod.case r
    by (simp add: MockConfig_default_def mock_object_def Let_def c)
qed

definition mock_response :: UpstreamResponse where
  "mock_response =
    \<lparr>up_status = 206, up_headers = mp_headers (fst (mock_handle MockConfig_default
       \<lparr>mq_method = ''GET'', mq_path = object_path ''a'' 10, mq_headers = rq_headers (range_request ''u'' [] 4 7)\<rparr> MockStats_default)),
     up_body = content_range (seed_for ''a'') 4 4\<rparr>"

lemma mock_fetched:
  "\<exists>stats. us_range (client_upstream sample_url_parse mock_client) service ''u'' [] 4 7 mock_world = (Ok mock_response, (sample_resolver, stats))"
proof -
  have u: "check_url sample_url_parse ''u'' mock_client = (Ok (), mock_client)"
    by (simp add: check_url_def check_host_def sample_url_parse_def mock_client_def sample_resolution)
  obtain stats response where h: "mock_http (\<lambda>_. object_path ''a'' 10) MockConfig_default (range_request ''u'' [] 4 7) MockStats_default = (Ok response, stats)"
    and r: "hr_status response = 206" "hr_headers response = up_headers mock_response" "hr_chunks response = [Inr (up_body mock_response)]"
      "hr_content_length response = Some 4"
    using parse_uint_show [of "4 :: u64"] by (simp add: mock_http_def mock_answer mock_response_def hget_def parse_u64_def)
  have a: "accept_range (cc_max_body_bytes ClientConfig_default) ''u'' 4 7 response = Ok mock_response"
    using r by (simp add: accept_range_def is_redirection_def is_success_def body_limit_def Let_def saturating_add_def saturating_sub_def
        RANGE_SLACK_def ClientConfig_default_def DEFAULT_MAX_BODY_BYTES_def) (simp add: mock_response_def)
  have f: "fetch_attempts c ''u'' [] 4 7 0 MockStats_default = (Ok mock_response, stats)"
    if "uc_http c = uc_http mock_client" "uc_config c = ClientConfig_default" for c
    using that h a by (subst fetch_attempts.simps) (simp add: mock_client_def)
  have same: "mock_client\<lparr>uc_resolver := sample_resolver\<rparr> = mock_client" by (simp add: mock_client_def)
  have "uc_config mock_client = ClientConfig_default" "uc_inflight mock_client = 1" "uc_per_service mock_client = Map.empty"
    "uc_resolver mock_client = sample_resolver" by (simp_all add: mock_client_def)
  then show ?thesis
    by (simp add: client_upstream_def fetch_range_def same u service_permit_def global_permit_def f drop_service_permit_def drop_global_permit_def)
qed

lemma mock_orch_sel [simp]:
  "or_upstream mock_orch = client_upstream sample_url_parse mock_client" "or_slice_size mock_orch = 4"
  "or_store mock_orch = \<lparr>ss_ops = alist_foyer, ss_state = []\<rparr>"
  by (simp_all add: mock_orch_def Orchestrator_new_def)

lemma mock_slice:
  assumes "pl_meta p = mock_meta" "pl_total_len p = 10"
  shows "\<exists>orch' w'. orch_slice ev p ''u'' [] 1 mock_orch mock_world
     = Some (Ok (SliceValue_new (header_for mock_meta 4) (content_range (seed_for ''a'') 4 4)), orch', w')"
proof -
  obtain stats where u: "us_range (client_upstream sample_url_parse mock_client) (pl_service p) ''u'' [] 4 7 mock_world
      = (Ok mock_response, (sample_resolver, stats))"
    using mock_fetched by blast
  have v: "validators_match (meta_validators mock_meta) (response_validators mock_response)"
    by (simp add: mock_response_def mock_answer response_validators_def response_header_def hget_def etag_visible
        validators_match_def meta_validators_def mock_meta_def Validators_new_def strong_eq_def)
  have "\<exists>orch'. orch_slice ev p ''u'' [] 1 mock_orch mock_world
      = Some (Ok (SliceValue_new (header_for (pl_meta p) (or_slice_size mock_orch)) (up_body mock_response)), orch', (sample_resolver, stats))"
  proof (rule fresh_slice)
    show "us_range (or_upstream mock_orch) (pl_service p) ''u'' [] 4 7 mock_world = (Ok mock_response, (sample_resolver, stats))"
      using u by simp
    show "validators_match (meta_validators (pl_meta p)) (response_validators mock_response)" using v by (simp only: assms)
    show "slice_extent 1 (or_slice_size mock_orch) (pl_total_len p) = \<lparr>br_start = 4, br_end = 7\<rparr>"
      by (simp add: assms slice_extent_def saturating_sub_def)
    show "of_nat (length (up_body mock_response)) = range_len \<lparr>br_start = 4, br_end = 7\<rparr>"
      by (simp add: mock_response_def range_len_def)
  qed (simp_all add: assms mock_meta_def sample_meta_def)
  then show ?thesis by (auto simp: assms mock_response_def)
qed


end
