(* ===== verification/Testkit_Differ.thy ===== *)
theory Testkit_Differ
  imports "HOL-Library.Sublist" Testkit_Content
begin

text \<open>
  \<open>cachic-testkit/src/differ.rs\<close>: the differential tester. The generator is a function of its state, so a seed
  determines every case; comparing returns the mismatch already shrunk to a byte.
\<close>

section \<open>Generating cases\<close>

record Rng = rng_state :: u64

definition Rng_new :: "u64 \<Rightarrow> Rng" where "Rng_new seed = \<lparr>rng_state = seed\<rparr>"

definition next_u64 :: "Rng \<Rightarrow> u64 \<times> Rng" where
  "next_u64 rng =
    (let z0 = rng_state rng + 0x9E3779B97F4A7C15;
         z1 = (z0 XOR drop_bit 30 z0) * 0xBF58476D1CE4E5B9;
         z2 = (z1 XOR drop_bit 27 z1) * 0x94D049BB133111EB
     in (z2 XOR drop_bit 31 z2, rng\<lparr>rng_state := z0\<rparr>))"

definition below :: "u64 \<Rightarrow> Rng \<Rightarrow> u64 \<times> Rng" where
  "below n rng = (if n = 0 then (0, rng) else case next_u64 rng of (v, rng) \<Rightarrow> (v mod n, rng))"

record Case =
  ca_object :: string
  ca_size :: u64
  ca_start :: u64
  ca_end :: u64

definition case_len :: "Case \<Rightarrow> u64" where
  "case_len c = ca_end c - ca_start c + 1"

definition range_header :: "Case \<Rightarrow> string" where
  "range_header c = ''bytes='' @ show_word (ca_start c) @ ''-'' @ show_word (ca_end c)"

record Generator =
  ge_rng :: Rng
  ge_objects :: nat
  ge_size :: u64
  ge_slice_size :: u64

definition Generator_new :: "u64 \<Rightarrow> nat \<Rightarrow> u64 \<Rightarrow> u64 \<Rightarrow> Generator" where
  "Generator_new seed objects len slice_size =
    \<lparr>ge_rng = Rng_new seed, ge_objects = max objects 1, ge_size = len, ge_slice_size = slice_size\<rparr>"

text \<open>None is the panic of a division by zero.\<close>

definition boundary_range :: "u64 \<Rightarrow> Generator \<Rightarrow> ((u64 \<times> u64) \<times> Generator) option" where
  "boundary_range len g =
    (let s = ge_slice_size g; end' = len - 1
     in case below 6 (ge_rng g) of (k, rng) \<Rightarrow>
       if k = 0 then Some ((0, 0), g\<lparr>ge_rng := rng\<rparr>)
       else if k = 1 then Some ((end', end'), g\<lparr>ge_rng := rng\<rparr>)
       else if k = 2 then Some ((0, end'), g\<lparr>ge_rng := rng\<rparr>)
       else if s = 0 then None
       else if k = 3 then
         (case below (div_ceil len s) rng of (index, rng) \<Rightarrow>
            let start = index * s in Some ((min start end', min (start + s - 1) end'), g\<lparr>ge_rng := rng\<rparr>))
       else if k = 4 then
         (case below (max (div_ceil len s) 2 - 1) rng of (j, rng) \<Rightarrow>
            let edge = min ((1 + j) * s) end' in Some ((saturating_sub edge 1, min edge end'), g\<lparr>ge_rng := rng\<rparr>))
       else Some (((end' div s) * s, end'), g\<lparr>ge_rng := rng\<rparr>))"

definition next_case :: "Generator \<Rightarrow> (Case \<times> Generator) option" where
  "next_case g =
    (case below (of_nat (ge_objects g)) (ge_rng g) of (name, rng) \<Rightarrow>
     case below 3 rng of (kind, rng) \<Rightarrow>
       let len = ge_size g; g = g\<lparr>ge_rng := rng\<rparr>
       in map_option (\<lambda>((start, finish), g).
            (\<lparr>ca_object = ''obj-'' @ show_word name, ca_size = len, ca_start = start, ca_end = min finish (len - 1)\<rparr>, g))
          (if kind = 0 then boundary_range len g
           else
             case below len (ge_rng g) of (start, rng) \<Rightarrow>
             case below (len - start) rng of (k, rng) \<Rightarrow>
               let n = 1 + k in Some ((start, start + n - 1), g\<lparr>ge_rng := rng\<rparr>)))"

section \<open>Comparing\<close>

record Mismatch =
  mi_seed :: u64
  mi_case :: Case
  mi_offset :: u64
  mi_expected :: u8
  mi_actual :: u8
  mi_actual_len :: nat

primrec position :: "('a \<Rightarrow> bool) \<Rightarrow> 'a list \<Rightarrow> nat option" where
  "position P [] = None"
| "position P (x # xs) = (if P x then Some 0 else map_option Suc (position P xs))"

definition byte_or_zero :: "bytes \<Rightarrow> nat \<Rightarrow> u8" where
  "byte_or_zero bs i = (if i < length bs then bs ! i else 0)"

definition compare_case :: "u64 \<Rightarrow> Case \<Rightarrow> bytes \<Rightarrow> Mismatch + unit" where
  "compare_case seed c actual =
    (let expected = content_range (seed_for (ca_object c)) (ca_start c) (unat (case_len c))
     in case map_option of_nat (position (\<lambda>(a, b). a \<noteq> b) (zip expected actual)) of
          Some (offset :: u64) \<Rightarrow>
            Err \<lparr>mi_seed = seed, mi_case = c, mi_offset = offset, mi_expected = expected ! unat offset,
                 mi_actual = actual ! unat offset, mi_actual_len = length actual\<rparr>
        | None \<Rightarrow>
            if length actual \<noteq> length expected then
              let offset = (of_nat (min (length actual) (length expected)) :: u64)
              in Err \<lparr>mi_seed = seed, mi_case = c, mi_offset = offset, mi_expected = byte_or_zero expected (unat offset),
                      mi_actual = byte_or_zero actual (unat offset), mi_actual_len = length actual\<rparr>
            else Ok ())"

section \<open>Generated cases are ranges of the object\<close>

lemma below_less: "0 < n \<Longrightarrow> below n rng = (v, rng') \<Longrightarrow> v < n"
  by (auto simp: below_def word_less_nat_alt unat_mod split: prod.splits if_splits)

lemma div_ceil_nat:
  assumes "0 < s" "0 < (len :: u64)"
  shows "unat (div_ceil len s) = Suc ((unat len - 1) div unat s)"
proof -
  let ?q = "unat len div unat s" and ?r = "unat len mod unat s"
  have s: "0 < unat s" and l: "0 < unat len" using assms by (simp_all add: word_less_nat_alt)
  have d: "unat len = ?q * unat s + ?r" "?r < unat s" using s by simp_all
  show ?thesis
  proof (cases "?r = 0")
    case True
    then have "0 < ?q" using d l by (cases "?q") auto
    then obtain k where k: "?q = Suc k" by (cases "?q") auto
    have "unat len - 1 = k * unat s + (unat s - 1)" using d True k s by simp
    then have "(unat len - 1) div unat s = k" using s by (intro div_nat_eqI) (simp_all add: mult.commute)
    moreover have "\<not> 0 < len mod s" using True by (simp add: word_less_nat_alt unat_mod)
    ultimately show ?thesis using k by (simp add: div_ceil_def Let_def unat_div)
  next
    case False
    have "?q < 2 ^ 64 - 1"
    proof -
      have "?q < unat len" if "1 < unat s" using that l by simp
      moreover have "unat s \<noteq> 1" using False by auto
      ultimately show ?thesis using s unsigned_less [of len, where ?'a = nat] by force
    qed
    moreover have "0 < len mod s" using False by (simp add: word_less_nat_alt unat_mod)
    moreover have "(unat len - 1) div unat s = ?q"
    proof (rule div_nat_eqI)
      define q r where "q = ?q" and "r = ?r"
      then have "unat len = q * unat s + r" "r < unat s" "0 < r" using d False by simp_all
      then show "unat s * ?q \<le> unat len - 1" "unat len - 1 < unat s * Suc ?q"
        unfolding q_def [symmetric] by (simp_all add: mult.commute)
    qed
    ultimately show ?thesis by (simp add: div_ceil_def Let_def unat_word_ariths unat_div)
  qed
qed

lemma boundary_range_keeps:
  "ge_slice_size g \<noteq> 0 \<Longrightarrow> \<exists>r. boundary_range len g = Some r"
  "boundary_range len g = Some (r, g') \<Longrightarrow> ge_size g' = ge_size g \<and> ge_slice_size g' = ge_slice_size g"
  by (auto simp: boundary_range_def Let_def split: prod.split if_splits prod.splits)

lemma boundary_range_valid:
  assumes len: "0 < len" and fits: "unat len + unat (ge_slice_size g) \<le> 2 ^ 64"
    and r: "boundary_range len g = Some ((a, b), g')"
  shows "a \<le> b \<and> b \<le> len - 1"
proof -
  let ?s = "ge_slice_size g" let ?e = "len - 1"
  obtain k rng where k: "below 6 (ge_rng g) = (k, rng)" by fastforce
  have e: "unat ?e = unat len - 1" using len by (intro unat_pred) auto
  consider "k = 0" | "k = 1" | "k = 2" | "k = 3" "?s \<noteq> 0" | "k = 4" "?s \<noteq> 0" | "k \<notin> {0, 1, 2, 3, 4}" "?s \<noteq> 0"
    using r k by (auto simp: boundary_range_def Let_def split: if_splits)
  then show ?thesis
  proof cases
    case 4
    obtain index rng' where i: "below (div_ceil len ?s) rng = (index, rng')" by fastforce
    have s: "0 < ?s" using 4 by (simp add: word_gt_0)
    have dc: "unat (div_ceil len ?s) = Suc ((unat len - 1) div unat ?s)" by (rule div_ceil_nat [OF s len])
    then have "0 < div_ceil len ?s" by (simp add: word_less_nat_alt)
    then have "unat index \<le> (unat len - 1) div unat ?s" using below_less [OF _ i] dc by (simp add: word_less_nat_alt)
    then have "unat index * unat ?s \<le> (unat len - 1) div unat ?s * unat ?s" by (rule mult_le_mono1)
    also have "\<dots> \<le> unat len - 1" by (rule div_times_less_eq_dividend)
    finally have n: "unat index * unat ?s \<le> unat len - 1" .
    then have u: "unat (index * ?s) = unat index * unat ?s"
      using unsigned_less [of len, where ?'a = nat] by (simp add: unat_word_ariths)
    have p: "unat (?s - 1) = unat ?s - 1" using 4(2) by (rule unat_pred)
    have "unat (index * ?s) + unat (?s - 1) < 2 ^ 64"
      unfolding u p using n fits len by (simp add: word_less_nat_alt)
    then have "unat (index * ?s + (?s - 1)) = unat index * unat ?s + (unat ?s - 1)"
      unfolding u p by (simp add: unat_word_ariths u p)
    then have "unat (index * ?s + ?s - 1) = unat index * unat ?s + (unat ?s - 1)" by (simp add: add_diff_eq)
    then have "index * ?s \<le> index * ?s + ?s - 1" "index * ?s \<le> ?e" using u n e s by (simp_all add: word_le_nat_alt word_less_nat_alt)
    then show ?thesis using r k i 4 by (auto simp: boundary_range_def Let_def)
  next
    case 5
    then show ?thesis using r k
      by (auto simp: boundary_range_def Let_def word_le_nat_alt unat_saturating_sub unat_min split: prod.splits)
  next
    case 6
    have "unat (?e div ?s) * unat ?s \<le> unat ?e" by (simp add: unat_div)
    moreover from this have "unat (?e div ?s * ?s) = unat (?e div ?s) * unat ?s"
      using unsigned_less [of ?e, where ?'a = nat] by (simp add: unat_word_ariths)
    ultimately have "?e div ?s * ?s \<le> ?e" by (simp add: word_le_nat_alt)
    then show ?thesis using r k 6 by (auto simp: boundary_range_def Let_def)
  qed (use r k in \<open>auto simp: boundary_range_def Let_def\<close>)
qed

lemma next_case_valid:
  assumes "0 < ge_size g" "0 < ge_slice_size g" "unat (ge_size g) + unat (ge_slice_size g) \<le> 2 ^ 64"
  shows "\<exists>c g'. next_case g = Some (c, g') \<and> ca_start c \<le> ca_end c \<and> ca_end c < ca_size c \<and> ca_size c = ge_size g
    \<and> 0 < case_len c \<and> ge_size g' = ge_size g \<and> ge_slice_size g' = ge_slice_size g"
proof -
  let ?len = "ge_size g"
  obtain name rng where o: "below (of_nat (ge_objects g)) (ge_rng g) = (name, rng)" by fastforce
  obtain kind rng' where k: "below 3 rng = (kind, rng')" by fastforce
  let ?g = "g\<lparr>ge_rng := rng'\<rparr>"
  have e: "unat (?len - 1) = unat ?len - 1" using assms(1) by (intro unat_pred) auto
  have "\<exists>a b g'. (if kind = 0 then boundary_range ?len ?g
           else
             case below ?len rng' of (start, rng) \<Rightarrow>
             case below (?len - start) rng of (k, rng) \<Rightarrow>
               let n = 1 + k in Some ((start, start + n - 1), ?g\<lparr>ge_rng := rng\<rparr>)) = Some ((a, b), g')
      \<and> a \<le> b \<and> b \<le> ?len - 1 \<and> ge_size g' = ?len \<and> ge_slice_size g' = ge_slice_size g"
  proof (cases "kind = 0")
    case True
    obtain a b g' where r: "boundary_range ?len ?g = Some ((a, b), g')" "ge_size g' = ?len" "ge_slice_size g' = ge_slice_size g"
      using boundary_range_keeps(1) [of ?g ?len] boundary_range_keeps(2) [of ?len ?g] assms(2) by (fastforce simp: word_gt_0)
    then show ?thesis using boundary_range_valid [OF assms(1) _ r(1)] assms(3) True by auto
  next
    case False
    obtain start rng1 where s: "below ?len rng' = (start, rng1)" by fastforce
    obtain j rng2 where j: "below (?len - start) rng1 = (j, rng2)" by fastforce
    have l: "start < ?len" by (rule below_less [OF assms(1) s])
    then have d: "unat (?len - start) = unat ?len - unat start" by (simp add: unat_sub order_less_imp_le)
    then have "0 < ?len - start" using l by (simp add: word_less_nat_alt)
    then have "unat j < unat ?len - unat start" using below_less [OF _ j] d by (simp add: word_less_nat_alt)
    then have u: "unat (start + j) = unat start + unat j" "unat start + unat j \<le> unat ?len - 1"
      using unsigned_less [of ?len, where ?'a = nat] by (simp_all add: unat_word_ariths)
    then have "start \<le> start + j" "start + j \<le> ?len - 1" using e by (simp_all add: word_le_nat_alt)
    then show ?thesis using False s j by simp
  qed
  then obtain a b g' where r: "next_case g = Some (\<lparr>ca_object = ''obj-'' @ show_word name, ca_size = ?len, ca_start = a, ca_end = min b (?len - 1)\<rparr>, g')"
    and ab: "a \<le> b" "b \<le> ?len - 1" and g': "ge_size g' = ?len" "ge_slice_size g' = ge_slice_size g"
    unfolding next_case_def o k prod.case Let_def by fastforce
  have "unat (b - a + 1) = unat b - unat a + 1"
    using ab e assms(1) unsigned_less [of ?len, where ?'a = nat] by (simp add: unat_word_ariths unat_sub word_le_nat_alt word_less_nat_alt)
  then have "0 < b - a + 1" by (simp add: word_less_nat_alt)
  then show ?thesis using r ab g' e assms(1) by (auto simp: case_len_def word_less_nat_alt word_le_nat_alt)
qed

text \<open>
  C38: every generated case is a range of its object. From any seed, for an object that is not empty and a slice size
  that is not zero and does not wrap with it, the next case exists, starts no later than it ends, ends
  within the object and covers at least one byte, and the generator keeps its parameters.
\<close>

theorem generated_case_valid:
  assumes "0 < ge_size g" "0 < ge_slice_size g" "unat (ge_size g) + unat (ge_slice_size g) \<le> 2 ^ 64"
  shows "\<exists>c g'. next_case g = Some (c, g') \<and> ca_start c \<le> ca_end c \<and> ca_end c < ca_size c \<and> ca_size c = ge_size g
    \<and> 0 < case_len c \<and> ge_size g' = ge_size g \<and> ge_slice_size g' = ge_slice_size g"
  by (rule next_case_valid [OF assms])

definition sample_generator :: Generator where
  "sample_generator = Generator_new 7 3 10 4"

theorem generated_case_valid_witness:
  "\<exists>c g'. next_case sample_generator = Some (c, g') \<and> ca_start c \<le> ca_end c \<and> ca_end c < 10"
  using generated_case_valid [of sample_generator] by (auto simp: sample_generator_def Generator_new_def)

section \<open>Comparing is exact\<close>

lemma position_zip:
  "position (\<lambda>(a, b). a \<noteq> b) (zip xs ys) =
    (let k = length (longest_common_prefix xs ys) in if k < min (length xs) (length ys) then Some k else None)"
  by (induction xs ys rule: longest_common_prefix.induct) (auto simp: Let_def split: if_splits)

lemma common_prefix_all:
  "length (longest_common_prefix xs ys) \<le> min (length xs) (length ys)"
  "length xs = length ys \<Longrightarrow> \<not> length (longest_common_prefix xs ys) < length xs \<Longrightarrow> xs = ys"
  by (induction xs ys rule: longest_common_prefix.induct) (auto split: if_splits)

lemma common_prefix_self [simp]: "longest_common_prefix xs xs = xs"
  by (induction xs) auto

text \<open>
  The comparison is exact and shrinks fully. A response passes if and only if it is the content of the range; a
  mismatch names the offset up to which the two agree and no further, with the bytes found there, or
  zero past the end of the shorter one.
\<close>

theorem compare_is_exact:
  defines "expected \<equiv> \<lambda>c. content_range (seed_for (ca_object c)) (ca_start c) (unat (case_len c))"
  shows "(compare_case seed c actual = Ok () \<longleftrightarrow> actual = expected c)
    \<and> (\<forall>m. compare_case seed c actual = Err m \<longrightarrow>
         (let k = length (longest_common_prefix (expected c) actual)
          in mi_seed m = seed \<and> mi_case m = c \<and> mi_actual_len m = length actual \<and> unat (mi_offset m) = k
             \<and> mi_expected m = byte_or_zero (expected c) k \<and> mi_actual m = byte_or_zero actual k))"
proof -
  let ?k = "length (longest_common_prefix (expected c) actual)"
  have le: "length (expected c) = unat (case_len c)" by (simp add: expected_def)
  have small: "unat (of_nat n :: u64) = n" if "n \<le> length (expected c)" for n
    using that le unsigned_less [of "case_len c", where ?'a = nat] by (simp add: unsigned_of_nat take_bit_eq_mod)
  note k = common_prefix_all [of "expected c" actual]
  show ?thesis
  proof (cases "?k < min (length (expected c)) (length actual)")
    case True
    then have "compare_case seed c actual
        = Err \<lparr>mi_seed = seed, mi_case = c, mi_offset = of_nat ?k, mi_expected = expected c ! ?k, mi_actual = actual ! ?k, mi_actual_len = length actual\<rparr>"
      using small [of ?k] by (simp add: compare_case_def position_zip Let_def expected_def)
    moreover have "actual \<noteq> expected c" using True by auto
    ultimately show ?thesis using True small [of ?k] by (auto simp: Let_def byte_or_zero_def)
  next
    case False
    then have m: "?k = min (length (expected c)) (length actual)" using k(1) by linarith
    have pos: "position (\<lambda>(a, b). a \<noteq> b) (zip (expected c) actual) = None" unfolding position_zip Let_def using False by simp
    have c: "compare_case seed c actual =
        (if length actual \<noteq> length (expected c) then
           Err \<lparr>mi_seed = seed, mi_case = c, mi_offset = of_nat ?k, mi_expected = byte_or_zero (expected c) ?k,
                mi_actual = byte_or_zero actual ?k, mi_actual_len = length actual\<rparr>
         else Ok ())"
      using pos small [of ?k] m by (simp add: compare_case_def Let_def expected_def min.commute)
    have same: "actual = expected c \<longleftrightarrow> length actual = length (expected c)"
    proof
      assume l: "length actual = length (expected c)"
      have "\<not> ?k < length (expected c)" unfolding m l by simp
      then show "actual = expected c" by (rule k(2) [OF l [symmetric], symmetric])
    qed simp
    have "unat (of_nat ?k :: u64) = ?k" by (rule small) (simp add: m)
    then show ?thesis unfolding c same Let_def by simp
  qed
qed

theorem compare_is_exact_witness:
  "\<exists>m. compare_case 7 \<lparr>ca_object = ''obj-0'', ca_size = 4, ca_start = 1, ca_end = 2\<rparr> [] = Err m \<and> unat (mi_offset m) = 0"
proof -
  let ?c = "\<lparr>ca_object = ''obj-0'', ca_size = 4, ca_start = 1, ca_end = 2\<rparr>"
  have "content_range (seed_for ''obj-0'') 1 (unat (case_len ?c)) \<noteq> []"
    using length_content [of "seed_for ''obj-0''" 1 "unat (case_len ?c)"] by (auto simp: case_len_def simp del: length_content)
  then show ?thesis
    using compare_is_exact [of 7 ?c "[]"] by (cases "compare_case 7 ?c []") (auto simp: Let_def)
qed

end
