(* ===== verification/Testkit_MockDns.thy ===== *)
theory Testkit_MockDns
  imports Rust_Net
begin

text \<open>
  \<open>cachic-testkit/src/mockdns.rs\<close>: the DNS responder of the tests, on one datagram. The buffer the socket reads into
  has 512 bytes; sending and receiving are the sockets. A slice past the end of the datagram panics.
\<close>

datatype responded = Answered bytes | Dropped | Panicked

primrec octets :: "Ipv4Addr \<Rightarrow> bytes" where
  "octets (V4 a b c d) = [a, b, c, d]"

text \<open>The position after the root label of the question, from a position at a label.\<close>

function walk_labels :: "bytes \<Rightarrow> nat \<Rightarrow> nat option" where
  "walk_labels query at =
    (if at < length query then
       let len = unat (query ! at)
       in if len = 0 then Some (at + 1)
          else if len AND 0xc0 \<noteq> 0 then None
          else walk_labels query (at + 1 + len)
     else None)"
  by pat_completeness auto
termination by (relation "measure (\<lambda>(query, at). length query - at)") auto

declare walk_labels.simps [simp del]

definition dns_answer :: "Ipv4Addr \<Rightarrow> bytes" where
  "dns_answer answer =
    [0xc0, 0x0c] @ to_be_bytes (1 :: u16) @ to_be_bytes (1 :: u16) @ to_be_bytes (30 :: u32) @ to_be_bytes (4 :: u16) @ octets answer"

definition respond :: "bytes \<Rightarrow> Ipv4Addr \<Rightarrow> responded" where
  "respond query answer =
    (if length query < 12 then Dropped
     else if (from_be_bytes [query ! 4, query ! 5] :: u16) \<noteq> 1 then Dropped
     else
       case walk_labels query 12 of
         None \<Rightarrow> Dropped
       | Some at \<Rightarrow>
           if length query \<le> at + 1 then Dropped
           else if length query < at + 4 then Panicked
           else
             let qtype = (from_be_bytes [query ! at, query ! (at + 1)] :: u16);
                 question = take (at + 4 - 12) (drop 12 query);
                 answer_count = (if qtype = 1 then 1 else 0 :: u16)
             in Answered ([query ! 0, query ! 1] @ [0x81, 0x80] @ to_be_bytes (1 :: u16) @ to_be_bytes answer_count
                  @ to_be_bytes (0 :: u16) @ to_be_bytes (0 :: u16) @ question
                  @ (if answer_count = 1 then dns_answer answer else [])))"

section \<open>Questions\<close>

definition dns_name :: "bytes list \<Rightarrow> bytes" where
  "dns_name labels = concat (map (\<lambda>l. of_nat (length l) # l) labels) @ [0]"

lemma walk_labels_name:
  assumes "\<forall>l \<in> set labels. l \<noteq> [] \<and> length l < 64"
  shows "walk_labels (pre @ dns_name labels @ rest) (length pre) = Some (length pre + length (dns_name labels))"
  using assms
proof (induction labels arbitrary: pre)
  case Nil
  show ?case by (subst walk_labels.simps) (simp add: dns_name_def)
next
  case (Cons l labels)
  let ?q = "pre @ dns_name (l # labels) @ rest"
  have n: "unat (of_nat (length l) :: u8) = length l" using Cons.prems by (simp add: unsigned_of_nat take_bit_eq_mod)
  have a: "length l AND 0xc0 = 0"
  proof -
    have "length l = take_bit 6 (length l)" using Cons.prems by (simp add: take_bit_nat_eq_self)
    then have "length l AND 0xc0 = length l AND (mask 6 AND 0xc0)" by (metis and.assoc take_bit_eq_mask)
    also have "(mask 6 AND 0xc0 :: nat) = 0" by (simp add: mask_eq_exp_minus_1)
    finally show ?thesis by simp
  qed
  have "?q ! length pre = of_nat (length l)" "length pre < length ?q" by (simp_all add: dns_name_def)
  then have "walk_labels ?q (length pre) = walk_labels ?q (length pre + 1 + length l)"
    using n a Cons.prems by (subst walk_labels.simps) (simp add: Let_def)
  also have "?q = (pre @ of_nat (length l) # l) @ dns_name labels @ rest" by (simp add: dns_name_def)
  also have "length pre + 1 + length l = length (pre @ (of_nat (length l) :: u8) # l)" by simp
  also have "walk_labels ((pre @ of_nat (length l) # l) @ dns_name labels @ rest) (length (pre @ (of_nat (length l) :: u8) # l))
      = Some (length (pre @ (of_nat (length l) :: u8) # l) + length (dns_name labels))"
    using Cons.IH [of "pre @ of_nat (length l) # l"] Cons.prems by simp
  finally show ?case by (simp add: dns_name_def)
qed

text \<open>
  The responder answers every question, and panics on a truncated one. To a query with one question, whatever its
  identifier, flags, counts and name, it repeats the identifier and the question and answers an A query
  with the configured address and any other with none; if the datagram ends within the class of the
  question it panics, although it means to drop what it cannot answer.
\<close>

theorem question_answered:
  assumes "\<forall>l \<in> set labels. l \<noteq> [] \<and> length l < 64" "length counts = 6"
  shows "respond ([i, j, f, g, 0, 1] @ counts @ dns_name labels @ to_be_bytes (qtype :: u16) @ tail) answer =
    (if length tail < 2 then Panicked
     else Answered ([i, j, 0x81, 0x80, 0, 1, 0, if qtype = 1 then 1 else 0, 0, 0, 0, 0]
            @ dns_name labels @ to_be_bytes qtype @ take 2 tail
            @ (if qtype = 1 then [0xc0, 0x0c, 0, 1, 0, 1, 0, 0, 0, 30, 0, 4] @ octets answer else [])))"
proof -
  let ?h = "[i, j, f, g, 0, 1] @ counts"
  let ?q = "?h @ dns_name labels @ to_be_bytes qtype @ tail"
  let ?at = "12 + length (dns_name labels)"
  have h: "length ?h = 12" using assms(2) by simp
  have w: "walk_labels ?q 12 = Some ?at"
    using walk_labels_name [OF assms(1), of ?h "to_be_bytes qtype @ tail"] h by simp
  have one: "from_be_bytes [?q ! 4, ?q ! 5] = (1 :: u16)" by (simp add: from_be_bytes_def)
  obtain a b where ab: "to_be_bytes qtype = [a, b]"
    using length_to_be_bytes [of qtype] by (auto simp: length_Suc_conv numeral_2_eq_2 simp del: length_to_be_bytes)
  have nth: "?q ! ?at = a" "?q ! (?at + 1) = b"
    unfolding append_assoc [symmetric] using h by (simp_all add: nth_append ab)
  have q: "from_be_bytes [?q ! ?at, ?q ! (?at + 1)] = qtype"
    unfolding nth using le_bytes_inverse(3) [of qtype] by (simp add: ab)
  have t: "take (?at + 4 - 12) (drop 12 ?q) = dns_name labels @ to_be_bytes qtype @ take 2 tail"
    using h by (simp add: ab)
  have len: "length ?q = ?at + 2 + length tail" using h by simp
  have c: "to_be_bytes (0 :: u16) = [0, 0]" "to_be_bytes (1 :: u16) = [0, 1]" "to_be_bytes (4 :: u16) = [0, 4]"
    "to_be_bytes (30 :: u32) = [0, 0, 0, 30]"
    by (simp_all add: to_be_bytes_def to_le_bytes_def upt_rec)
  show ?thesis
    using one w len q t by (simp add: respond_def Let_def c dns_answer_def)
qed

theorem question_answered_witness:
  "respond ([7, 9, 1, 0, 0, 1, 0, 0, 0, 0, 0, 0] @ dns_name [[97]] @ to_be_bytes (1 :: u16) @ [0, 1]) (V4 10 0 0 1)
     = Answered ([7, 9, 0x81, 0x80, 0, 1, 0, 1, 0, 0, 0, 0] @ dns_name [[97]] @ to_be_bytes (1 :: u16) @ [0, 1]
         @ [0xc0, 0x0c, 0, 1, 0, 1, 0, 0, 0, 30, 0, 4, 10, 0, 0, 1])"
  using question_answered [of "[[97]]" "[0, 0, 0, 0, 0, 0]" 7 9 1 0 1 "[0, 1]" "V4 10 0 0 1"] by simp

end
