(* ===== verification/Testkit_Loadgen.thy ===== *)
theory Testkit_Loadgen
  imports "HOL-Library.Multiset" Rust_Prelude
begin

text \<open>
  \<open>cachic-testkit/src/loadgen.rs\<close>: collecting samples and exact percentiles. Durations are nanoseconds. The rank
  \<open>(p * n).ceil()\<close> is computed in floating point; it is an argument, the rank for a number of samples.
  The throughput figures are floating-point divisions and are not modelled.
\<close>

record Collector =
  co_bytes :: u64
  co_requests :: nat
  co_ttfb :: "nat list"

record Report =
  rp_requests :: nat
  rp_bytes :: u64
  rp_elapsed :: nat
  rp_ttfb :: "nat list"

definition Collector_new :: Collector where
  "Collector_new = \<lparr>co_bytes = 0, co_requests = 0, co_ttfb = []\<rparr>"

definition record_sample :: "u64 \<Rightarrow> nat \<Rightarrow> Collector \<Rightarrow> Collector" where
  "record_sample bytes ttfb c =
    c\<lparr>co_bytes := co_bytes c + bytes, co_requests := co_requests c + 1, co_ttfb := co_ttfb c @ [ttfb]\<rparr>"

definition finish :: "nat \<Rightarrow> Collector \<Rightarrow> Report" where
  "finish elapsed c =
    \<lparr>rp_requests = co_requests c, rp_bytes = co_bytes c, rp_elapsed = elapsed, rp_ttfb = sort (co_ttfb c)\<rparr>"

definition ttfb_percentile :: "(nat \<Rightarrow> nat) \<Rightarrow> Report \<Rightarrow> nat" where
  "ttfb_percentile rank r =
    (if rp_ttfb r = [] then 0
     else
       let n = length (rp_ttfb r);
           index = min (rank n - 1) (n - 1)
       in rp_ttfb r ! index)"

section \<open>Percentiles\<close>

definition collected :: "(u64 \<times> nat) list \<Rightarrow> Collector" where
  "collected samples = foldl (\<lambda>c (bytes, ttfb). record_sample bytes ttfb c) Collector_new samples"

lemma collected_append:
  "foldl (\<lambda>c (bytes, ttfb). record_sample bytes ttfb c) c samples =
    c\<lparr>co_bytes := co_bytes c + sum_list (map fst samples), co_requests := co_requests c + length samples,
      co_ttfb := co_ttfb c @ map snd samples\<rparr>"
  by (induction samples arbitrary: c) (auto simp: record_sample_def add.assoc)

lemma sorted_rank:
  assumes "sorted xs" "k < length xs"
  shows "Suc k \<le> length (filter (\<lambda>x. x \<le> xs ! k) xs)" "length (filter (\<lambda>x. x < xs ! k) xs) \<le> k"
proof -
  have t: "set (take (Suc k) xs) \<subseteq> {x. x \<le> xs ! k}" "set (drop k xs) \<subseteq> {x. xs ! k \<le> x}"
    using assms by (auto simp: in_set_conv_nth sorted_iff_nth_mono less_Suc_eq_le)
  have "filter (\<lambda>x. x \<le> xs ! k) (take (Suc k) xs) = take (Suc k) xs" using t(1) by (auto simp: filter_id_conv)
  then have "length (take (Suc k) xs) \<le> length (filter (\<lambda>x. x \<le> xs ! k) xs)"
    by (metis append_take_drop_id filter_append le_add1 length_append)
  then show "Suc k \<le> length (filter (\<lambda>x. x \<le> xs ! k) xs)" using assms(2) by simp
  have "filter (\<lambda>x. x < xs ! k) (drop k xs) = []" using t(2) by (auto simp: filter_empty_conv)
  then have "filter (\<lambda>x. x < xs ! k) xs = filter (\<lambda>x. x < xs ! k) (take k xs)"
    by (metis append_Nil2 append_take_drop_id filter_append)
  then show "length (filter (\<lambda>x. x < xs ! k) xs) \<le> k" by (metis length_filter_le length_take min.bounded_iff)
qed

text \<open>
  Percentiles are exact whatever order the workers report in. A report counts every sample and its bytes; the
  percentile of a rank between one and the number of samples is the smallest sample with at least that
  many at or below it, and reports of the same samples in another order agree.
\<close>

theorem percentile_is_nearest_rank:
  fixes elapsed :: nat
  assumes "rank (length samples) = Suc k" "k < length samples"
  defines "v \<equiv> ttfb_percentile rank (finish elapsed (collected samples))"
  shows "rp_requests (finish elapsed (collected samples)) = length samples
    \<and> rp_bytes (finish elapsed (collected samples)) = sum_list (map fst samples)
    \<and> v \<in> snd ` set samples
    \<and> Suc k \<le> length (filter (\<lambda>s. snd s \<le> v) samples) \<and> length (filter (\<lambda>s. snd s < v) samples) \<le> k
    \<and> (mset samples' = mset samples \<longrightarrow> finish elapsed (collected samples') = finish elapsed (collected samples))"
proof -
  have c: "co_ttfb (collected xs) = map snd xs" "co_requests (collected xs) = length xs" "co_bytes (collected xs) = sum_list (map fst xs)" for xs
    by (simp_all add: collected_def collected_append Collector_new_def)
  let ?s = "sort (map snd samples)"
  have "?s \<noteq> []" using assms(2) by (metis length_map length_sort list.size(3) not_less_zero)
  then have v: "v = ?s ! k" using assms(1,2) by (auto simp: v_def ttfb_percentile_def finish_def c Let_def min_def)
  have count: "length (filter P ?s) = length (filter (\<lambda>s. P (snd s)) samples)" for P
    by (simp add: filter_sort filter_map o_def)
  have "?s ! k \<in> set ?s" using assms(2) by (intro nth_mem) simp
  then have "v \<in> snd ` set samples" using v by simp
  moreover have "Suc k \<le> length (filter (\<lambda>s. snd s \<le> v) samples)" "length (filter (\<lambda>s. snd s < v) samples) \<le> k"
    using sorted_rank [of ?s k] assms(2) unfolding count v by simp_all
  moreover have "finish elapsed (collected samples') = finish elapsed (collected samples)" if m: "mset samples' = mset samples"
  proof -
    have "mset (map snd samples') = mset (map snd samples)" "mset (map fst samples') = mset (map fst samples)"
      using m by (simp_all add: mset_map)
    then have "sort (map snd samples') = sort (map snd samples)" "sum_list (map fst samples') = sum_list (map fst samples)"
      by (metis properties_for_sort mset_sort sorted_sort) (metis \<open>mset (map fst samples') = _\<close> sum_mset_sum_list)
    moreover have "length samples' = length samples" using m by (rule mset_eq_length)
    ultimately show ?thesis by (simp add: finish_def c)
  qed
  ultimately show ?thesis by (simp add: finish_def c)
qed

theorem percentile_is_nearest_rank_witness:
  "ttfb_percentile (\<lambda>n. 2) (finish 5 (collected [(1, 30), (1, 10), (1, 20)])) \<in> {30, 10, 20 :: nat}"
proof -
  have "(\<lambda>n :: nat. 2 :: nat) (length [(1 :: u64, 30 :: nat), (1, 10), (1, 20)]) = Suc 1" "1 < length [(1 :: u64, 30 :: nat), (1, 10), (1, 20)]"
    by simp_all
  from percentile_is_nearest_rank [OF this, of 5 "[]", THEN conjunct2, THEN conjunct2, THEN conjunct1]
  show ?thesis by simp
qed

end
