(* ===== verification/Spike_Proxy.thy ===== *)
theory Spike_Proxy
  imports Upstream_Served
begin

text \<open>
  The prototype under \<open>spike/\<close>: one proxy in front of one origin. Its range and slice modules are those of
  \<open>proxy/range.rs\<close> and \<open>store/slice.rs\<close> except for \<open>plan\<close>, which truncates, so the definitions there are used here. The HTTP
  client and the cache engine are the same parameters; the fetch handed to the engine acts on the
  network and the counters. The text of an error is the function \<open>display\<close>. A panic is \<open>None\<close>.
\<close>

section \<open>Data\<close>

definition spike_plan :: "ByteRange \<Rightarrow> u32 \<Rightarrow> SlicePlan" where
  "spike_plan r slice_size =
    (let s = ucast slice_size :: u64 in
     \<lparr>sp_first = ucast (br_start r div s), sp_last = ucast (br_end r div s), sp_slice_size = slice_size\<rparr>)"

record SpikeStoreConfig =
  sc_memory_bytes :: nat
  sc_disk_bytes :: nat
  sc_block_bytes :: nat
  sc_direct_io :: bool

definition SpikeStoreConfig_default :: SpikeStoreConfig where
  "SpikeStoreConfig_default =
    \<lparr>sc_memory_bytes = 64 * 1024 * 1024, sc_disk_bytes = 1024 * 1024 * 1024, sc_block_bytes = 16 * 1024 * 1024, sc_direct_io = True\<rparr>"

record SpikeEngine =
  se_dir :: string
  se_capacity :: nat
  se_direct :: bool
  se_write_on_insertion :: bool
  se_memory :: nat
  se_weighter :: "SliceKey \<Rightarrow> SliceValue \<Rightarrow> nat"
  se_block_size :: nat

definition spike_open ::
  "('s, 'e) foyer \<Rightarrow> (SpikeEngine \<Rightarrow> string + 's) \<Rightarrow> (string \<Rightarrow> string + unit) \<Rightarrow> string \<Rightarrow> SpikeStoreConfig \<Rightarrow>
   string + ('s, 'e) SliceStore" where
  "spike_open F build create_dir_all dir config =
    rbind (create_dir_all dir) (\<lambda>_.
      rbind (build
        \<lparr>se_dir = dir, se_capacity = sc_disk_bytes config, se_direct = sc_direct_io config, se_write_on_insertion = True,
         se_memory = sc_memory_bytes config, se_weighter = (\<lambda>k v. 16 + 4 + 4 + length (sv_payload v)),
         se_block_size = sc_block_bytes config\<rparr>) (\<lambda>inner.
        Ok \<lparr>ss_ops = F, ss_state = inner\<rparr>))"

definition spike_get_or_fetch ::
  "('s, 'e) SliceStore \<Rightarrow> SliceKey \<Rightarrow> ('e \<Rightarrow> (string + SliceValue) \<times> 'e) \<Rightarrow> 'e \<Rightarrow>
   (string + SliceValue) \<times> ('s, 'e) SliceStore \<times> 'e" where
  "spike_get_or_fetch st key fetch e =
    (case fo_get_or_fetch (ss_ops st) (ss_state st) key fetch e of (r, s, e) \<Rightarrow> (r, st\<lparr>ss_state := s\<rparr>, e))"

definition spike_contains :: "('s, 'e) SliceStore \<Rightarrow> SliceKey \<Rightarrow> bool" where
  "spike_contains st key = fo_contains (ss_ops st) (ss_state st) key"

definition spike_close :: "('s, 'e) SliceStore \<Rightarrow> string + ('s, 'e) SliceStore" where
  "spike_close st = rbind (fo_close (ss_ops st) (ss_state st)) (\<lambda>s. Ok (st\<lparr>ss_state := s\<rparr>))"

record SpikeConfig =
  sk_listen :: SocketAddr
  sk_origin :: string
  sk_slice_size :: u32
  sk_readahead :: nat
  sk_data_dir :: string
  sk_store :: SpikeStoreConfig
  sk_upstream_timeout :: nat

definition SpikeConfig_new :: "string \<Rightarrow> string \<Rightarrow> SpikeConfig" where
  "SpikeConfig_new origin data_dir =
    \<lparr>sk_listen = \<lparr>sa_ip = IpV4 (V4 127 0 0 1), sa_port = 0\<rparr>, sk_origin = origin, sk_slice_size = 1024 * 1024, sk_readahead = 4,
     sk_data_dir = data_dir, sk_store = SpikeStoreConfig_default, sk_upstream_timeout = 30\<rparr>"

record SpikeMeta =
  pm_total_len :: u64
  pm_generation :: u32
  pm_etag :: "string option"
  pm_last_modified :: "string option"
  pm_content_type :: "string option"
  pm_no_ranges :: bool

record ProxyStats =
  ps_requests :: u64
  ps_probes :: u64
  ps_upstream_slice_fetches :: u64
  ps_full_object_fills :: u64

definition ProxyStats_default :: ProxyStats where
  "ProxyStats_default = \<lparr>ps_requests = 0, ps_probes = 0, ps_upstream_slice_fetches = 0, ps_full_object_fills = 0\<rparr>"

text \<open>The fetch given to the engine sees the network and the counters.\<close>

type_synonym 'w fetch_world = "'w \<times> ProxyStats"

record ('s, 'w) Inner =
  in_store :: "('s, 'w fetch_world) SliceStore"
  in_client :: "'w http"
  in_origin :: string
  in_slice_size :: u32
  in_readahead :: nat
  in_objects :: "ObjectId \<rightharpoonup> SpikeMeta option"
  in_stats :: ProxyStats
  in_hostname :: string

datatype spike_error =
    SpikeSend TransportError
  | SpikeBody TransportError
  | PartialWithoutRange
  | UnsatisfiableWithoutRange
  | NoContentLength
  | ProbeFailed nat
  | SliceNotPartial u32 nat
  | SliceChanged u32 "string option" "string option"
  | SliceLength u32 u64 nat
  | FullFetchFailed nat
  | SpikeStoreFailed string
  | ShortPayload u32 nat nat nat

section \<open>Fetching\<close>

definition spike_hostname :: "string option \<Rightarrow> string" where
  "spike_hostname etc_hostname = (case etc_hostname of Some s \<Rightarrow> trim s | None \<Rightarrow> ''cachic'')"

definition header_string :: "headers \<Rightarrow> string \<Rightarrow> string option" where
  "header_string hs name = Option.bind (hget hs name) to_str"

definition parse_content_range_total :: "string \<Rightarrow> u64 option" where
  "parse_content_range_total v = Option.bind (rsplit_once (CHR ''/'') v) (\<lambda>(_, t). parse_u64 (trim t))"

definition spike_header_for :: "SpikeMeta \<Rightarrow> u32 \<Rightarrow> SliceHeader" where
  "spike_header_for meta slice_size =
    \<lparr>sh_slice_size = slice_size, sh_total_len = pm_total_len meta, sh_generation = pm_generation meta,
     sh_etag = pm_etag meta, sh_last_modified = pm_last_modified meta, sh_content_type = pm_content_type meta\<rparr>"

text \<open>The body of a response, all of it.\<close>

primrec body_bytes :: "(TransportError + u8 list) list \<Rightarrow> TransportError + u8 list" where
  "body_bytes [] = Ok []"
| "body_bytes (c # cs) = rbind c (\<lambda>bs. rbind (body_bytes cs) (\<lambda>rest. Ok (bs @ rest)))"

definition spike_store_slice ::
  "ObjectId \<Rightarrow> SpikeMeta \<Rightarrow> u32 \<Rightarrow> u8 list \<Rightarrow> ('s, 'w) Inner \<Rightarrow> 'w \<Rightarrow> (spike_error + unit) \<times> ('s, 'w) Inner \<times> 'w" where
  "spike_store_slice object meta index payload inner w =
    (case spike_get_or_fetch (in_store inner) (SliceKey_new object (pm_generation meta) index)
            (\<lambda>e. (Ok (SliceValue_new (spike_header_for meta (in_slice_size inner)) payload), e)) (w, in_stats inner) of
       (r, st, (w, stats)) \<Rightarrow>
         (rbind (map_err SpikeStoreFailed r) (\<lambda>_. Ok ()), inner\<lparr>in_store := st, in_stats := stats\<rparr>, w))"

definition spike_probe ::
  "string \<Rightarrow> ObjectId \<Rightarrow> u32 \<Rightarrow> ('s, 'w) Inner \<Rightarrow> 'w \<Rightarrow> (spike_error + SpikeMeta) \<times> ('s, 'w) Inner \<times> 'w" where
  "spike_probe path object index inner w =
    (let inner = inner\<lparr>in_stats := (in_stats inner)\<lparr>ps_probes := ps_probes (in_stats inner) + 1\<rparr>\<rparr>;
         start = (ucast index :: u64) * ucast (in_slice_size inner);
         finish = start + ucast (in_slice_size inner) - 1;
         url = in_origin inner @ path
     in case in_client inner (range_request url [] start finish) w of
          (Inl e, w) \<Rightarrow> (Err (SpikeSend e), inner, w)
        | (Inr response, w) \<Rightarrow>
            let hs = hr_headers response;
                meta = (\<lambda>len no_ranges.
                  \<lparr>pm_total_len = len, pm_generation = 0, pm_etag = header_string hs ''etag'',
                   pm_last_modified = header_string hs ''last-modified'', pm_content_type = header_string hs ''content-type'',
                   pm_no_ranges = no_ranges\<rparr>);
                len = Option.bind (header_string hs ''content-range'') parse_content_range_total
            in if hr_status response = 206 then
                 (case len of
                    None \<Rightarrow> (Err PartialWithoutRange, inner, w)
                  | Some n \<Rightarrow>
                      (case body_bytes (hr_chunks response) of
                         Inl e \<Rightarrow> (Err (SpikeBody e), inner, w)
                       | Inr body \<Rightarrow>
                           (case spike_store_slice object (meta n False) index body inner w of
                              (Inl e, inner, w) \<Rightarrow> (Err e, inner, w)
                            | (Inr _, inner, w) \<Rightarrow>
                                (Ok (meta n False),
                                 inner\<lparr>in_stats := (in_stats inner)\<lparr>ps_upstream_slice_fetches := ps_upstream_slice_fetches (in_stats inner) + 1\<rparr>\<rparr>,
                                 w))))
               else if hr_status response = 416 then
                 (rbind (ok_or UnsatisfiableWithoutRange len) (\<lambda>n. Ok (meta n False)), inner, w)
               else if is_success (hr_status response) then
                 (rbind (ok_or NoContentLength (hr_content_length response)) (\<lambda>n. Ok (meta n True)), inner, w)
               else (Err (ProbeFailed (hr_status response)), inner, w))"

text \<open>The fetch of a slice, given to the engine for a miss.\<close>

definition spike_fetch ::
  "'w http \<Rightarrow> string \<Rightarrow> SpikeMeta \<Rightarrow> SliceHeader \<Rightarrow> u32 \<Rightarrow> ByteRange \<Rightarrow> 'w fetch_world \<Rightarrow> (spike_error + SliceValue) \<times> 'w fetch_world" where
  "spike_fetch client url meta header index extent e =
    (let stats = (snd e)\<lparr>ps_upstream_slice_fetches := ps_upstream_slice_fetches (snd e) + 1\<rparr>
     in case client (range_request url [] (br_start extent) (br_end extent)) (fst e) of
          (Inl err, w) \<Rightarrow> (Err (SpikeSend err), (w, stats))
        | (Inr response, w) \<Rightarrow>
            let etag = header_string (hr_headers response) ''etag''
            in (if hr_status response \<noteq> 206 then Err (SliceNotPartial index (hr_status response))
                else if etag \<noteq> pm_etag meta then Err (SliceChanged index (pm_etag meta) etag)
                else rbind (map_err SpikeBody (body_bytes (hr_chunks response))) (\<lambda>body.
                  if of_nat (length body) \<noteq> range_len extent then Err (SliceLength index (range_len extent) (length body))
                  else Ok (SliceValue_new header body)),
                (w, stats)))"

definition fetch_or_load_slice ::
  "(spike_error \<Rightarrow> string) \<Rightarrow> string \<Rightarrow> ObjectId \<Rightarrow> SpikeMeta \<Rightarrow> u32 \<Rightarrow> ('s, 'w) Inner \<Rightarrow> 'w \<Rightarrow>
   (spike_error + SliceValue) \<times> ('s, 'w) Inner \<times> 'w" where
  "fetch_or_load_slice display path object meta index inner w =
    (case spike_get_or_fetch (in_store inner) (SliceKey_new object (pm_generation meta) index)
            (\<lambda>e. case spike_fetch (in_client inner) (in_origin inner @ path) meta (spike_header_for meta (in_slice_size inner)) index
                        (slice_extent index (in_slice_size inner) (pm_total_len meta)) e of
                   (r, e) \<Rightarrow> (map_err display r, e)) (w, in_stats inner) of
       (r, st, (w, stats)) \<Rightarrow> (map_err SpikeStoreFailed r, inner\<lparr>in_store := st, in_stats := stats\<rparr>, w))"

section \<open>Filling a whole object\<close>

text \<open>The inner loop: while the buffer holds a slice, store one. With a slice size of zero it would not end.\<close>

partial_function (option) spike_cut ::
  "ObjectId \<Rightarrow> SpikeMeta \<Rightarrow> u8 list \<Rightarrow> u32 \<Rightarrow> ('s, 'w) Inner \<Rightarrow> 'w \<Rightarrow>
   ((spike_error + u8 list \<times> u32) \<times> ('s, 'w) Inner \<times> 'w) option" where
  "spike_cut object meta buf index inner w =
    (if unat (in_slice_size inner) \<le> length buf then
       (case spike_store_slice object meta index (take (unat (in_slice_size inner)) buf) inner w of
          (Inl e, inner', w') \<Rightarrow> Some (Err e, inner', w')
        | (Inr _, inner', w') \<Rightarrow> spike_cut object meta (drop (unat (in_slice_size inner)) buf) (index + 1) inner' w')
     else Some (Ok (buf, index), inner, w))"

primrec spike_fill_chunks ::
  "ObjectId \<Rightarrow> SpikeMeta \<Rightarrow> (TransportError + u8 list) list \<Rightarrow> u8 list \<Rightarrow> u32 \<Rightarrow> ('s, 'w) Inner \<Rightarrow> 'w \<Rightarrow>
   ((spike_error + u8 list \<times> u32) \<times> ('s, 'w) Inner \<times> 'w) option" where
  "spike_fill_chunks object meta [] buf index inner w = Some (Ok (buf, index), inner, w)"
| "spike_fill_chunks object meta (c # cs) buf index inner w =
    (case c of
       Inl e \<Rightarrow> Some (Err (SpikeBody e), inner, w)
     | Inr chunk \<Rightarrow>
         Option.bind (spike_cut object meta (buf @ chunk) index inner w) (\<lambda>(r, inner, w).
           case r of
             Inl e \<Rightarrow> Some (Err e, inner, w)
           | Inr (buf, index) \<Rightarrow> spike_fill_chunks object meta cs buf index inner w))"

definition fill_whole_object ::
  "string \<Rightarrow> ObjectId \<Rightarrow> SpikeMeta \<Rightarrow> ('s, 'w) Inner \<Rightarrow> 'w \<Rightarrow> ((spike_error + unit) \<times> ('s, 'w) Inner \<times> 'w) option" where
  "fill_whole_object path object meta inner w =
    (let last_index = (if pm_total_len meta = 0 then 0 else ucast ((pm_total_len meta - 1) div ucast (in_slice_size inner)) :: u32)
     in if list_all (\<lambda>i. spike_contains (in_store inner) (SliceKey_new object (pm_generation meta) i))
             (map of_nat [0..<Suc (unat last_index)])
        then Some (Ok (), inner, w)
        else
          let inner = inner\<lparr>in_stats := (in_stats inner)\<lparr>ps_full_object_fills := ps_full_object_fills (in_stats inner) + 1\<rparr>\<rparr>
          in case in_client inner \<lparr>rq_url = in_origin inner @ path, rq_headers = []\<rparr> w of
               (Inl e, w) \<Rightarrow> Some (Err (SpikeSend e), inner, w)
             | (Inr response, w) \<Rightarrow>
                 if \<not> is_success (hr_status response) then Some (Err (FullFetchFailed (hr_status response)), inner, w)
                 else
                   Option.bind (spike_fill_chunks object meta (hr_chunks response) [] 0 inner w) (\<lambda>(r, inner, w).
                     case r of
                       Inl e \<Rightarrow> Some (Err e, inner, w)
                     | Inr (buf, index) \<Rightarrow>
                         if buf \<noteq> [] then Some (spike_store_slice object meta index buf inner w)
                         else Some (Ok (), inner, w)))"

section \<open>Serving\<close>

record SpikeRequest =
  sq_method :: string
  sq_path :: string
  sq_path_and_query :: "string option"
  sq_headers :: headers

text \<open>What a body stream has captured.\<close>

record SpikeStream =
  ks_path :: string
  ks_object :: ObjectId
  ks_meta :: SpikeMeta
  ks_wanted :: ByteRange
  ks_indices :: "u32 list"

datatype spike_body = SpikeEmpty | SpikeText string | SpikeData SpikeStream

record SpikeResponse =
  sr_status :: nat
  sr_headers :: headers
  sr_body :: spike_body

text \<open>Building a response panics on a header value with a control character.\<close>

definition header_byte :: "char \<Rightarrow> bool" where
  "header_byte c \<longleftrightarrow> (32 \<le> code c \<and> code c \<noteq> 127) \<or> code c = 9"

definition build_response :: "nat \<Rightarrow> headers \<Rightarrow> spike_body \<Rightarrow> SpikeResponse option" where
  "build_response status hs body =
    (if list_all (\<lambda>h. list_all header_byte (snd h)) hs then Some \<lparr>sr_status = status, sr_headers = hs, sr_body = body\<rparr> else None)"

definition HDR_PROCESSED_BY :: string where "HDR_PROCESSED_BY = ''X-LanCache-Processed-By''"
definition HDR_CACHE :: string where "HDR_CACHE = ''X-Cache''"

definition spike_text :: "nat \<Rightarrow> string \<Rightarrow> SpikeResponse option" where
  "spike_text status message = build_response status [(''content-type'', ''text/plain; charset=utf-8'')] (SpikeText message)"

text \<open>The range asked for. That it cannot be satisfied is not known before the length is.\<close>

definition spike_spec :: "string option \<Rightarrow> RangeSpec option option" where
  "spike_spec raw_range =
    (case map_option parse_range raw_range of
       None \<Rightarrow> Some None
     | Some (Inr spec) \<Rightarrow> Some (Some spec)
     | Some (Inl RangeError.Malformed) \<Rightarrow> Some None
     | Some (Inl Multiple) \<Rightarrow> Some None
     | Some (Inl Unsatisfiable) \<Rightarrow> None)"

definition spike_probe_index :: "u32 \<Rightarrow> RangeSpec option \<Rightarrow> u32 option" where
  "spike_probe_index slice_size spec =
    (case spec of
       None \<Rightarrow> Some 0
     | Some (Proxy_Range.Suffix _) \<Rightarrow> Some 0
     | Some (FromTo start _) \<Rightarrow> if slice_size = 0 then None else Some (ucast (start div ucast slice_size))
     | Some (From start) \<Rightarrow> if slice_size = 0 then None else Some (ucast (start div ucast slice_size)))"

text \<open>The metadata cell of an object, initialised by a probe unless it already is; a failed probe leaves it empty.\<close>

definition spike_meta ::
  "string \<Rightarrow> ObjectId \<Rightarrow> u32 \<Rightarrow> ('s, 'w) Inner \<Rightarrow> 'w \<Rightarrow> (spike_error + SpikeMeta \<times> bool) \<times> ('s, 'w) Inner \<times> 'w" where
  "spike_meta path object probe_index inner w =
    (case in_objects inner object of
       Some (Some meta) \<Rightarrow> (Ok (meta, False), inner, w)
     | _ \<Rightarrow>
         let inner = inner\<lparr>in_objects := (in_objects inner)(object \<mapsto> None)\<rparr>
         in case spike_probe path object probe_index inner w of
              (Inl e, inner, w) \<Rightarrow> (Err e, inner, w)
            | (Inr meta, inner, w) \<Rightarrow> (Ok (meta, True), inner\<lparr>in_objects := (in_objects inner)(object \<mapsto> Some meta)\<rparr>, w))"

definition spike_status :: "('s, 'e) SliceStore \<Rightarrow> ObjectId \<Rightarrow> SpikeMeta \<Rightarrow> SlicePlan \<Rightarrow> bool \<Rightarrow> u32 \<Rightarrow> string" where
  "spike_status store object meta p probed_here probe_index =
    (let resident = of_nat (length (filter (\<lambda>i. spike_contains store (SliceKey_new object (pm_generation meta) i)) (plan_indices p))) :: u32;
         resident = (if probed_here \<and> sp_first p \<le> probe_index \<and> probe_index \<le> sp_last p then saturating_sub resident 1 else resident)
     in if resident = plan_count p then ''HIT'' else if resident = 0 then ''MISS'' else ''PARTIAL'')"

definition spike_headers :: "string \<Rightarrow> SpikeMeta \<Rightarrow> ByteRange \<Rightarrow> bool \<Rightarrow> string \<Rightarrow> headers" where
  "spike_headers host meta wanted partial cache_status =
    [(''content-length'', show_word (range_len wanted)), (''accept-ranges'', ''bytes''), (HDR_CACHE, cache_status), (HDR_PROCESSED_BY, host)]
    @ (if partial then
         [(''content-range'', ''bytes '' @ show_word (br_start wanted) @ ''-'' @ show_word (br_end wanted) @ ''/'' @ show_word (pm_total_len meta))]
       else [])
    @ (case pm_content_type meta of Some v \<Rightarrow> [(''content-type'', v)] | None \<Rightarrow> [])
    @ (case pm_etag meta of Some v \<Rightarrow> [(''etag'', v)] | None \<Rightarrow> [])
    @ (case pm_last_modified meta of Some v \<Rightarrow> [(''last-modified'', v)] | None \<Rightarrow> [])"

text \<open>The end of serving, with the range resolved: the fill of an object without ranges, then the response.\<close>

definition spike_respond ::
  "string \<Rightarrow> ObjectId \<Rightarrow> SpikeMeta \<Rightarrow> ByteRange \<Rightarrow> bool \<Rightarrow> bool \<Rightarrow> bool \<Rightarrow> u32 \<Rightarrow> ('s, 'w) Inner \<Rightarrow> 'w \<Rightarrow>
   ((spike_error + SpikeResponse) \<times> ('s, 'w) Inner \<times> 'w) option" where
  "spike_respond path object meta wanted partial is_head probed_here probe_index inner w =
    (if in_slice_size inner = 0 then None
     else
       Option.bind (if pm_no_ranges meta then fill_whole_object path object meta inner w else Some (Ok (), inner, w)) (\<lambda>(filled, inner, w).
         case filled of
           Inl e \<Rightarrow> Some (Err e, inner, w)
         | Inr _ \<Rightarrow>
             let p = spike_plan wanted (in_slice_size inner);
                 body = (if is_head then SpikeEmpty
                         else SpikeData \<lparr>ks_path = path, ks_object = object, ks_meta = meta, ks_wanted = wanted, ks_indices = plan_indices p\<rparr>)
             in Option.bind (build_response (if partial then 206 else 200)
                  (spike_headers (in_hostname inner) meta wanted partial
                     (spike_status (in_store inner) object meta p probed_here probe_index)) body)
                  (\<lambda>response. Some (Ok response, inner, w))))"

definition spike_path :: "SpikeRequest \<Rightarrow> string" where
  "spike_path req = (case sq_path_and_query req of Some p \<Rightarrow> p | None \<Rightarrow> ''/'')"

definition spike_serve ::
  "(bytes \<Rightarrow> bytes) \<Rightarrow> SpikeRequest \<Rightarrow> ('s, 'w) Inner \<Rightarrow> 'w \<Rightarrow> ((spike_error + SpikeResponse) \<times> ('s, 'w) Inner \<times> 'w) option" where
  "spike_serve blake3 req inner w =
    (let respond = (\<lambda>status hs. map_option (\<lambda>response. (Ok response, inner, w)) (build_response status hs SpikeEmpty))
     in if sq_path req = ''/lancache-heartbeat'' then
          respond 204 [(HDR_PROCESSED_BY, in_hostname inner), (''Access-Control-Allow-Origin'', ''*'')]
        else if sq_method req \<noteq> ''GET'' \<and> sq_method req \<noteq> ''HEAD'' then
          map_option (\<lambda>response. (Ok response, inner, w)) (spike_text 405 (''spike proxy serves GET and HEAD only'' @ [CHR 0x0A]))
        else
          let path = spike_path req;
              object = slice_object_id blake3 path
          in Option.bind (spike_spec (header_string (sq_headers req) ''range'')) (\<lambda>spec.
             Option.bind (spike_probe_index (in_slice_size inner) spec) (\<lambda>probe_index.
               case spike_meta path object probe_index inner w of
                 (Inl e, inner, w) \<Rightarrow> Some (Err e, inner, w)
               | (Inr (meta, probed_here), inner, w) \<Rightarrow>
                   let answer = (\<lambda>status hs. map_option (\<lambda>response. (Ok response, inner, w)) (build_response status hs SpikeEmpty));
                       go = (\<lambda>wanted. spike_respond path object meta wanted (spec \<noteq> None) (sq_method req = ''HEAD'') probed_here probe_index inner w)
                   in case spec of
                        None \<Rightarrow>
                          (case whole (pm_total_len meta) of
                             Some r \<Rightarrow> go r
                           | None \<Rightarrow> answer 200 [(''content-length'', ''0''), (HDR_CACHE, ''HIT''), (HDR_PROCESSED_BY, in_hostname inner)])
                      | Some sp \<Rightarrow>
                          (case Proxy_Range.resolve sp (pm_total_len meta) of
                             Inr r \<Rightarrow> go r
                           | Inl _ \<Rightarrow> answer 416 [(''content-range'', ''bytes */'' @ show_word (pm_total_len meta)),
                                                  (HDR_PROCESSED_BY, in_hostname inner)]))))"

definition spike_handle ::
  "(spike_error \<Rightarrow> string) \<Rightarrow> (bytes \<Rightarrow> bytes) \<Rightarrow> SpikeRequest \<Rightarrow> ('s, 'w) Inner \<Rightarrow> 'w \<Rightarrow> (SpikeResponse \<times> ('s, 'w) Inner \<times> 'w) option" where
  "spike_handle display blake3 req inner w =
    (let inner = inner\<lparr>in_stats := (in_stats inner)\<lparr>ps_requests := ps_requests (in_stats inner) + 1\<rparr>\<rparr>
     in Option.bind (spike_serve blake3 req inner w) (\<lambda>(r, inner, w).
          case r of
            Inr response \<Rightarrow> Some (response, inner, w)
          | Inl e \<Rightarrow> map_option (\<lambda>response. (response, inner, w)) (spike_text 502 (''upstream error: '' @ display e @ [CHR 0x0A]))))"

text \<open>One slice of a body stream.\<close>

definition spike_frame ::
  "(spike_error \<Rightarrow> string) \<Rightarrow> SpikeStream \<Rightarrow> u32 \<Rightarrow> ('s, 'w) Inner \<Rightarrow> 'w \<Rightarrow> (spike_error + u8 list) \<times> ('s, 'w) Inner \<times> 'w" where
  "spike_frame display k index inner w =
    (case fetch_or_load_slice display (ks_path k) (ks_object k) (ks_meta k) index inner w of
       (r, inner, w) \<Rightarrow>
         (rbind r (\<lambda>v.
            case payload_window index (in_slice_size inner) (ks_wanted k) of
              (from, to) \<Rightarrow>
                if length (sv_payload v) < to \<or> to < from then Err (ShortPayload index (length (sv_payload v)) from to)
                else Ok (take (to - from) (drop from (sv_payload v)))),
          inner, w))"

section \<open>Starting\<close>

datatype spike_start_error = SpikeStoreOpen string | SpikeClient string | SpikeBind string

record SpikeBuilder =
  kb_timeout :: nat
  kb_follow_redirects :: bool

definition spike_start ::
  "('s, 'w fetch_world) foyer \<Rightarrow> (SpikeEngine \<Rightarrow> string + 's) \<Rightarrow> (string \<Rightarrow> string + unit) \<Rightarrow> (SpikeBuilder \<Rightarrow> string + 'w http) \<Rightarrow>
   (SocketAddr \<Rightarrow> string + SocketAddr) \<Rightarrow> string option \<Rightarrow> SpikeConfig \<Rightarrow> spike_start_error + ('s, 'w) Inner \<times> SocketAddr" where
  "spike_start F build create_dir_all client bind etc_hostname config =
    rbind (map_err SpikeStoreOpen (spike_open F build create_dir_all (sk_data_dir config) (sk_store config))) (\<lambda>store.
    rbind (map_err SpikeClient (client \<lparr>kb_timeout = sk_upstream_timeout config, kb_follow_redirects = False\<rparr>)) (\<lambda>http.
    let inner =
      \<lparr>in_store = store, in_client = http, in_origin = trim_end_matches (CHR ''/'') (sk_origin config),
       in_slice_size = sk_slice_size config, in_readahead = max (sk_readahead config) 1, in_objects = Map.empty,
       in_stats = ProxyStats_default, in_hostname = spike_hostname etc_hostname\<rparr>
    in rbind (map_err SpikeBind (bind (sk_listen config))) (\<lambda>addr. Ok (inner, addr))))"

text \<open>The command line of \<open>bin/spike.rs\<close> and the configuration made from it.\<close>

record SpikeArgs =
  ka_listen :: SocketAddr
  ka_origin :: string
  ka_data_dir :: string
  ka_slice_size :: u32
  ka_readahead :: nat
  ka_mem_bytes :: nat
  ka_disk_bytes :: nat
  ka_direct_io :: bool

definition spike_defaults :: "string \<Rightarrow> SpikeArgs" where
  "spike_defaults origin =
    \<lparr>ka_listen = \<lparr>sa_ip = IpV4 (V4 127 0 0 1), sa_port = 8080\<rparr>, ka_origin = origin, ka_data_dir = ''/tmp/cachic-spike'',
     ka_slice_size = 1024 * 1024, ka_readahead = 4, ka_mem_bytes = 256 * 1024 * 1024, ka_disk_bytes = 8 * 1024 * 1024 * 1024,
     ka_direct_io = False\<rparr>"

definition spike_main_config :: "SpikeArgs \<Rightarrow> SpikeConfig" where
  "spike_main_config args =
    \<lparr>sk_listen = ka_listen args, sk_origin = ka_origin args, sk_slice_size = ka_slice_size args, sk_readahead = ka_readahead args,
     sk_data_dir = ka_data_dir args,
     sk_store = \<lparr>sc_memory_bytes = ka_mem_bytes args, sc_disk_bytes = ka_disk_bytes args, sc_block_bytes = 16 * 1024 * 1024,
       sc_direct_io = ka_direct_io args\<rparr>,
     sk_upstream_timeout = 60\<rparr>"

section \<open>The store stays right\<close>

interpretation spike: fetch_cache store_inv store_view spike_get_or_fetch
proof unfold_locales
  fix c :: "('s, 'e) SliceStore" and k f e r c' e'
  assume i: "store_inv c" and g: "spike_get_or_fetch c k f e = (r, c', e')"
  obtain s' where f: "fo_get_or_fetch (ss_ops c) (ss_state c) k f e = (r, s', e')" and c: "c' = c\<lparr>ss_state := s'\<rparr>"
    using g by (auto simp: spike_get_or_fetch_def split: prod.splits)
  have law: "foyer_ok (ss_ops c)" using i by (simp add: store_inv_def)
  show "store_inv c' \<and>
      ((e' = e \<and> store_view c' \<subseteq>\<^sub>m store_view c \<and> (\<forall>v. r = Ok v \<longrightarrow> store_view c k = Some v))
       \<or> (\<exists>x. f e = (Err x, e') \<and> store_view c' \<subseteq>\<^sub>m store_view c \<and> (\<exists>y. r = Err y))
       \<or> (\<exists>v. f e = (Ok v, e') \<and> store_view c' \<subseteq>\<^sub>m (store_view c)(k \<mapsto> v) \<and> r = Ok v))"
    using foyer_fetch [OF law f] law by (auto simp: c store_inv_def store_view_def)
qed

text \<open>What an origin promises: the bytes of one version behind its ETag, and of the object when asked without a range.\<close>

definition spike_origin :: "'w http \<Rightarrow> string \<Rightarrow> u8 list \<Rightarrow> string option \<Rightarrow> bool" where
  "spike_origin http url data etag \<longleftrightarrow>
    (\<forall>a b w response w'. http (range_request url [] a b) w = (Ok response, w') \<longrightarrow> hr_status response = 206 \<longrightarrow>
       header_string (hr_headers response) ''etag'' = etag \<longrightarrow> prefix (ok_prefix (hr_chunks response)) (drop (unat a) data))
    \<and> (\<forall>w response w'. http \<lparr>rq_url = url, rq_headers = []\<rparr> w = (Ok response, w') \<longrightarrow> is_success (hr_status response) \<longrightarrow>
       prefix (ok_prefix (hr_chunks response)) data)"

lemma body_bytes_Ok: "body_bytes cs = Ok bs \<Longrightarrow> bs = ok_prefix cs"
proof (induction cs arbitrary: bs)
  case (Cons c cs)
  then show ?case by (cases c) (auto simp: rbind_Ok)
qed simp

lemma spike_fetch_right:
  assumes "spike_origin client url data (pm_etag meta)" "spike_fetch client url meta header i extent e = (Ok v, e')"
  shows "prefix (sv_payload v) (drop (unat (br_start extent)) data)"
proof -
  obtain response w where r: "client (range_request url [] (br_start extent) (br_end extent)) (fst e) = (Ok response, w)"
    using assms(2) by (auto simp: spike_fetch_def Let_def split: sum.splits prod.splits)
  have "hr_status response = 206" "header_string (hr_headers response) ''etag'' = pm_etag meta" "sv_payload v = ok_prefix (hr_chunks response)"
    using assms(2) r by (auto simp: spike_fetch_def Let_def rbind_Ok map_err_def dest!: body_bytes_Ok split: if_splits sum.splits)
  then show ?thesis using assms(1) r unfolding spike_origin_def by metis
qed

lemma store_slice_right:
  assumes st: "store_right ob g sz data (in_store inner)" and r: "spike_store_slice object meta i payload inner w = (r, inner', w')"
    and p: "object = ob \<Longrightarrow> pm_generation meta = g \<Longrightarrow> prefix payload (drop (unat i * unat sz) data)"
  shows "\<exists>st s. inner' = inner\<lparr>in_store := st, in_stats := s\<rparr> \<and> store_right ob g sz data st"
proof -
  let ?k = "SliceKey_new object (pm_generation meta) i" and ?v = "SliceValue_new (spike_header_for meta (in_slice_size inner)) payload"
  obtain q st w1 s where f: "spike_get_or_fetch (in_store inner) ?k (\<lambda>e. (Ok ?v, e)) (w, in_stats inner) = (q, st, (w1, s))"
    by (metis prod.exhaust)
  have "right_slice ob g sz data ?k ?v" using p by (simp add: right_slice_def)
  then have "store_right ob g sz data st"
    using spike.fetch_sound(1) [OF st [unfolded store_right_sound] f] by (simp add: store_right_sound)
  then show ?thesis using r f by (auto simp: spike_store_slice_def)
qed

lemma fetch_or_load_right:
  assumes st: "store_right ob g (in_slice_size inner) data (in_store inner)"
    and r: "fetch_or_load_slice display path object meta i inner w = (r, inner', w')"
    and p: "object = ob \<Longrightarrow> pm_generation meta = g \<Longrightarrow> spike_origin (in_client inner) (in_origin inner @ path) data (pm_etag meta)"
  shows "\<exists>st s. inner' = inner\<lparr>in_store := st, in_stats := s\<rparr> \<and> store_right ob g (in_slice_size inner) data st"
    and "r = Ok v \<Longrightarrow> object = ob \<Longrightarrow> pm_generation meta = g \<Longrightarrow> prefix (sv_payload v) (drop (unat i * unat (in_slice_size inner)) data)"
proof -
  let ?k = "SliceKey_new object (pm_generation meta) i"
  let ?f = "\<lambda>e. case spike_fetch (in_client inner) (in_origin inner @ path) meta (spike_header_for meta (in_slice_size inner)) i
                  (slice_extent i (in_slice_size inner) (pm_total_len meta)) e of (r, e) \<Rightarrow> (map_err display r, e)"
  obtain q st w1 s where f: "spike_get_or_fetch (in_store inner) ?k ?f (w, in_stats inner) = (q, st, (w1, s))"
    by (metis prod.exhaust)
  have fetched: "right_slice ob g (in_slice_size inner) data ?k v" if "?f (w, in_stats inner) = (Ok v, e')" for v e'
  proof -
    obtain x e1 where x: "spike_fetch (in_client inner) (in_origin inner @ path) meta (spike_header_for meta (in_slice_size inner)) i
                  (slice_extent i (in_slice_size inner) (pm_total_len meta)) (w, in_stats inner) = (x, e1)" by (metis surj_pair)
    then have ok: "x = Ok v" using that by (cases x) auto
    have at: "unat (br_start (slice_extent i (in_slice_size inner) (pm_total_len meta))) = unat i * unat (in_slice_size inner)"
      by (simp add: slice_extent_def Let_def unat_slice_start)
    have "prefix (sv_payload v) (drop (unat i * unat (in_slice_size inner)) data)" if "object = ob" "pm_generation meta = g"
      using spike_fetch_right [OF p [OF that] x [unfolded ok]] by (simp only: at)
    then show ?thesis by (simp add: right_slice_def)
  qed
  note s = spike.fetch_sound [OF st [unfolded store_right_sound] f]
  have right: "store_right ob g (in_slice_size inner) data st"
    unfolding store_right_sound by (rule s(1)) (rule fetched)
  show "\<exists>st s. inner' = inner\<lparr>in_store := st, in_stats := s\<rparr> \<and> store_right ob g (in_slice_size inner) data st"
    using r f right by (auto simp: fetch_or_load_slice_def)
  show "prefix (sv_payload v) (drop (unat i * unat (in_slice_size inner)) data)"
    if "r = Ok v" "object = ob" "pm_generation meta = g"
  proof -
    have "q = Ok v" using r f that(1) by (cases q) (auto simp: fetch_or_load_slice_def)
    then have "right_slice ob g (in_slice_size inner) data ?k v" by (rule s(2) [rotated]) (rule fetched)
    then show ?thesis using that by (simp add: right_slice_def)
  qed
qed

section \<open>Fills are right\<close>

text \<open>Where a fill stands: the bytes already cut off and the index of the next slice, which wraps only when
  everything an index can address has been stored.\<close>

definition cut_off :: "u32 \<Rightarrow> u8 list \<Rightarrow> u32 \<Rightarrow> bool" where
  "cut_off sz front index \<longleftrightarrow> length front = unat index * unat sz \<or> length front = 2 ^ 32 * unat sz"

lemma cut_off_step:
  assumes "cut_off sz front index" "0 < unat sz" "unat sz \<le> length buf" "prefix (front @ buf) data" "length data \<le> 2 ^ 32 * unat sz"
  shows "length front = unat index * unat sz" "cut_off sz (front @ take (unat sz) buf) (index + 1)"
proof -
  have "length front + length buf \<le> length data" using prefix_length_le [OF assms(4)] by simp
  then show f: "length front = unat index * unat sz" using assms by (auto simp: cut_off_def)
  have "length (front @ take (unat sz) buf) = Suc (unat index) * unat sz" using f assms(3) by simp
  moreover have "unat (index + 1) = Suc (unat index) \<or> Suc (unat index) = 2 ^ 32"
    using unat_u32_nat [of index] by (auto simp: unat_word_ariths mod_Suc)
  ultimately show "cut_off sz (front @ take (unat sz) buf) (index + 1)" by (auto simp: cut_off_def)
qed

text \<open>What a loop of the fill leaves when it succeeds, for the object \<open>same\<close> says it is about.\<close>

definition cut_at :: "bool \<Rightarrow> u32 \<Rightarrow> u8 list \<Rightarrow> spike_error + u8 list \<times> u32 \<Rightarrow> bool" where
  "cut_at same sz bs r \<longleftrightarrow>
    (\<forall>buf index. r = Ok (buf, index) \<longrightarrow> (\<exists>front. front @ buf = bs \<and> (same \<longrightarrow> cut_off sz front index)))"

lemma cut_at_Ok: "(same \<Longrightarrow> cut_off sz front index) \<Longrightarrow> cut_at same sz (front @ buf) (Ok (buf, index))"
  by (auto simp: cut_at_def)

lemma cut_at_Err [simp]: "cut_at same sz bs (Err e)"
  by (simp add: cut_at_def)

lemma spike_cut_right:
  assumes "0 < unat (in_slice_size inner)" "store_right ob g (in_slice_size inner) data (in_store inner)"
    and "object = ob \<and> pm_generation meta = g \<Longrightarrow> prefix (front @ buf) data \<and> cut_off (in_slice_size inner) front index"
    and "length data \<le> 2 ^ 32 * unat (in_slice_size inner)"
  shows "\<exists>r st s w'. spike_cut object meta buf index inner w = Some (r, inner\<lparr>in_store := st, in_stats := s\<rparr>, w')
    \<and> store_right ob g (in_slice_size inner) data st
    \<and> cut_at (object = ob \<and> pm_generation meta = g) (in_slice_size inner) (front @ buf) r"
  using assms
proof (induction "length buf" arbitrary: buf index inner w front rule: less_induct)
  case less
  let ?sz = "unat (in_slice_size inner)" and ?same = "object = ob \<and> pm_generation meta = g"
  show ?case
  proof (cases "?sz \<le> length buf")
    case False
    then have "spike_cut object meta buf index inner w = Some (Ok (buf, index), inner\<lparr>in_store := in_store inner, in_stats := in_stats inner\<rparr>, w)"
      by (subst spike_cut.simps) simp
    moreover have "cut_at ?same (in_slice_size inner) (front @ buf) (Ok (buf, index))" using less.prems(3) by (intro cut_at_Ok) simp
    ultimately show ?thesis using less.prems(2) by blast
  next
    case True
    obtain q inner1 w1 where q: "spike_store_slice object meta index (take ?sz buf) inner w = (q, inner1, w1)" by (metis prod.exhaust)
    have front: "length front = unat index * ?sz \<and> cut_off (in_slice_size inner) (front @ take ?sz buf) (index + 1)" and pre: "prefix (front @ buf) data"
      if ?same
      using cut_off_step [OF _ less.prems(1) True _ less.prems(4), of front index] less.prems(3) [OF that] by auto
    have slice_ok: "prefix (take ?sz buf) (drop (unat index * ?sz) data)" if ob: ?same
    proof -
      obtain zs where "data = front @ buf @ zs" using pre [OF ob] by (auto simp: prefix_def)
      then show ?thesis using front [OF ob] by (simp add: take_is_prefix prefix_prefix)
    qed
    obtain st s where inner1: "inner1 = inner\<lparr>in_store := st, in_stats := s\<rparr>" and right: "store_right ob g (in_slice_size inner) data st"
      using store_slice_right [OF less.prems(2) q] slice_ok by blast
    show ?thesis
    proof (cases q)
      case (Inl e)
      then have "spike_cut object meta buf index inner w = Some (Err e, inner\<lparr>in_store := st, in_stats := s\<rparr>, w1)"
        using True q inner1 by (subst spike_cut.simps) simp
      then show ?thesis using right cut_at_Err by blast
    next
      case (Inr u)
      then have step: "spike_cut object meta buf index inner w = spike_cut object meta (drop ?sz buf) (index + 1) inner1 w1"
        using True q by (subst spike_cut.simps) simp
      have pre': "prefix ((front @ take ?sz buf) @ drop ?sz buf) data \<and> cut_off (in_slice_size inner1) (front @ take ?sz buf) (index + 1)"
        if ?same
        using pre [OF that] front [OF that] by (simp add: inner1)
      have l: "length (drop ?sz buf) < length buf" using True less.prems(1) by auto
      have "\<exists>r st s w'. spike_cut object meta (drop ?sz buf) (index + 1) inner1 w1 = Some (r, inner1\<lparr>in_store := st, in_stats := s\<rparr>, w')
          \<and> store_right ob g (in_slice_size inner1) data st
          \<and> cut_at ?same (in_slice_size inner1) ((front @ take ?sz buf) @ drop ?sz buf) r"
        by (rule less.hyps [OF l _ _ pre']) (use less.prems(1,4) right in \<open>simp_all add: inner1\<close>)
      then show ?thesis unfolding step inner1 by simp
    qed
  qed
qed

lemma fill_chunks_right:
  assumes "0 < unat (in_slice_size inner)" "store_right ob g (in_slice_size inner) data (in_store inner)"
    and "object = ob \<and> pm_generation meta = g \<Longrightarrow> prefix (front @ buf @ ok_prefix cs) data \<and> cut_off (in_slice_size inner) front index"
    and "length data \<le> 2 ^ 32 * unat (in_slice_size inner)"
  shows "\<exists>r st s w'. spike_fill_chunks object meta cs buf index inner w = Some (r, inner\<lparr>in_store := st, in_stats := s\<rparr>, w')
    \<and> store_right ob g (in_slice_size inner) data st
    \<and> cut_at (object = ob \<and> pm_generation meta = g) (in_slice_size inner) (front @ buf @ ok_prefix cs) r"
  using assms
proof (induction cs arbitrary: buf index inner w front)
  case Nil
  have "spike_fill_chunks object meta [] buf index inner w = Some (Ok (buf, index), inner\<lparr>in_store := in_store inner, in_stats := in_stats inner\<rparr>, w)"
    by simp
  moreover have "cut_at (object = ob \<and> pm_generation meta = g) (in_slice_size inner) (front @ buf @ ok_prefix []) (Ok (buf, index))"
    using cut_at_Ok Nil.prems(3) by simp
  ultimately show ?case using Nil.prems(2) by blast
next
  case (Cons c cs)
  let ?same = "object = ob \<and> pm_generation meta = g"
  show ?case
  proof (cases c)
    case (Inl e)
    then have "spike_fill_chunks object meta (c # cs) buf index inner w = Some (Err (SpikeBody e), inner\<lparr>in_store := in_store inner, in_stats := in_stats inner\<rparr>, w)"
      by simp
    then show ?thesis using Cons.prems(2) cut_at_Err by blast
  next
    case (Inr chunk)
    have pre: "prefix (front @ buf @ chunk) data \<and> cut_off (in_slice_size inner) front index" if ?same
      using Cons.prems(3) [OF that] Inr append_prefixD [of "front @ buf @ chunk" "ok_prefix cs" data] by simp
    obtain r st s w1 where cut: "spike_cut object meta (buf @ chunk) index inner w = Some (r, inner\<lparr>in_store := st, in_stats := s\<rparr>, w1)"
      and right: "store_right ob g (in_slice_size inner) data st"
      and landed: "cut_at ?same (in_slice_size inner) (front @ buf @ chunk) r"
      using spike_cut_right [of inner ob g data object meta front "buf @ chunk" index w, OF Cons.prems(1,2) pre Cons.prems(4)] by blast
    show ?thesis
    proof (cases r)
      case (Inl e)
      then have "spike_fill_chunks object meta (c # cs) buf index inner w = Some (Err e, inner\<lparr>in_store := st, in_stats := s\<rparr>, w1)"
        using cut Inr by simp
      then show ?thesis using right cut_at_Err by blast
    next
      case ok: (Inr p)
      obtain buf' index' where p: "p = (buf', index')" by fastforce
      obtain front' where f: "front' @ buf' = front @ buf @ chunk" "?same \<longrightarrow> cut_off (in_slice_size inner) front' index'"
        using landed ok p unfolding cut_at_def by blast
      let ?inner = "inner\<lparr>in_store := st, in_stats := s\<rparr>"
      have eq: "front' @ buf' @ ok_prefix cs = front @ buf @ ok_prefix (c # cs)" using f(1) Inr by (metis append.assoc ok_prefix.simps(2))
      then have pre': "prefix (front' @ buf' @ ok_prefix cs) data \<and> cut_off (in_slice_size ?inner) front' index'" if ?same
        using Cons.prems(3) [OF that] f(2) that by simp
      have "\<exists>r st' s' w'. spike_fill_chunks object meta cs buf' index' ?inner w1 = Some (r, ?inner\<lparr>in_store := st', in_stats := s'\<rparr>, w')
          \<and> store_right ob g (in_slice_size ?inner) data st'
          \<and> cut_at ?same (in_slice_size ?inner) (front' @ buf' @ ok_prefix cs) r"
        by (rule Cons.IH [OF _ _ pre']) (use Cons.prems(1,4) right in simp_all)
      then show ?thesis using cut ok p Inr unfolding eq by simp
    qed
  qed
qed

lemma fill_right:
  assumes sz: "0 < unat (in_slice_size inner)" and st: "store_right ob g (in_slice_size inner) data (in_store inner)"
    and o: "object = ob \<Longrightarrow> pm_generation meta = g \<Longrightarrow> spike_origin (in_client inner) (in_origin inner @ path) data etag"
    and len: "length data \<le> 2 ^ 32 * unat (in_slice_size inner)"
  shows "\<exists>r st s w'. fill_whole_object path object meta inner w = Some (r, inner\<lparr>in_store := st, in_stats := s\<rparr>, w')
    \<and> store_right ob g (in_slice_size inner) data st"
proof -
  define inner1 where "inner1 = inner\<lparr>in_stats := (in_stats inner)\<lparr>ps_full_object_fills := ps_full_object_fills (in_stats inner) + 1\<rparr>\<rparr>"
  define there where "there = list_all (\<lambda>i. spike_contains (in_store inner) (SliceKey_new object (pm_generation meta) i))
     (map of_nat [0..<Suc (unat (if pm_total_len meta = 0 then 0 else ucast ((pm_total_len meta - 1) div ucast (in_slice_size inner)) :: u32))])"
  have same: "inner1\<lparr>in_store := x, in_stats := y\<rparr> = inner\<lparr>in_store := x, in_stats := y\<rparr>" for x y by (simp add: inner1_def)
  have keep: "inner1 = inner\<lparr>in_store := in_store inner, in_stats := in_stats inner1\<rparr>" by (simp add: inner1_def)
  obtain answer w1 where h: "in_client inner \<lparr>rq_url = in_origin inner @ path, rq_headers = []\<rparr> w = (answer, w1)" by fastforce
  note unfolded = fill_whole_object_def [of path object meta inner w, unfolded Let_def, folded there_def inner1_def]
  consider "there" | e where "\<not> there" "answer = Inl e"
    | response where "\<not> there" "answer = Inr response" "\<not> is_success (hr_status response)"
    | response where "\<not> there" "answer = Inr response" "is_success (hr_status response)"
    by (cases answer) auto
  then show ?thesis
  proof cases
    case 1
    then have "fill_whole_object path object meta inner w = Some (Ok (), inner\<lparr>in_store := in_store inner, in_stats := in_stats inner\<rparr>, w)"
      by (simp add: unfolded)
    then show ?thesis using st by blast
  next
    case 2
    then have "fill_whole_object path object meta inner w = Some (Err (SpikeSend e), inner\<lparr>in_store := in_store inner, in_stats := in_stats inner1\<rparr>, w1)"
      using h by (simp add: unfolded) (simp add: inner1_def)
    then show ?thesis using st by blast
  next
    case 3
    then have "fill_whole_object path object meta inner w
        = Some (Err (FullFetchFailed (hr_status response)), inner\<lparr>in_store := in_store inner, in_stats := in_stats inner1\<rparr>, w1)"
      using h by (simp add: unfolded) (simp add: inner1_def)
    then show ?thesis using st by blast
  next
    case 4
    have pre: "prefix ([] @ [] @ ok_prefix (hr_chunks response)) data \<and> cut_off (in_slice_size inner1) [] 0"
      if "object = ob \<and> pm_generation meta = g"
    proof -
      have "prefix (ok_prefix (hr_chunks response)) data"
        using o that h 4 unfolding spike_origin_def by blast
      then show ?thesis by (simp add: cut_off_def)
    qed
    obtain r x y w2 where f: "spike_fill_chunks object meta (hr_chunks response) [] 0 inner1 w1 = Some (r, inner1\<lparr>in_store := x, in_stats := y\<rparr>, w2)"
      and right: "store_right ob g (in_slice_size inner1) data x"
      and landed: "cut_at (object = ob \<and> pm_generation meta = g) (in_slice_size inner1) ([] @ [] @ ok_prefix (hr_chunks response)) r"
      using fill_chunks_right [of inner1 ob g data object meta "[]" "[]" "hr_chunks response" 0 w1, OF _ _ pre] sz st len
      unfolding inner1_def by auto
    let ?inner = "inner\<lparr>in_store := x, in_stats := y\<rparr>"
    have fill: "fill_whole_object path object meta inner w =
        (case r of
           Inl e \<Rightarrow> Some (Err e, ?inner, w2)
         | Inr (buf, index) \<Rightarrow> if buf \<noteq> [] then Some (spike_store_slice object meta index buf ?inner w2) else Some (Ok (), ?inner, w2))"
      using 4 h f by (simp add: unfolded same) (simp add: inner1_def)
    have right': "store_right ob g (in_slice_size inner) data x" using right by (simp add: inner1_def)
    show ?thesis
    proof (cases r)
      case (Inl e)
      then show ?thesis using fill right' by auto
    next
      case (Inr p)
      obtain buf index where p: "p = (buf, index)" by fastforce
      show ?thesis
      proof (cases "buf = []")
        case True
        then show ?thesis using fill right' Inr p by auto
      next
        case False
        obtain q inner2 w3 where q: "spike_store_slice object meta index buf ?inner w2 = (q, inner2, w3)" by (metis prod.exhaust)
        have "prefix buf (drop (unat index * unat (in_slice_size inner)) data)" if same_ob: "object = ob" "pm_generation meta = g"
        proof -
          obtain front where front: "front @ buf = ok_prefix (hr_chunks response)" "cut_off (in_slice_size inner) front index"
            using landed Inr p same_ob by (auto simp: cut_at_def inner1_def)
          then have front: "prefix (front @ buf) data" "cut_off (in_slice_size inner) front index" using pre same_ob by simp_all
          moreover have "length front < 2 ^ 32 * unat (in_slice_size inner)"
            using prefix_length_le [OF front(1)] len False by (cases buf) auto
          ultimately show ?thesis by (auto simp: cut_off_def prefix_def)
        qed
        then obtain x' y' where "inner2 = ?inner\<lparr>in_store := x', in_stats := y'\<rparr>" "store_right ob g (in_slice_size inner) data x'"
          using store_slice_right [of ob g "in_slice_size inner" data ?inner object meta index buf w2 q inner2 w3] q right' by auto
        then show ?thesis using fill Inr p False q by auto
      qed
    qed
  qed
qed

section \<open>Requests keep the store right\<close>

lemma spike_probe_right:
  assumes st: "store_right ob g (in_slice_size inner) data (in_store inner)"
    and r: "spike_probe path object i inner w = (r, inner', w')"
    and o: "object = ob \<Longrightarrow> \<exists>meta. r = Ok meta \<and> spike_origin (in_client inner) (in_origin inner @ path) data (pm_etag meta)"
  shows "\<exists>st s. inner' = inner\<lparr>in_store := st, in_stats := s\<rparr> \<and> store_right ob g (in_slice_size inner) data st"
proof -
  let ?a = "(ucast i :: u64) * ucast (in_slice_size inner)"
  let ?rq = "range_request (in_origin inner @ path) [] ?a (?a + ucast (in_slice_size inner) - 1)"
  define inner1 where "inner1 = inner\<lparr>in_stats := (in_stats inner)\<lparr>ps_probes := ps_probes (in_stats inner) + 1\<rparr>\<rparr>"
  obtain answer w1 where h: "in_client inner ?rq w = (answer, w1)" by fastforce
  have unchanged: ?thesis if "inner' = inner1"
    using that st by (intro exI [of _ "in_store inner"] exI [of _ "in_stats inner1"]) (simp add: inner1_def)
  show ?thesis
  proof (cases "\<exists>response n body. answer = Inr response \<and> hr_status response = 206
      \<and> Option.bind (header_string (hr_headers response) ''content-range'') parse_content_range_total = Some n
      \<and> body_bytes (hr_chunks response) = Ok body")
    case False
    have "inner' = inner1"
      using r h False by (auto simp: spike_probe_def Let_def inner1_def split: sum.splits option.splits if_splits)
    then show ?thesis by (rule unchanged)
  next
    case True
    then obtain response n body where a: "answer = Inr response" "hr_status response = 206" "body_bytes (hr_chunks response) = Ok body"
      and n: "Option.bind (header_string (hr_headers response) ''content-range'') parse_content_range_total = Some n" by blast
    let ?hs = "hr_headers response"
    let ?meta = "\<lparr>pm_total_len = n, pm_generation = 0, pm_etag = header_string ?hs ''etag'', pm_last_modified = header_string ?hs ''last-modified'',
        pm_content_type = header_string ?hs ''content-type'', pm_no_ranges = False\<rparr>"
    obtain q inner2 w2 where q: "spike_store_slice object ?meta i body inner1 w1 = (q, inner2, w2)" by (metis prod.exhaust)
    have out: "r = rbind q (\<lambda>_. Ok ?meta) \<and> (\<exists>s. inner' = inner2\<lparr>in_stats := s\<rparr>)"
      using r h a n q by (cases q) (auto simp: spike_probe_def Let_def inner1_def intro: exI [of _ "in_stats inner2"])
    have "prefix body (drop (unat i * unat (in_slice_size inner)) data)" if ob: "object = ob"
    proof -
      obtain meta where "r = Ok meta" "spike_origin (in_client inner) (in_origin inner @ path) data (pm_etag meta)" using o [OF ob] by blast
      then have "spike_origin (in_client inner) (in_origin inner @ path) data (header_string ?hs ''etag'')"
        using out by (cases q) auto
      then have "prefix (ok_prefix (hr_chunks response)) (drop (unat ?a) data)"
        using h a unfolding spike_origin_def by blast
      then show ?thesis using body_bytes_Ok [OF a(3)] by (simp add: unat_slice_start)
    qed
    then obtain x y where "inner2 = inner1\<lparr>in_store := x, in_stats := y\<rparr>" "store_right ob g (in_slice_size inner) data x"
      using store_slice_right [of ob g "in_slice_size inner" data inner1 object ?meta i body w1 q inner2 w2] q st by (auto simp: inner1_def)
    then show ?thesis using out by (auto simp: inner1_def)
  qed
qed

end
