(* ===== verification/Spike_Serve.thy ===== *)
theory Spike_Serve
  imports Spike_Proxy
begin

text \<open>
  What the prototype sends (\<open>spike/proxy.rs\<close>). The slices of a body are fetched in any order, between them other
  requests are served and other bodies streamed; what a client receives is nevertheless what it asked for.
\<close>

section \<open>Requests keep the store right\<close>

lemma spike_meta_right:
  assumes st: "store_right ob g (in_slice_size inner) data (in_store inner)"
    and r: "spike_meta path object i inner w = (r, inner', w')"
    and o: "object = ob \<Longrightarrow> \<exists>meta here. r = Ok (meta, here) \<and> spike_origin (in_client inner) (in_origin inner @ path) data (pm_etag meta)"
  shows "\<exists>st s cells. inner' = inner\<lparr>in_store := st, in_stats := s, in_objects := cells\<rparr> \<and> store_right ob g (in_slice_size inner) data st
    \<and> (\<forall>x. x \<noteq> object \<longrightarrow> cells x = in_objects inner x) \<and> (\<forall>meta here. r = Ok (meta, here) \<longrightarrow> cells object = Some (Some meta))"
proof (cases "\<exists>m. in_objects inner object = Some (Some m)")
  case True
  then have "r = Ok (the (the (in_objects inner object)), False)" "inner' = inner"
    using r by (auto simp: spike_meta_def)
  moreover have "inner = inner\<lparr>in_store := in_store inner, in_stats := in_stats inner, in_objects := in_objects inner\<rparr>" by simp
  ultimately show ?thesis using st True by fastforce
next
  case False
  let ?inner = "inner\<lparr>in_objects := (in_objects inner)(object \<mapsto> None)\<rparr>"
  obtain q inner1 w1 where q: "spike_probe path object i ?inner w = (q, inner1, w1)" by (metis prod.exhaust)
  have out: "(\<forall>e. q = Err e \<longrightarrow> r = Err e \<and> inner' = inner1)
      \<and> (\<forall>meta. q = Ok meta \<longrightarrow> r = Ok (meta, True) \<and> inner' = inner1\<lparr>in_objects := (in_objects inner1)(object \<mapsto> Some meta)\<rparr>)"
    using r False q by (cases q) (auto simp: spike_meta_def Let_def split: option.splits)
  have "\<exists>meta. q = Ok meta \<and> spike_origin (in_client ?inner) (in_origin ?inner @ path) data (pm_etag meta)" if "object = ob"
    using o [OF that] out by (cases q) auto
  then obtain x y where i1: "inner1 = ?inner\<lparr>in_store := x, in_stats := y\<rparr>" and right: "store_right ob g (in_slice_size inner) data x"
    using spike_probe_right [of ob g ?inner data path object i w q inner1 w1] st q by auto
  show ?thesis
  proof (cases q)
    case (Inl e)
    then have "inner' = inner\<lparr>in_store := x, in_stats := y, in_objects := (in_objects inner)(object \<mapsto> None)\<rparr>" "r = Err e"
      using out i1 by auto
    then show ?thesis using right by fastforce
  next
    case (Inr meta)
    then have "inner' = inner\<lparr>in_store := x, in_stats := y, in_objects := (in_objects inner)(object \<mapsto> Some meta)\<rparr>" "r = Ok (meta, True)"
      using out i1 by auto
    then show ?thesis using right by fastforce
  qed
qed

lemma spike_respond_right:
  assumes r: "spike_respond path object meta wanted part is_head here i inner w = Some (r, inner', w')"
    and st: "store_right ob g (in_slice_size inner) data (in_store inner)"
    and o: "object = ob \<Longrightarrow> pm_generation meta = g \<Longrightarrow> spike_origin (in_client inner) (in_origin inner @ path) data etag"
    and len: "length data \<le> 2 ^ 32 * unat (in_slice_size inner)"
  shows "\<exists>st s. inner' = inner\<lparr>in_store := st, in_stats := s\<rparr> \<and> store_right ob g (in_slice_size inner) data st"
proof -
  let ?fill = "if pm_no_ranges meta then fill_whole_object path object meta inner w else Some (Ok (), inner, w)"
  have sz: "in_slice_size inner \<noteq> 0" using r by (auto simp: spike_respond_def)
  then have "\<exists>q x y w1. ?fill = Some (q, inner\<lparr>in_store := x, in_stats := y\<rparr>, w1) \<and> store_right ob g (in_slice_size inner) data x"
  proof (cases "pm_no_ranges meta")
    case False
    then have "?fill = Some (Ok (), inner\<lparr>in_store := in_store inner, in_stats := in_stats inner\<rparr>, w)" by simp
    then show ?thesis using st by blast
  qed (use fill_right [OF _ st o len] in \<open>simp add: unat_gt_0\<close>)
  then obtain q x y w1 where f: "?fill = Some (q, inner\<lparr>in_store := x, in_stats := y\<rparr>, w1)" and right: "store_right ob g (in_slice_size inner) data x"
    by blast
  have "inner' = inner\<lparr>in_store := x, in_stats := y\<rparr>"
    using r unfolding spike_respond_def f Let_def by (cases q) (auto simp: sz split: bind_splits)
  then show ?thesis using right by blast
qed

lemma spike_respond_data:
  assumes "spike_respond path object meta wanted part is_head here i inner w = Some (Ok resp, inner', w')" "sr_body resp = SpikeData k"
  shows "k = \<lparr>ks_path = path, ks_object = object, ks_meta = meta, ks_wanted = wanted,
      ks_indices = plan_indices (spike_plan wanted (in_slice_size inner'))\<rparr> \<and> in_slice_size inner \<noteq> 0
    \<and> hget (sr_headers resp) ''content-length'' = Some (show_word (range_len wanted)) \<and> sr_status resp = (if part then 206 else 200)"
  using assms
  by (auto simp: spike_respond_def Let_def build_response_def spike_headers_def hget_def split: if_splits bind_splits sum.splits prod.splits)

text \<open>What serving does: nothing, or a look at the metadata and then an answer or a response.\<close>

definition no_data :: "spike_error + SpikeResponse \<Rightarrow> bool" where
  "no_data r \<longleftrightarrow> (\<forall>resp k. r = Ok resp \<longrightarrow> sr_body resp \<noteq> SpikeData k)"

lemma no_data_Err [simp]: "no_data (Err e)"
  by (simp add: no_data_def)

lemma build_no_data: "build_response status hs body = Some resp \<Longrightarrow> (\<And>k. body \<noteq> SpikeData k) \<Longrightarrow> no_data (Ok resp)"
  by (auto simp: build_response_def no_data_def split: if_splits)

lemma spike_serve_cases:
  assumes s: "spike_serve blake3 req inner w = Some (r, inner', w')"
  defines "path \<equiv> spike_path req" and "object \<equiv> slice_object_id blake3 (spike_path req)"
  obtains (still) "inner' = inner" "no_data r"
    | (failed) i e w1 where "spike_meta path object i inner w = (Err e, inner', w1)" "no_data r"
    | (answered) i meta here w1 where "spike_meta path object i inner w = (Ok (meta, here), inner', w1)" "no_data r"
    | (responded) spec i meta here inner1 w1 wanted where "spike_spec (header_string (sq_headers req) ''range'') = Some spec"
        "spike_meta path object i inner w = (Ok (meta, here), inner1, w1)"
        "wanted_range spec (pm_total_len meta) = Ok wanted" "0 < pm_total_len meta"
        "spike_respond path object meta wanted (spec \<noteq> None) (sq_method req = ''HEAD'') here i inner1 w1 = Some (r, inner', w')"
proof (cases "sq_path req = ''/lancache-heartbeat'' \<or> sq_method req \<noteq> ''GET'' \<and> sq_method req \<noteq> ''HEAD''")
  case True
  then show ?thesis
    using s still by (auto simp: spike_serve_def Let_def spike_text_def dest: build_no_data split: if_splits)
next
  case False
  obtain spec i where sp: "spike_spec (header_string (sq_headers req) ''range'') = Some spec"
      "spike_probe_index (in_slice_size inner) spec = Some i"
    using s False by (auto simp: spike_serve_def Let_def split: bind_splits)
  obtain q inner1 w1 where q: "spike_meta path object i inner w = (q, inner1, w1)" by (metis prod.exhaust)
  note out = s [unfolded spike_serve_def Let_def, folded path_def object_def]
  show ?thesis
  proof (cases q)
    case (Inl e)
    then have "r = Err e" "inner' = inner1" using out False sp q by auto
    then show ?thesis using failed q Inl by simp
  next
    case (Inr p)
    obtain meta here where p: "p = (meta, here)" by fastforce
    show ?thesis
    proof (cases spec)
      case None
      show ?thesis
      proof (cases "whole (pm_total_len meta)")
        case none: None
        then have "inner' = inner1" "no_data r" using out False sp q Inr p None by (auto dest: build_no_data)
        then show ?thesis using answered q Inr p by simp
      next
        case (Some wanted)
        then have "spike_respond path object meta wanted (spec \<noteq> None) (sq_method req = ''HEAD'') here i inner1 w1 = Some (r, inner', w')"
          using out False sp q Inr p None by auto
        moreover have "wanted_range spec (pm_total_len meta) = Ok wanted" "0 < pm_total_len meta"
          using Some None by (auto simp: wanted_range_def whole_def split: if_splits)
        ultimately show ?thesis using responded sp(1) q Inr p by blast
      qed
    next
      case some: (Some spec')
      show ?thesis
      proof (cases "Proxy_Range.resolve spec' (pm_total_len meta)")
        case (Inl e)
        then have "inner' = inner1" "no_data r" using out False sp q Inr p some by (auto dest: build_no_data)
        then show ?thesis using answered q Inr p by simp
      next
        case ok: (Inr wanted)
        then have "spike_respond path object meta wanted (spec \<noteq> None) (sq_method req = ''HEAD'') here i inner1 w1 = Some (r, inner', w')"
          using out False sp q Inr p some by auto
        moreover have "wanted_range spec (pm_total_len meta) = Ok wanted" using ok some by (simp add: wanted_range_def)
        moreover have "0 < pm_total_len meta" using ok by (auto simp: Proxy_Range.resolve_def word_gt_0)
        ultimately show ?thesis using responded sp(1) q Inr p by blast
      qed
    qed
  qed
qed

section \<open>The invariant of a stream\<close>

definition spike_ok :: "SpikeStream \<Rightarrow> u8 list \<Rightarrow> ('s, 'w) Inner \<Rightarrow> bool" where
  "spike_ok k data inner \<longleftrightarrow>
    store_right (ks_object k) (pm_generation (ks_meta k)) (in_slice_size inner) data (in_store inner)
    \<and> spike_origin (in_client inner) (in_origin inner @ ks_path k) data (pm_etag (ks_meta k))
    \<and> in_objects inner (ks_object k) = Some (Some (ks_meta k))
    \<and> length data \<le> 2 ^ 32 * unat (in_slice_size inner)"

text \<open>Another request keeps it, unless its path is a different one with the same object id.\<close>

lemma spike_serve_keeps:
  assumes ok: "spike_ok k data inner" and s: "spike_serve blake3 req inner w = Some (r, inner', w')"
    and c: "slice_object_id blake3 (spike_path req) = ks_object k \<Longrightarrow> spike_path req = ks_path k"
  shows "spike_ok k data inner' \<and> in_slice_size inner' = in_slice_size inner"
proof -
  let ?ob = "ks_object k" and ?path = "spike_path req" and ?object = "slice_object_id blake3 (spike_path req)"
  note i = ok [unfolded spike_ok_def]
  have m: "spike_ok k data inner1 \<and> in_slice_size inner1 = in_slice_size inner \<and> in_client inner1 = in_client inner \<and> in_origin inner1 = in_origin inner
      \<and> (\<forall>meta here. q = Ok (meta, here) \<longrightarrow> ?object = ?ob \<longrightarrow> meta = ks_meta k)"
    if q: "spike_meta ?path ?object j inner w = (q, inner1, w1)" for j q inner1 w1
  proof -
    have known: "q = Ok (ks_meta k, False)" if "?object = ?ob" using q i that by (simp add: spike_meta_def)
    then have "\<exists>meta here. q = Ok (meta, here) \<and> spike_origin (in_client inner) (in_origin inner @ ?path) data (pm_etag meta)" if "?object = ?ob"
      using i c that by (auto simp: ex_bool_eq)
    then obtain x y cells where "inner1 = inner\<lparr>in_store := x, in_stats := y, in_objects := cells\<rparr>"
      "store_right ?ob (pm_generation (ks_meta k)) (in_slice_size inner) data x" "\<And>z. z \<noteq> ?object \<Longrightarrow> cells z = in_objects inner z"
      "\<And>meta here. q = Ok (meta, here) \<Longrightarrow> cells ?object = Some (Some meta)"
      using spike_meta_right [OF _ q, of ?ob "pm_generation (ks_meta k)" data] i by blast
    then show ?thesis using i known by (cases "?object = ?ob") (auto simp: spike_ok_def)
  qed
  show ?thesis
  proof (rule spike_serve_cases [OF s])
    assume "inner' = inner"
    then show ?thesis using ok by simp
  next
    fix j e w1 assume "spike_meta ?path ?object j inner w = (Err e, inner', w1)"
    from m [OF this] show ?thesis by simp
  next
    fix j meta here w1 assume "spike_meta ?path ?object j inner w = (Ok (meta, here), inner', w1)"
    from m [OF this] show ?thesis by simp
  next
    fix spec j meta here inner1 w1 wanted
    assume q: "spike_meta ?path ?object j inner w = (Ok (meta, here), inner1, w1)"
      and r: "spike_respond ?path ?object meta wanted (spec \<noteq> None) (sq_method req = ''HEAD'') here j inner1 w1 = Some (r, inner', w')"
    note k = m [OF q]
    have "spike_origin (in_client inner1) (in_origin inner1 @ ?path) data (pm_etag (ks_meta k))" if "?object = ?ob"
      using k c that i by simp
    then obtain x y where "inner' = inner1\<lparr>in_store := x, in_stats := y\<rparr>" "store_right ?ob (pm_generation (ks_meta k)) (in_slice_size inner1) data x"
      using spike_respond_right [OF r, of ?ob "pm_generation (ks_meta k)" data "pm_etag (ks_meta k)"] k unfolding spike_ok_def by blast
    then show ?thesis using k by (auto simp: spike_ok_def)
  qed
qed

text \<open>The request of the stream itself establishes it.\<close>

lemma spike_serve_starts:
  assumes s: "spike_serve blake3 req inner w = Some (Ok resp, inner', w')" and d: "sr_body resp = SpikeData k"
    and st: "store_right (ks_object k) (pm_generation (ks_meta k)) (in_slice_size inner) data (in_store inner)"
    and o: "spike_origin (in_client inner) (in_origin inner @ ks_path k) data (pm_etag (ks_meta k))"
    and len: "length data \<le> 2 ^ 32 * unat (in_slice_size inner)"
  shows "spike_ok k data inner' \<and> in_slice_size inner' = in_slice_size inner
    \<and> br_start (ks_wanted k) \<le> br_end (ks_wanted k) \<and> br_end (ks_wanted k) < pm_total_len (ks_meta k)
    \<and> ks_indices k = plan_indices (spike_plan (ks_wanted k) (in_slice_size inner)) \<and> in_slice_size inner \<noteq> 0
    \<and> hget (sr_headers resp) ''content-length'' = Some (show_word (range_len (ks_wanted k)))"
proof -
  let ?path = "spike_path req" and ?object = "slice_object_id blake3 (spike_path req)"
  have n: "\<not> no_data (Ok resp)" using d by (auto simp: no_data_def)
  show ?thesis
  proof (rule spike_serve_cases [OF s])
    fix spec j meta here inner1 w1 wanted
    assume sp: "spike_spec (header_string (sq_headers req) ''range'') = Some spec"
      and q: "spike_meta ?path ?object j inner w = (Ok (meta, here), inner1, w1)"
      and wr: "wanted_range spec (pm_total_len meta) = Ok wanted" and pos: "0 < pm_total_len meta"
      and r: "spike_respond ?path ?object meta wanted (spec \<noteq> None) (sq_method req = ''HEAD'') here j inner1 w1 = Some (Ok resp, inner', w')"
    note k = spike_respond_data [OF r d]
    obtain x y cells where i1: "inner1 = inner\<lparr>in_store := x, in_stats := y, in_objects := cells\<rparr>"
      and right: "store_right ?object (pm_generation meta) (in_slice_size inner) data x" and c: "cells ?object = Some (Some meta)"
      using spike_meta_right [OF _ q, of ?object "pm_generation meta" data] st o k by auto
    obtain x' y' where i2: "inner' = inner1\<lparr>in_store := x', in_stats := y'\<rparr>" "store_right ?object (pm_generation meta) (in_slice_size inner1) data x'"
      using spike_respond_right [OF r, of ?object "pm_generation meta" data "pm_etag meta"] right o k len i1 by auto
    have "spec_ordered sp" if "spec = Some sp" for sp
      using that sp parse_range_ordered by (auto simp: spike_spec_def split: option.splits sum.splits RangeError.splits)
    then have "br_start wanted \<le> br_end wanted \<and> br_end wanted < pm_total_len meta" using wanted_range_bounds [OF wr pos] by blast
    then show ?thesis using k i1 i2 c o len by (auto simp: spike_ok_def)
  qed (use n in simp_all)
qed

lemma spike_plan_addressable:
  assumes "addressable r s"
  shows "spike_plan r s = Proxy_Range.plan r s"
proof -
  have a: "unat (br_start r) \<le> unat (br_end r)" "unat (br_end r) div unat s < 2 ^ 32" using assms by (auto simp: addressable_iff)
  have "unat (br_start r) div unat s \<le> unat (br_end r) div unat s" using a(1) by (rule div_le_mono)
  then have lt: "unat (br_start r) div unat s < 2 ^ 32" using a(2) by simp
  have idx: "unat (ucast (b div ucast s) :: u32) = unat b div unat s" if "unat b div unat s < 2 ^ 32" for b :: u64
  proof -
    have "unat (b div ucast s) = unat b div unat s" by (simp only: unat_div_distrib unat_u32_u64)
    then show ?thesis using that by (simp add: unsigned_ucast_eq take_bit_nat_eq_self)
  qed
  have "sp_first (spike_plan r s) = sp_first (Proxy_Range.plan r s)" "sp_last (spike_plan r s) = sp_last (Proxy_Range.plan r s)"
    using idx [OF lt] idx [OF a(2)] plan_exact [OF assms] by (simp_all add: spike_plan_def Let_def word_unat_eq_iff)
  then show ?thesis by (intro SlicePlan.equality) (simp_all add: spike_plan_def Proxy_Range.plan_def Let_def)
qed

section \<open>Streams\<close>

record ('s, 'w) spike_tasks =
  kt_inner :: "('s, 'w) Inner"
  kt_world :: 'w
  kt_frames :: "u32 \<rightharpoonup> spike_error + u8 list"

inductive spike_step ::
  "(spike_error \<Rightarrow> string) \<Rightarrow> (bytes \<Rightarrow> bytes) \<Rightarrow> SpikeStream \<Rightarrow> ('s, 'w) spike_tasks \<Rightarrow> ('s, 'w) spike_tasks \<Rightarrow> bool"
  for display blake3 k where
  own:
    "kt_frames t i = None \<Longrightarrow> i \<in> set (ks_indices k) \<Longrightarrow> spike_frame display k i (kt_inner t) (kt_world t) = (r, inner', w') \<Longrightarrow>
     spike_step display blake3 k t (t\<lparr>kt_inner := inner', kt_world := w', kt_frames := (kt_frames t)(i \<mapsto> r)\<rparr>)"
| other:
    "(ks_object k' = ks_object k \<longrightarrow> ks_path k' = ks_path k \<and> ks_meta k' = ks_meta k) \<Longrightarrow>
     spike_frame display k' i (kt_inner t) (kt_world t) = (r, inner', w') \<Longrightarrow>
     spike_step display blake3 k t (t\<lparr>kt_inner := inner', kt_world := w'\<rparr>)"
| request:
    "(slice_object_id blake3 (spike_path req) = ks_object k \<longrightarrow> spike_path req = ks_path k) \<Longrightarrow>
     spike_serve blake3 req (kt_inner t) (kt_world t) = Some (r, inner', w') \<Longrightarrow>
     spike_step display blake3 k t (t\<lparr>kt_inner := inner', kt_world := w'\<rparr>)"

lemma spike_frame_keeps:
  assumes ok: "spike_ok k data inner" and f: "spike_frame display k' i inner w = (r, inner', w')"
    and c: "ks_object k' = ks_object k \<Longrightarrow> ks_path k' = ks_path k \<and> ks_meta k' = ks_meta k"
  shows "spike_ok k data inner' \<and> in_slice_size inner' = in_slice_size inner"
proof -
  obtain q where q: "fetch_or_load_slice display (ks_path k') (ks_object k') (ks_meta k') i inner w = (q, inner', w')"
    using f by (auto simp: spike_frame_def split: prod.splits)
  have "\<exists>st s. inner' = inner\<lparr>in_store := st, in_stats := s\<rparr> \<and> store_right (ks_object k) (pm_generation (ks_meta k)) (in_slice_size inner) data st"
    by (rule fetch_or_load_right(1) [OF _ q]) (use ok c in \<open>auto simp: spike_ok_def\<close>)
  then show ?thesis using ok by (auto simp: spike_ok_def)
qed

lemma spike_frame_right:
  assumes ok: "spike_ok k data inner" and f: "spike_frame display k i inner w = (Ok bs, inner', w')"
    and a: "addressable (ks_wanted k) (in_slice_size inner)" "br_end (ks_wanted k) < pm_total_len (ks_meta k)"
      "length data = unat (pm_total_len (ks_meta k))" "i \<in> set (plan_indices (Proxy_Range.plan (ks_wanted k) (in_slice_size inner)))"
  shows "bs = frame_of (ks_wanted k) (in_slice_size inner) (pm_total_len (ks_meta k)) data i"
proof -
  obtain q where q: "fetch_or_load_slice display (ks_path k) (ks_object k) (ks_meta k) i inner w = (q, inner', w')"
    using f by (auto simp: spike_frame_def split: prod.splits)
  have sz: "in_slice_size inner' = in_slice_size inner" using spike_frame_keeps [OF ok f] by simp
  obtain lo hi where win: "payload_window i (in_slice_size inner) (ks_wanted k) = (lo, hi)" by fastforce
  obtain v where v: "q = Ok v" "orch_payload_window v (payload_window i (in_slice_size inner) (ks_wanted k)) = Ok bs"
    using f q sz win by (cases q) (auto simp: spike_frame_def orch_payload_window_def split: if_splits)
  have "prefix (sv_payload v) (drop (unat i * unat (in_slice_size inner)) data)"
    by (rule fetch_or_load_right(2) [OF _ q _ v(1)]) (use ok in \<open>auto simp: spike_ok_def\<close>)
  then show ?thesis using window_frame [OF a _ v(2)] by blast
qed

section \<open>Properties\<close>

text \<open>
  Where the prototype differs from \<open>proxy/range.rs\<close>. On a range whose slices have indices of 32 bits the two plans are
  the same; on the range below the indices are truncated to an empty plan, while the production plan is not empty.
\<close>

theorem spike_plan_truncates:
  "(\<forall>r s. addressable r s \<longrightarrow> spike_plan r s = Proxy_Range.plan r s)
   \<and> plan_indices (spike_plan \<lparr>br_start = 888888888, br_end = 888888888888888888\<rparr> 1) = []
   \<and> plan_indices (Proxy_Range.plan \<lparr>br_start = 888888888, br_end = 888888888888888888\<rparr> 1) \<noteq> []"
proof -
  have "plan_indices (spike_plan \<lparr>br_start = 888888888, br_end = 888888888888888888\<rparr> 1) = []"
    by (simp add: spike_plan_def plan_indices_def)
  moreover have "sp_first (Proxy_Range.plan \<lparr>br_start = 888888888, br_end = 888888888888888888\<rparr> 1)
      \<le> sp_last (Proxy_Range.plan \<lparr>br_start = 888888888, br_end = 888888888888888888\<rparr> 1)"
    by (simp add: Proxy_Range.plan_def)
  ultimately show ?thesis using spike_plan_addressable by (simp add: plan_indices_def word_le_nat_alt)
qed

text \<open>
  C39: the prototype sends what was asked for. Of an object whose origin answers with the bytes of one version behind its
  ETag, with no wrong slice of it stored before, whatever requests and streams run in between and whatever
  fails: the bytes of a body sent so far are a prefix of the requested ones, and when the stream ends
  without an error they are all of them, as many as Content-Length declared.
\<close>

theorem spike_body_exact:
  assumes "spike_serve blake3 req inner0 w0 = Some (Ok resp, inner, w)" and "sr_body resp = SpikeData k"
    and "store_right (ks_object k) (pm_generation (ks_meta k)) (in_slice_size inner0) data (in_store inner0)"
    and "spike_origin (in_client inner0) (in_origin inner0 @ ks_path k) data (pm_etag (ks_meta k))"
    and "length data = unat (pm_total_len (ks_meta k))" and "length data \<le> 2 ^ 32 * unat (in_slice_size inner0)"
    and "(spike_step display blake3 k)\<^sup>*\<^sup>* \<lparr>kt_inner = inner, kt_world = w, kt_frames = Map.empty\<rparr> t"
  defines "frames \<equiv> stream_frames (kt_frames t) (ks_indices k)"
  shows "prefix (ok_prefix frames) (range_bytes (ks_wanted k) data)
    \<and> (length frames = length (ks_indices k) \<longrightarrow> first_error frames = None \<longrightarrow> ok_prefix frames = range_bytes (ks_wanted k) data)
    \<and> hget (sr_headers resp) ''content-length'' = Some (show_nat (length (range_bytes (ks_wanted k) data)))"
proof -
  let ?sz = "in_slice_size inner0" and ?r = "ks_wanted k" and ?len = "pm_total_len (ks_meta k)"
  note b = spike_serve_starts [OF assms(1-4,6)]
  have ad: "addressable ?r ?sz"
    using b assms(5,6) by (auto simp: addressable_def word_less_nat_alt word_gt_0 unat_max_addressable_len)
  have idx: "ks_indices k = plan_indices (Proxy_Range.plan ?r ?sz)" using b spike_plan_addressable [OF ad] by simp
  have "spike_ok k data (kt_inner t) \<and> in_slice_size (kt_inner t) = ?sz
      \<and> (\<forall>i bs. kt_frames t i = Some (Ok bs) \<longrightarrow> bs = frame_of ?r ?sz ?len data i)"
    using assms(7)
  proof (induction rule: rtranclp_induct)
    case (step t t')
    from step(2) show ?case
    proof cases
      case (own i r inner' w')
      then show ?thesis
        using spike_frame_keeps [OF _ own(4)] spike_frame_right [of k data "kt_inner t" display i "kt_world t" _ inner' w'] step(3) ad b assms(5) idx by auto
    next
      case (other k' i r inner' w')
      then show ?thesis using spike_frame_keeps [OF _ other(3)] step(3) by auto
    next
      case (request req' r inner' w')
      then show ?thesis using spike_serve_keeps [OF _ request(3)] step(3) by auto
    qed
  qed (use b in simp)
  then have f: "bs = frame_of ?r ?sz ?len data i" if "kt_frames t i = Some (Ok bs)" for i bs using that by blast
  have tile: "concat (map (frame_of ?r ?sz ?len data) (ks_indices k)) = range_bytes ?r data"
    unfolding idx by (rule frames_tile [OF ad _ assms(5)]) (use b in simp)
  have "length (range_bytes ?r data) = unat (range_len ?r)"
    using b assms(5) unat_range_len [of ?r ?len] by (auto simp: range_bytes_def segment_def word_less_nat_alt word_le_nat_alt)
  then show ?thesis
    using stream_prefix [of "kt_frames t" "frame_of ?r ?sz ?len data", OF f] tile b unfolding frames_def by metis
qed

text \<open>Ten bytes of an origin that ignores ranges, in slices of sixteen.\<close>

definition spike_http :: "unit http" where
  "spike_http rq w = (Ok \<lparr>hr_status = 200, hr_headers = [], hr_content_length = Some 10, hr_chunks = [Ok sample_data]\<rparr>, w)"

definition spike_inner :: "((SliceKey \<times> SliceValue) list, unit) Inner" where
  "spike_inner =
    \<lparr>in_store = \<lparr>ss_ops = alist_foyer, ss_state = []\<rparr>, in_client = spike_http, in_origin = ''http://o'', in_slice_size = 16, in_readahead = 4,
     in_objects = Map.empty, in_stats = ProxyStats_default, in_hostname = ''h''\<rparr>"

definition spike_get :: SpikeRequest where
  "spike_get = \<lparr>sq_method = ''GET'', sq_path = ''/x'', sq_path_and_query = Some ''/x'', sq_headers = []\<rparr>"

definition spike_whole :: SpikeMeta where
  "spike_whole = \<lparr>pm_total_len = 10, pm_generation = 0, pm_etag = None, pm_last_modified = None, pm_content_type = None, pm_no_ranges = True\<rparr>"

definition spike_sample :: SpikeStream where
  "spike_sample = \<lparr>ks_path = ''/x'', ks_object = [1], ks_meta = spike_whole, ks_wanted = \<lparr>br_start = 0, br_end = 9\<rparr>, ks_indices = [0]\<rparr>"

abbreviation spike_entry :: SliceValue where
  "spike_entry \<equiv> SliceValue_new (spike_header_for spike_whole 16) sample_data"

lemma spike_entry_stored:
  fixes inner :: "((SliceKey \<times> SliceValue) list, 'w) Inner"
  assumes "in_store inner = \<lparr>ss_ops = alist_foyer, ss_state = []\<rparr>" "in_slice_size inner = 16"
  shows "\<exists>s. spike_store_slice [1] spike_whole 0 sample_data inner w
    = (Ok (), inner\<lparr>in_store := \<lparr>ss_ops = alist_foyer, ss_state = [(SliceKey_new [1] 0 0, spike_entry)]\<rparr>, in_stats := s\<rparr>, w)"
proof -
  have "fo_get_or_fetch alist_foyer [] k (\<lambda>e. (Ok v, e)) e = (Ok v, [(k, v)], e)" for k v and e :: "'w fetch_world"
    by (simp add: alist_foyer_def)
  moreover have "pm_generation spike_whole = 0" by (simp add: spike_whole_def)
  ultimately show ?thesis
    using assms by (intro exI [of _ "in_stats inner"]) (simp add: spike_store_slice_def spike_get_or_fetch_def)
qed

lemma spike_filled:
  assumes "in_store inner = \<lparr>ss_ops = alist_foyer, ss_state = []\<rparr>" "in_slice_size inner = 16" "in_client inner = spike_http"
  shows "\<exists>s. fill_whole_object ''/x'' [1] spike_whole inner w
    = Some (Ok (), inner\<lparr>in_store := \<lparr>ss_ops = alist_foyer, ss_state = [(SliceKey_new [1] 0 0, spike_entry)]\<rparr>, in_stats := s\<rparr>, w)"
proof -
  let ?inner = "inner\<lparr>in_stats := (in_stats inner)\<lparr>ps_full_object_fills := ps_full_object_fills (in_stats inner) + 1\<rparr>\<rparr>"
  have d: "length sample_data = 10" "sample_data \<noteq> []" by (simp_all add: sample_data_def)
  have c: "spike_cut [1] spike_whole sample_data 0 ?inner w = Some (Ok (sample_data, 0), ?inner, w)"
    by (subst spike_cut.simps) (simp add: assms d)
  have e: "\<not> spike_contains (in_store inner) (SliceKey_new [1] 0 0)" by (simp add: assms spike_contains_def alist_foyer_def)
  obtain s where "spike_store_slice [1] spike_whole 0 sample_data ?inner w
    = (Ok (), ?inner\<lparr>in_store := \<lparr>ss_ops = alist_foyer, ss_state = [(SliceKey_new [1] 0 0, spike_entry)]\<rparr>, in_stats := s\<rparr>, w)"
    using spike_entry_stored [of ?inner w] assms by auto
  moreover have "pm_generation spike_whole = 0" "pm_total_len spike_whole = 10" by (simp_all add: spike_whole_def)
  ultimately show ?thesis
    using c d e by (intro exI [of _ s]) (simp add: fill_whole_object_def Let_def assms(2,3) spike_http_def is_success_def)
qed

lemma spike_served:
  "\<exists>resp inner. spike_serve (\<lambda>_. [1]) spike_get spike_inner () = Some (Ok resp, inner, ()) \<and> sr_body resp = SpikeData spike_sample
     \<and> in_store inner = \<lparr>ss_ops = alist_foyer, ss_state = [(SliceKey_new [1] 0 0, spike_entry)]\<rparr> \<and> in_slice_size inner = 16"
proof -
  have p: "\<exists>s. spike_meta ''/x'' [1] 0 spike_inner () = (Ok (spike_whole, True), spike_inner\<lparr>in_stats := s, in_objects := [[1] \<mapsto> Some spike_whole]\<rparr>, ())"
    by (simp add: spike_meta_def spike_probe_def Let_def spike_inner_def spike_http_def is_success_def spike_whole_def header_string_def hget_def)
  then obtain s1 where p: "spike_meta ''/x'' [1] 0 spike_inner () = (Ok (spike_whole, True), spike_inner\<lparr>in_stats := s1, in_objects := [[1] \<mapsto> Some spike_whole]\<rparr>, ())" ..
  let ?inner = "spike_inner\<lparr>in_stats := s1, in_objects := [[1] \<mapsto> Some spike_whole]\<rparr>"
  let ?store = "\<lparr>ss_ops = alist_foyer, ss_state = [(SliceKey_new [1] 0 0, spike_entry)]\<rparr>"
  obtain s2 where f: "fill_whole_object ''/x'' [1] spike_whole ?inner () = Some (Ok (), ?inner\<lparr>in_store := ?store, in_stats := s2\<rparr>, ())"
    using spike_filled [of ?inner "()"] by (auto simp: spike_inner_def)
  have i: "plan_indices (spike_plan \<lparr>br_start = 0, br_end = 9\<rparr> 16) = [0]" by (simp add: spike_plan_def plan_indices_def)
  have m: "pm_no_ranges spike_whole" "pm_total_len spike_whole = 10" by (simp_all add: spike_whole_def)
  have h: "list_all (\<lambda>h. list_all header_byte (snd h)) (spike_headers ''h'' spike_whole \<lparr>br_start = 0, br_end = 9\<rparr> False status)"
    if "list_all header_byte status" for status
    using that by (simp add: spike_headers_def spike_whole_def header_byte_def range_len_def show_nat_eval)
  have st: "list_all header_byte (spike_status store ob meta pl here j)" for store ob meta pl here j
    by (simp add: spike_status_def Let_def header_byte_def)
  have b: "\<exists>resp. build_response 200 (spike_headers ''h'' spike_whole \<lparr>br_start = 0, br_end = 9\<rparr> False (spike_status store ob meta pl here j)) body = Some resp
      \<and> sr_body resp = body" for store ob meta pl here j body
    using h [OF st [of store ob meta pl here j]] by (simp add: build_response_def)
  let ?done = "?inner\<lparr>in_store := ?store, in_stats := s2\<rparr>"
  have n: "in_hostname ?done = ''h''" "in_slice_size ?done = 16" by (simp_all add: spike_inner_def)
  obtain resp where resp: "build_response 200 (spike_headers ''h'' spike_whole \<lparr>br_start = 0, br_end = 9\<rparr> False
      (spike_status (in_store ?done) [1] spike_whole (spike_plan \<lparr>br_start = 0, br_end = 9\<rparr> 16) True 0)) (SpikeData spike_sample) = Some resp"
    and body: "sr_body resp = SpikeData spike_sample"
    using b by blast
  have "spike_respond ''/x'' [1] spike_whole \<lparr>br_start = 0, br_end = 9\<rparr> False False True 0 ?inner () = Some (Ok resp, ?done, ())"
    using f i m n resp by (simp add: spike_respond_def Let_def spike_sample_def)
  then have "spike_serve (\<lambda>_. [1]) spike_get spike_inner () = Some (Ok resp, ?done, ())"
    using p m by (simp add: spike_serve_def Let_def spike_get_def spike_path_def slice_object_id_def spike_spec_def header_string_def hget_def
        spike_probe_index_def whole_def)
  moreover have "in_slice_size ?done = 16" by (simp add: spike_inner_def)
  ultimately show ?thesis using body by auto
qed

theorem spike_body_exact_witness:
  "\<exists>resp inner (t :: ((SliceKey \<times> SliceValue) list, unit) spike_tasks). spike_serve (\<lambda>_. [1]) spike_get spike_inner () = Some (Ok resp, inner, ()) \<and> sr_body resp = SpikeData spike_sample
     \<and> stream_frames (kt_frames t) (ks_indices spike_sample) = [Ok sample_data]
     \<and> prefix (ok_prefix (stream_frames (kt_frames t) (ks_indices spike_sample))) (range_bytes (ks_wanted spike_sample) sample_data)
     \<and> hget (sr_headers resp) ''content-length'' = Some (show_nat (length (range_bytes (ks_wanted spike_sample) sample_data)))"
proof -
  obtain resp inner where s: "spike_serve (\<lambda>_. [1]) spike_get spike_inner () = Some (Ok resp, inner, ())" "sr_body resp = SpikeData spike_sample"
      "in_store inner = \<lparr>ss_ops = alist_foyer, ss_state = [(SliceKey_new [1] 0 0, spike_entry)]\<rparr>" "in_slice_size inner = 16"
    using spike_served by blast
  obtain inner' where f: "spike_frame (\<lambda>_. []) spike_sample 0 inner () = (Ok sample_data, inner', ())"
    using s(3,4) by (auto simp: spike_frame_def fetch_or_load_slice_def spike_get_or_fetch_def alist_foyer_def spike_sample_def spike_whole_def
        payload_window_def saturating_sub_def sample_data_def)
  let ?t = "\<lparr>kt_inner = inner', kt_world = (), kt_frames = [0 \<mapsto> Ok sample_data]\<rparr>"
  have "spike_step (\<lambda>_. []) (\<lambda>_. [1]) spike_sample \<lparr>kt_inner = inner, kt_world = (), kt_frames = Map.empty\<rparr> ?t"
    using spike_step.own [of "\<lparr>kt_inner = inner, kt_world = (), kt_frames = Map.empty\<rparr>" 0 spike_sample "\<lambda>_. []" "Ok sample_data" inner' "()"] f
    by (simp add: spike_sample_def)
  then have r: "(spike_step (\<lambda>_. []) (\<lambda>_. [1]) spike_sample)\<^sup>*\<^sup>* \<lparr>kt_inner = inner, kt_world = (), kt_frames = Map.empty\<rparr> ?t" by blast
  have o1: "store_right (ks_object spike_sample) (pm_generation (ks_meta spike_sample)) (in_slice_size spike_inner) sample_data (in_store spike_inner)"
    by (simp add: spike_inner_def empty_store_right)
  have o2: "spike_origin (in_client spike_inner) (in_origin spike_inner @ ks_path spike_sample) sample_data (pm_etag (ks_meta spike_sample))"
    by (simp add: spike_origin_def spike_inner_def spike_http_def)
  have "length sample_data = unat (pm_total_len (ks_meta spike_sample))" "length sample_data \<le> 2 ^ 32 * unat (in_slice_size spike_inner)"
    by (simp_all add: sample_data_def spike_sample_def spike_whole_def spike_inner_def)
  from spike_body_exact [OF s(1,2) o1 o2 this r] show ?thesis
    using s(1,2) by (intro exI [of _ resp] exI [of _ inner] exI [of _ ?t]) (simp add: spike_sample_def stream_frames_def)
qed

end
