(* ===== verification/Spike_Answers.thy ===== *)
theory Spike_Answers
  imports Spike_Proxy
begin

text \<open>
  The prototype always answers (\<open>spike/proxy.rs\<close>): with a slice size that is not zero its loops end, and no response it
  builds has a header value that cannot be sent, since the values it repeats have been read as text.
\<close>

section \<open>The loops end\<close>

text \<open>What serving may change: the store, the counters and the metadata cells.\<close>

definition same_setup :: "('s, 'w) Inner \<Rightarrow> ('s, 'w) Inner \<Rightarrow> bool" where
  "same_setup a b \<longleftrightarrow> in_slice_size b = in_slice_size a \<and> in_hostname b = in_hostname a \<and> in_client b = in_client a
     \<and> in_origin b = in_origin a \<and> in_readahead b = in_readahead a"

lemma same_setup_trans: "same_setup a b \<Longrightarrow> same_setup b c \<Longrightarrow> same_setup a c"
  by (simp add: same_setup_def)

lemma store_slice_setup:
  "spike_store_slice object meta i payload inner w = (r, inner', w') \<Longrightarrow> same_setup inner inner' \<and> in_objects inner' = in_objects inner"
  by (auto simp: spike_store_slice_def same_setup_def split: prod.splits)

lemma spike_cut_ends:
  assumes "in_slice_size inner \<noteq> 0"
  shows "\<exists>r inner' w'. spike_cut object meta buf i inner w = Some (r, inner', w') \<and> same_setup inner inner' \<and> in_objects inner' = in_objects inner"
  using assms
proof (induction "length buf" arbitrary: buf i inner w rule: less_induct)
  case less
  let ?n = "unat (in_slice_size inner)"
  show ?case
  proof (cases "?n \<le> length buf")
    case False
    then show ?thesis by (subst spike_cut.simps) (simp add: same_setup_def)
  next
    case True
    obtain r inner1 w1 where s: "spike_store_slice object meta i (take ?n buf) inner w = (r, inner1, w1)" by (metis prod.exhaust)
    note k = store_slice_setup [OF s]
    have "0 < ?n" using less(2) by (simp add: unat_gt_0)
    then have "length (drop ?n buf) < length buf" using True by simp
    from less(1) [OF this, of inner1 "i + 1" w1] k less(2)
    obtain r' inner' w' where "spike_cut object meta (drop ?n buf) (i + 1) inner1 w1 = Some (r', inner', w')"
        "same_setup inner1 inner'" "in_objects inner' = in_objects inner1"
      by (auto simp: same_setup_def)
    then show ?thesis using True s k by (subst spike_cut.simps) (cases r, auto intro: same_setup_trans)
  qed
qed

lemma fill_chunks_ends:
  assumes "in_slice_size inner \<noteq> 0"
  shows "\<exists>r inner' w'. spike_fill_chunks object meta cs buf i inner w = Some (r, inner', w') \<and> same_setup inner inner'
    \<and> in_objects inner' = in_objects inner"
  using assms
proof (induction cs arbitrary: buf i inner w)
  case (Cons c cs)
  show ?case
  proof (cases c)
    case (Inr chunk)
    obtain r inner1 w1 where c: "spike_cut object meta (buf @ chunk) i inner w = Some (r, inner1, w1)"
        and k: "same_setup inner inner1" "in_objects inner1 = in_objects inner"
      using spike_cut_ends [OF Cons(2)] by metis
    have "in_slice_size inner1 \<noteq> 0" using k Cons(2) by (simp add: same_setup_def)
    then show ?thesis using Cons(1) [of inner1 _ _ w1] c k Inr same_setup_trans [OF k(1)] by (cases r) fastforce+
  qed (simp add: same_setup_def)
qed (simp add: same_setup_def)

lemma fill_ends:
  assumes "in_slice_size inner \<noteq> 0"
  shows "\<exists>r inner' w'. fill_whole_object path object meta inner w = Some (r, inner', w') \<and> same_setup inner inner'
    \<and> in_objects inner' = in_objects inner"
proof -
  let ?inner = "inner\<lparr>in_stats := (in_stats inner)\<lparr>ps_full_object_fills := ps_full_object_fills (in_stats inner) + 1\<rparr>\<rparr>"
  have s: "same_setup inner ?inner" "same_setup inner inner" "in_slice_size ?inner \<noteq> 0" using assms by (simp_all add: same_setup_def)
  obtain a w1 where a: "in_client ?inner \<lparr>rq_url = in_origin ?inner @ path, rq_headers = []\<rparr> w = (a, w1)" by fastforce
  have "\<exists>r inner' w'. (case a of Inl e \<Rightarrow> Some (Err (SpikeSend e), ?inner, w1)
     | Inr response \<Rightarrow> if \<not> is_success (hr_status response) then Some (Err (FullFetchFailed (hr_status response)), ?inner, w1)
         else Option.bind (spike_fill_chunks object meta (hr_chunks response) [] 0 ?inner w1) (\<lambda>(r, inner, w).
                     case r of
                       Inl e \<Rightarrow> Some (Err e, inner, w)
                     | Inr (buf, index) \<Rightarrow>
                         if buf \<noteq> [] then Some (spike_store_slice object meta index buf inner w)
                         else Some (Ok (), inner, w))) = Some (r, inner', w') \<and> same_setup inner inner' \<and> in_objects inner' = in_objects inner"
  proof (cases a)
    case (Inr response)
    obtain r inner1 w2 where f: "spike_fill_chunks object meta (hr_chunks response) [] 0 ?inner w1 = Some (r, inner1, w2)"
        and k: "same_setup ?inner inner1" "in_objects inner1 = in_objects inner"
      using fill_chunks_ends [OF s(3)] by fastforce
    have "\<exists>q inner' w'. spike_store_slice object meta i buf inner1 w2 = (q, inner', w') \<and> same_setup inner inner' \<and> in_objects inner' = in_objects inner" for i buf
      using store_slice_setup [of object meta i buf inner1 w2] k same_setup_trans [OF same_setup_trans [OF s(1) k(1)]] by (metis prod.exhaust)
    then show ?thesis using Inr f k s(1) same_setup_trans [OF s(1) k(1)] by (auto split: sum.splits)
  qed (use s in simp)
  then show ?thesis using a s(2) by (auto simp: fill_whole_object_def Let_def split: sum.splits)
qed

section \<open>Headers that can be sent\<close>

definition sendable :: "SpikeMeta \<Rightarrow> bool" where
  "sendable meta \<longleftrightarrow> (\<forall>v \<in> {pm_etag meta, pm_last_modified meta, pm_content_type meta}. pred_option (list_all header_byte) v)"

text \<open>The invariant of a running prototype.\<close>

definition spike_inv :: "('s, 'w) Inner \<Rightarrow> bool" where
  "spike_inv inner \<longleftrightarrow> in_slice_size inner \<noteq> 0 \<and> list_all header_byte (in_hostname inner)
     \<and> (\<forall>object meta. in_objects inner object = Some (Some meta) \<longrightarrow> sendable meta)"

lemma header_string_sendable: "pred_option (list_all header_byte) (header_string hs name)"
  by (auto simp: header_string_def to_str_def header_byte_def visible_ascii_def list_all_iff split: Option.bind_splits)

lemma show_nat_sendable: "list_all header_byte (show_nat n)"
proof -
  have "header_byte c" if "is_digit c" for c using that by (simp add: header_byte_def is_digit_def)
  then show ?thesis using show_nat_graphic by (auto simp: list_all_iff)
qed

lemma spike_text_answers: "\<exists>response. spike_text status message = Some response \<and> sr_status response = status"
  by (simp add: spike_text_def build_response_def header_byte_def)

lemma spike_headers_sendable:
  assumes "list_all header_byte host" "sendable meta" "list_all header_byte status"
  shows "list_all (\<lambda>h. list_all header_byte (snd h)) (spike_headers host meta wanted part status)"
  using assms show_nat_sendable by (auto simp: spike_headers_def sendable_def header_byte_def split: option.splits)

lemma spike_status_sendable: "list_all header_byte (spike_status store object meta p here i)"
  by (simp add: spike_status_def Let_def header_byte_def)

lemma spike_spec_answers: "\<exists>spec. spike_spec raw = Some spec"
proof -
  have "parse_range v \<noteq> Err Unsatisfiable" for v
    by (auto simp: parse_range_def Let_def rbind_def ok_or_def split: if_splits option.splits sum.splits)
  then show ?thesis by (auto simp: spike_spec_def split: option.splits sum.splits RangeError.splits)
qed

section \<open>Serving\<close>

lemma probe_answers:
  assumes "spike_probe path object i inner w = (r, inner', w')"
  shows "same_setup inner inner' \<and> in_objects inner' = in_objects inner \<and> (\<forall>meta. r = Ok meta \<longrightarrow> sendable meta)"
proof -
  have "sendable \<lparr>pm_total_len = len, pm_generation = 0, pm_etag = header_string hs ''etag'',
      pm_last_modified = header_string hs ''last-modified'', pm_content_type = header_string hs ''content-type'', pm_no_ranges = n\<rparr>" for len hs n
    using header_string_sendable by (simp add: sendable_def)
  then show ?thesis
    using assms
    by (auto simp: spike_probe_def Let_def rbind_Ok same_setup_def dest!: store_slice_setup split: prod.splits sum.splits if_splits option.splits)
qed

lemma meta_answers:
  assumes inv: "spike_inv inner" and r: "spike_meta path object i inner w = (r, inner', w')"
  shows "spike_inv inner' \<and> (\<forall>meta here. r = Ok (meta, here) \<longrightarrow> sendable meta)"
proof (cases "\<exists>m. in_objects inner object = Some (Some m)")
  case True
  then show ?thesis using inv r by (auto simp: spike_meta_def spike_inv_def)
next
  case False
  obtain q inner1 w1 where q: "spike_probe path object i (inner\<lparr>in_objects := (in_objects inner)(object \<mapsto> None)\<rparr>) w = (q, inner1, w1)"
    by (metis prod.exhaust)
  then have "(r, inner', w') = (case q of Inl e \<Rightarrow> (Err e, inner1, w1)
      | Inr meta \<Rightarrow> (Ok (meta, True), inner1\<lparr>in_objects := (in_objects inner1)(object \<mapsto> Some meta)\<rparr>, w1))"
    using r False by (auto simp: spike_meta_def Let_def split: option.splits)
  then show ?thesis using probe_answers [OF q] inv by (auto simp: spike_inv_def same_setup_def split: sum.splits)
qed

lemma respond_answers:
  fixes inner :: "('s, 'w) Inner"
  assumes inv: "spike_inv inner" and m: "sendable meta"
  shows "\<exists>r inner' w'. spike_respond path object meta wanted part is_head here i inner w = Some (r, inner', w') \<and> spike_inv inner'
    \<and> (\<forall>response. r = Ok response \<longrightarrow> sr_status response = (if part then 206 else 200))"
proof -
  have sz: "in_slice_size inner \<noteq> 0" using inv by (simp add: spike_inv_def)
  obtain q inner1 w1 where f: "(if pm_no_ranges meta then fill_whole_object path object meta inner w else Some (Ok (), inner, w)) = Some (q, inner1, w1)"
      and k: "same_setup inner inner1" "in_objects inner1 = in_objects inner"
    using fill_ends [OF sz] by (cases "pm_no_ranges meta") (fastforce simp: same_setup_def)+
  have i1: "spike_inv inner1" using inv k by (simp add: spike_inv_def same_setup_def)
  show ?thesis
  proof (cases q)
    case (Inl e)
    then show ?thesis using f i1 sz unfolding spike_respond_def by simp
  next
    case (Inr u)
    have "build_response status (spike_headers (in_hostname inner1) meta wanted part (spike_status st object meta p here i)) body
        = Some \<lparr>sr_status = status, sr_headers = spike_headers (in_hostname inner1) meta wanted part (spike_status st object meta p here i), sr_body = body\<rparr>"
      for status body p and st :: "('s, 'w fetch_world) SliceStore"
      using spike_headers_sendable [of "in_hostname inner1" meta "spike_status st object meta p here i", OF _ m spike_status_sendable] i1 by (simp add: build_response_def spike_inv_def)
    then show ?thesis using f i1 sz Inr unfolding spike_respond_def by (simp add: Let_def)
  qed
qed

lemma serve_answers:
  assumes inv: "spike_inv inner"
  shows "\<exists>r inner' w'. spike_serve blake3 req inner w = Some (r, inner', w') \<and> spike_inv inner'
    \<and> (\<forall>response. r = Ok response \<longrightarrow> sr_status response \<in> {200, 204, 206, 405, 416})"
proof -
  have host: "list_all header_byte (in_hostname inner)" and sz: "in_slice_size inner \<noteq> 0" using inv by (simp_all add: spike_inv_def)
  let ?path = "spike_path req"
  let ?object = "slice_object_id blake3 ?path"
  obtain spec where sp: "spike_spec (header_string (sq_headers req) ''range'') = Some spec" using spike_spec_answers by blast
  obtain i where i: "spike_probe_index (in_slice_size inner) spec = Some i"
    using sz by (cases "spike_probe_index (in_slice_size inner) spec") (auto simp: spike_probe_index_def split: option.splits RangeSpec.splits)
  obtain q inner1 w1 where q: "spike_meta ?path ?object i inner w = (q, inner1, w1)" by (metis prod.exhaust)
  note k = meta_answers [OF inv q]
  have host1: "list_all header_byte (in_hostname inner1)" using k by (simp add: spike_inv_def)
  have go: "\<exists>r inner' w'. spike_respond ?path ?object meta wanted part hd here i inner1 w1 = Some (r, inner', w') \<and> spike_inv inner'
      \<and> (\<forall>response. r = Ok response \<longrightarrow> sr_status response \<in> {200, 204, 206, 405, 416})" if "sendable meta" for meta wanted part hd here
    using respond_answers [of inner1 meta ?path ?object wanted part hd here i w1] k that by (cases part) auto
  show ?thesis
  proof (cases "sq_path req = ''/lancache-heartbeat'' \<or> sq_method req \<noteq> ''GET'' \<and> sq_method req \<noteq> ''HEAD''")
    case True
    then show ?thesis
      using host inv by (auto simp: spike_serve_def Let_def spike_text_def build_response_def header_byte_def)
  next
    case False
    show ?thesis
    proof (cases q)
      case (Inl e)
      then show ?thesis using False sp i q k by (auto simp: spike_serve_def Let_def)
    next
      case (Inr mh)
      obtain meta here where m: "q = Ok (meta, here)" using Inr by (cases mh) auto
      have s: "sendable meta" using k m by blast
      show ?thesis
      proof (cases spec)
        case None
        then show ?thesis
          using False sp i q k m host1 go [OF s]
          by (cases "whole (pm_total_len meta)") (auto simp: spike_serve_def Let_def build_response_def header_byte_def)
      next
        case (Some sp')
        then show ?thesis
          using False sp i q k m host1 go [OF s] show_nat_sendable
          by (cases "Proxy_Range.resolve sp' (pm_total_len meta)") (auto simp: spike_serve_def Let_def build_response_def header_byte_def)
      qed
    qed
  qed
qed

lemma handle_answers:
  assumes "spike_inv inner"
  shows "\<exists>response inner' w'. spike_handle display blake3 req inner w = Some (response, inner', w')
    \<and> sr_status response \<in> {200, 204, 206, 405, 416, 502} \<and> spike_inv inner'"
proof -
  let ?inner = "inner\<lparr>in_stats := (in_stats inner)\<lparr>ps_requests := ps_requests (in_stats inner) + 1\<rparr>\<rparr>"
  have "spike_inv ?inner" using assms by (simp add: spike_inv_def)
  then obtain r inner' w' where s: "spike_serve blake3 req ?inner w = Some (r, inner', w')" "spike_inv inner'"
      "\<forall>response. r = Ok response \<longrightarrow> sr_status response \<in> {200, 204, 206, 405, 416}"
    using serve_answers [of ?inner blake3 req w] by blast
  then show ?thesis using spike_text_answers [of 502] by (cases r) (auto simp: spike_handle_def Let_def)
qed

lemma frame_answers: "spike_frame display k i inner w = (r, inner', w') \<Longrightarrow> spike_inv inner \<Longrightarrow> spike_inv inner'"
  by (auto simp: spike_frame_def fetch_or_load_slice_def spike_inv_def split: prod.splits)

text \<open>A history of the prototype: requests handled and slices of bodies pulled, in the order they complete.\<close>

datatype spike_event = Ask SpikeRequest | Pull SpikeStream u32

primrec spike_history ::
  "(spike_error \<Rightarrow> string) \<Rightarrow> (bytes \<Rightarrow> bytes) \<Rightarrow> spike_event list \<Rightarrow> ('s, 'w) Inner \<Rightarrow> 'w \<Rightarrow> (SpikeResponse list \<times> ('s, 'w) Inner \<times> 'w) option" where
  "spike_history display blake3 [] inner w = Some ([], inner, w)"
| "spike_history display blake3 (x # xs) inner w =
    (case x of
       Ask req \<Rightarrow>
         Option.bind (spike_handle display blake3 req inner w) (\<lambda>(response, inner, w).
           map_option (\<lambda>(rs, s). (response # rs, s)) (spike_history display blake3 xs inner w))
     | Pull k i \<Rightarrow> (case spike_frame display k i inner w of (_, inner, w) \<Rightarrow> spike_history display blake3 xs inner w))"

definition asked :: "spike_event list \<Rightarrow> nat" where
  "asked xs = length (filter (\<lambda>x. case x of Ask _ \<Rightarrow> True | Pull _ _ \<Rightarrow> False) xs)"

lemma history_answers:
  assumes "spike_inv inner"
  shows "\<exists>rs inner' w'. spike_history display blake3 xs inner w = Some (rs, inner', w') \<and> length rs = asked xs
    \<and> sr_status ` set rs \<subseteq> {200, 204, 206, 405, 416, 502}"
  using assms
proof (induction xs arbitrary: inner w)
  case (Cons x xs)
  show ?case
  proof (cases x)
    case (Ask req)
    obtain response inner1 w1 where h: "spike_handle display blake3 req inner w = Some (response, inner1, w1)"
        and st: "sr_status response \<in> {200, 204, 206, 405, 416, 502}" and i: "spike_inv inner1"
      using handle_answers [OF Cons(2)] by metis
    show ?thesis using Cons(1) [OF i, of w1] h st Ask by (auto simp: asked_def)
  next
    case (Pull k i)
    obtain r inner1 w1 where f: "spike_frame display k i inner w = (r, inner1, w1)" by (metis prod.exhaust)
    show ?thesis using Cons(1) [OF frame_answers [OF f Cons(2)], of w1] f Pull by (simp add: asked_def)
  qed
qed (simp add: asked_def)

lemma start_inv:
  assumes "spike_start F build mk client bind etc config = Ok (inner, addr)" "sk_slice_size config \<noteq> 0" "list_all header_byte (spike_hostname etc)"
  shows "spike_inv inner"
  using assms by (auto simp: spike_start_def rbind_Ok Let_def spike_inv_def)

section \<open>Properties\<close>

text \<open>
  C35: the prototype always answers. Started with a slice size that is not zero on a host whose name can be
  sent in a header, through any history of requests and of slices pulled by the bodies, whatever the origin and
  the store do: nothing panics and no loop is endless, and every request gets a response with one of
  the statuses 200, 204, 206, 405, 416 and 502.
\<close>

theorem spike_answers:
  assumes "spike_start F build mk client bind etc config = Ok (inner, addr)" "sk_slice_size config \<noteq> 0"
    and "list_all header_byte (spike_hostname etc)"
  shows "\<exists>rs inner' w'. spike_history display blake3 xs inner w = Some (rs, inner', w') \<and> length rs = asked xs
    \<and> sr_status ` set rs \<subseteq> {200, 204, 206, 405, 416, 502}"
  using history_answers [OF start_inv [OF assms]] .

theorem spike_answers_witness:
  "\<exists>inner addr rs inner'.
     spike_start alist_foyer (\<lambda>_. Ok []) (\<lambda>_. Ok ()) (\<lambda>_. Ok (\<lambda>_ n. (Err \<lparr>te_is_connect = True, te_is_timeout = False, te_is_request = False\<rparr>, n + 1 :: nat)))
       (\<lambda>a. Ok a) (Some ''h'') (spike_main_config (spike_defaults ''http://o/'')) = Ok (inner, addr)
     \<and> spike_history (\<lambda>_. ''x'') (\<lambda>_. [1]) [Ask \<lparr>sq_method = ''GET'', sq_path = ''/x'', sq_path_and_query = Some ''/x'', sq_headers = []\<rparr>]
         inner 0 = Some (rs, inner', 1)
     \<and> map sr_status rs = [502] \<and> sr_status ` set rs \<subseteq> {200, 204, 206, 405, 416, 502}"
proof -
  let ?start = "spike_start alist_foyer (\<lambda>_. Ok []) (\<lambda>_. Ok ())
    (\<lambda>_. Ok (\<lambda>_ n. (Err \<lparr>te_is_connect = True, te_is_timeout = False, te_is_request = False\<rparr>, n + 1 :: nat))) (\<lambda>a. Ok a) (Some ''h'')
    (spike_main_config (spike_defaults ''http://o/''))"
  let ?ask = "[Ask \<lparr>sq_method = ''GET'', sq_path = ''/x'', sq_path_and_query = Some ''/x'', sq_headers = []\<rparr>]"
  obtain inner addr where s: "?start = Ok (inner, addr)" and c: "in_objects inner = Map.empty"
      "in_client inner = (\<lambda>_ n. (Err \<lparr>te_is_connect = True, te_is_timeout = False, te_is_request = False\<rparr>, n + 1))" "in_slice_size inner = 1048576"
    by (auto simp: spike_start_def spike_open_def spike_main_config_def spike_defaults_def Let_def)
  have "\<exists>rs inner'. spike_history (\<lambda>_. ''x'') (\<lambda>_. [1]) ?ask inner 0 = Some (rs, inner', 1) \<and> map sr_status rs = [502]"
    using spike_text_answers [of 502]
    by (auto simp: spike_handle_def Let_def spike_serve_def spike_spec_def header_string_def hget_def spike_probe_index_def spike_meta_def spike_probe_def
        c spike_text_def build_response_def header_byte_def)
  moreover have "\<exists>rs inner' w'. spike_history (\<lambda>_. ''x'') (\<lambda>_. [1]) ?ask inner 0 = Some (rs, inner', w') \<and> length rs = asked ?ask
      \<and> sr_status ` set rs \<subseteq> {200, 204, 206, 405, 416, 502}"
    by (rule spike_answers [OF s]) (simp_all add: spike_main_config_def spike_defaults_def spike_hostname_def str_simps header_byte_def)
  ultimately show ?thesis using s by auto
qed

end
