(* ===== verification/Accept_Loop.thy ===== *)
theory Accept_Loop
  imports Proxy_Server Sni_Proxy
begin

text \<open>
  The accept loops of \<open>Server::bind\<close> and \<open>SniProxy::bind\<close> with the tasks they spawn (\<open>proxy/server.rs\<close>, \<open>sni/proxy.rs\<close>). The two listeners
  run beside each other over one connection limit. An attempt to get a permit is one step here and refines a run
  of the atomic steps of \<open>Proxy_Limits\<close>, so the ceilings proved there hold for the permits the two
  listeners hold together.
\<close>

section \<open>The loop\<close>

text \<open>What the \<open>select!\<close> of a turn gives: a connection, a failed accept, or fifty milliseconds without either. Only the
  last looks at the shutdown flag. None is the end of the loop.\<close>

datatype 'c accepted = Accepted 'c | AcceptFailed | Idle

definition accept_turn :: "('c \<Rightarrow> 'x \<Rightarrow> 'x) \<Rightarrow> bool \<Rightarrow> 'c accepted \<Rightarrow> 'x \<Rightarrow> 'x option" where
  "accept_turn admit shutdown ev x =
    (case ev of
       Idle \<Rightarrow> if shutdown then None else Some x
     | AcceptFailed \<Rightarrow> Some x
     | Accepted c \<Rightarrow> Some (admit c x))"

record ('db, 't, 's, 'w) Listeners =
  ln_server :: "('db, 't, 's, 'w) ServerConfig"
  ln_sni_stats :: SniStats
  ln_http_shutdown :: bool
  ln_sni_shutdown :: bool
  ln_http_up :: bool
  ln_sni_up :: bool
  ln_http_open :: "ConnectionPermit multiset"
  ln_sni_open :: "ConnectionPermit multiset"

definition Listeners_bind :: "('db, 't, 's, 'w) ServerConfig \<Rightarrow> ('db, 't, 's, 'w) Listeners" where
  "Listeners_bind cfg =
    \<lparr>ln_server = cfg, ln_sni_stats = SniStats_default, ln_http_shutdown = False, ln_sni_shutdown = False, ln_http_up = True, ln_sni_up = True,
     ln_http_open = {#}, ln_sni_open = {#}\<rparr>"

definition http_admit :: "IpAddr \<Rightarrow> ('db, 't, 's, 'w) Listeners \<Rightarrow> ('db, 't, 's, 'w) Listeners" where
  "http_admit source t =
    (case accept_connection source (ln_server t) of
       (None, cfg) \<Rightarrow> t\<lparr>ln_server := cfg\<rparr>
     | (Some permit, cfg) \<Rightarrow> t\<lparr>ln_server := cfg, ln_http_open := add_mset permit (ln_http_open t)\<rparr>)"

definition http_turn :: "IpAddr accepted \<Rightarrow> ('db, 't, 's, 'w) Listeners \<Rightarrow> ('db, 't, 's, 'w) Listeners" where
  "http_turn ev t = (case accept_turn http_admit (ln_http_shutdown t) ev t of Some t' \<Rightarrow> t' | None \<Rightarrow> t\<lparr>ln_http_up := False\<rparr>)"

definition http_closed :: "ConnectionPermit \<Rightarrow> ('db, 't, 's, 'w) Listeners \<Rightarrow> ('db, 't, 's, 'w) Listeners" where
  "http_closed permit t = t\<lparr>ln_server := end_connection permit (ln_server t), ln_http_open := ln_http_open t - {#permit#}\<rparr>"

definition Server_drop :: "('db, 't, 's, 'w) Listeners \<Rightarrow> ('db, 't, 's, 'w) Listeners" where
  "Server_drop t = t\<lparr>ln_http_shutdown := True\<rparr>"

definition sni_admit :: "IpAddr \<Rightarrow> ('db, 't, 's, 'w) Listeners \<Rightarrow> ('db, 't, 's, 'w) Listeners" where
  "sni_admit source t =
    (case accept_sni source (srv_connections (ln_server t)) (ln_sni_stats t) of
       (permit, limit, stats) \<Rightarrow>
         t\<lparr>ln_server := (ln_server t)\<lparr>srv_connections := limit\<rparr>, ln_sni_stats := stats,
           ln_sni_open := (case permit of Some p \<Rightarrow> add_mset p (ln_sni_open t) | None \<Rightarrow> ln_sni_open t)\<rparr>)"

definition sni_turn :: "IpAddr accepted \<Rightarrow> ('db, 't, 's, 'w) Listeners \<Rightarrow> ('db, 't, 's, 'w) Listeners" where
  "sni_turn ev t = (case accept_turn sni_admit (ln_sni_shutdown t) ev t of Some t' \<Rightarrow> t' | None \<Rightarrow> t\<lparr>ln_sni_up := False\<rparr>)"

definition sni_closed :: "ConnectionPermit \<Rightarrow> ('db, 't, 's, 'w) Listeners \<Rightarrow> ('db, 't, 's, 'w) Listeners" where
  "sni_closed permit t =
    t\<lparr>ln_server := (ln_server t)\<lparr>srv_connections := drop_permit permit (srv_connections (ln_server t))\<rparr>, ln_sni_open := ln_sni_open t - {#permit#}\<rparr>"

definition SniProxy_drop :: "('db, 't, 's, 'w) Listeners \<Rightarrow> ('db, 't, 's, 'w) Listeners" where
  "SniProxy_drop t = t\<lparr>ln_sni_shutdown := True\<rparr>"

text \<open>The two loops, the tasks they have spawned and the owner of the handles, in any order.\<close>

inductive listen_step :: "('db, 't, 's, 'w) Listeners \<Rightarrow> ('db, 't, 's, 'w) Listeners \<Rightarrow> bool" where
  http: "ln_http_up t \<Longrightarrow> listen_step t (http_turn ev t)"
| request:
    "permit \<in># ln_http_open t \<Longrightarrow> handle ev is_match elapsed ip req (ln_server t) w = (out, cfg, w') \<Longrightarrow>
     listen_step t (t\<lparr>ln_server := cfg\<rparr>)"
| http_end: "permit \<in># ln_http_open t \<Longrightarrow> listen_step t (http_closed permit t)"
| http_drop: "listen_step t (Server_drop t)"
| sni: "ln_sni_up t \<Longrightarrow> listen_step t (sni_turn ev t)"
| sni_end: "permit \<in># ln_sni_open t \<Longrightarrow> listen_step t (sni_closed permit t)"
| sni_drop: "listen_step t (SniProxy_drop t)"

section \<open>An attempt is a run of atomic steps\<close>

lemma acquire_steps:
  assumes "acquire_global l = (r, l')"
  shows "limit_step\<^sup>*\<^sup>* (l, add_mset (Loading p) ts)
    (l', (case r of Some _ \<Rightarrow> {#Holding p#} | None \<Rightarrow> after_refusal p) + ts)"
proof (cases "cl_max l \<le> cl_open l")
  case True
  have "limit_step (l, add_mset (Loading p) ts) (l, add_mset (Swapping p (cl_open l)) ts)" by (rule load)
  moreover have "limit_step (l, add_mset (Swapping p (cl_open l)) ts) (refuse_global l, after_refusal p + ts)"
    using True by (rule at_ceiling)
  ultimately show ?thesis using assms True by (auto simp: acquire_global_def)
next
  case False
  have "limit_step (l, add_mset (Loading p) ts) (l, add_mset (Swapping p (cl_open l)) ts)" by (rule load)
  moreover have "limit_step (l, add_mset (Swapping p (cl_open l)) ts) (l\<lparr>cl_open := cl_open l + 1\<rparr>, add_mset (Holding p) ts)"
    using False by (intro swapped) (simp_all add: compare_exchange_def)
  ultimately show ?thesis using assms False by (auto simp: acquire_global_def compare_exchange_def)
qed

lemma try_acquire_steps:
  assumes "try_acquire_for peer l = (r, l')"
  shows "limit_step\<^sup>*\<^sup>* (l, ts) (l', (case r of Some permit \<Rightarrow> {#Holding (cp_peer permit)#} | None \<Rightarrow> {#}) + ts)"
proof (cases "cl_per_peer l")
  case None
  have "limit_step (l, ts) (l, add_mset (Loading None) ts)" by (rule arrive_unattributed)
  moreover have "acquire_global l = (r, l')" using assms None by (simp add: try_acquire_for_def)
  note acquire_steps [OF this, of None ts]
  moreover have "cp_peer permit = None" if "r = Some permit" for permit
    using assms None that by (auto simp: try_acquire_for_def acquire_global_def compare_exchange_def Let_def split: if_splits)
  ultimately show ?thesis by (cases r) (auto simp: after_refusal_def)
next
  case (Some cap)
  obtain granted l1 where c: "claim_peer peer cap l = (granted, l1)" by fastforce
  show ?thesis
  proof (cases granted)
    case False
    then show ?thesis using arrive_refused [of l cap peer l1 ts] Some c assms by (auto simp: try_acquire_for_def)
  next
    case True
    obtain q l2 where g: "acquire_global l1 = (q, l2)" by fastforce
    have a: "limit_step (l, ts) (l1, add_mset (Loading (Some peer)) ts)" using arrive_granted Some c True by simp
    note s = converse_rtranclp_into_rtranclp [OF a acquire_steps [OF g]]
    show ?thesis
    proof (cases q)
      case None
      then have "limit_step\<^sup>*\<^sup>* (l, ts) (l2, add_mset (Refunding peer) ts)" using s by (simp add: after_refusal_def)
      then have "limit_step\<^sup>*\<^sup>* (l, ts) (give_back peer l2, ts)" using refund by (rule rtranclp.rtrancl_into_rtrancl)
      then show ?thesis using assms Some c True g None by (auto simp: try_acquire_for_def)
    next
      case (Some permit)
      then show ?thesis using assms \<open>cl_per_peer l = Some cap\<close> c True g s by (auto simp: try_acquire_for_def)
    qed
  qed
qed

lemma drop_steps: "limit_step\<^sup>*\<^sup>* (l, add_mset (Holding (cp_peer permit)) ts) (drop_permit permit l, ts)"
proof -
  have o: "limit_step (l, add_mset (Holding (cp_peer permit)) ts) (drop_open l, after_drop (cp_peer permit) + ts)" by (rule release_open)
  show ?thesis
  proof (cases "cp_peer permit")
    case None
    then show ?thesis using o by (auto simp: after_drop_def drop_permit_def)
  next
    case (Some peer)
    then have "limit_step (drop_open l, after_drop (cp_peer permit) + ts) (drop_permit permit l, ts)"
      using release_peer [of "drop_open l" peer ts] by (simp add: after_drop_def drop_permit_def)
    then show ?thesis using o by auto
  qed
qed

section \<open>The permits of both listeners\<close>

definition held_permits :: "('db, 't, 's, 'w) Listeners \<Rightarrow> phase multiset" where
  "held_permits t = image_mset (\<lambda>permit. Holding (cp_peer permit)) (ln_http_open t + ln_sni_open t)"

text \<open>The gauge of open connections, as the log of changes has it.\<close>

definition connection_gauge :: "server_metric list \<Rightarrow> int" where
  "connection_gauge ms = int (count_list ms ConnectionsInc) - int (count_list ms ConnectionsDec)"

definition gauge_right :: "('db, 't, 's, 'w) Listeners \<Rightarrow> bool" where
  "gauge_right t \<longleftrightarrow> map_option connection_gauge (srv_metrics (ln_server t)) = Some (int (size (ln_http_open t)))"

lemma gauge_append [simp]: "connection_gauge (xs @ ys) = connection_gauge xs + connection_gauge ys"
  by (simp add: connection_gauge_def)

lemma handle_keeps:
  assumes "handle ev is_match elapsed ip req cfg w = (out, cfg', w')"
  shows "srv_connections cfg' = srv_connections cfg
    \<and> map_option connection_gauge (srv_metrics cfg') = map_option connection_gauge (srv_metrics cfg)"
proof (cases "drain_enter (srv_drain cfg)")
  case None
  then show ?thesis using assms by (auto simp: handle_def)
next
  case (Some d)
  obtain outcome cfg1 w1 where s: "serve ev is_match req (cfg\<lparr>srv_drain := d\<rparr>) w = (outcome, cfg1, w1)" by (metis prod.exhaust)
  have "srv_connections cfg1 = srv_connections cfg" "srv_metrics cfg1 = srv_metrics cfg" by (subst serve_keeps [OF s], simp)+
  moreover have "map_option connection_gauge (count_request e m) = map_option connection_gauge m" for e m
    by (cases m) (simp_all add: count_request_def connection_gauge_def)
  ultimately show ?thesis using assms Some s by (auto simp: handle_def Let_def split: served.splits)
qed

lemma listen_refines:
  assumes "listen_step t t'"
  shows "limit_step\<^sup>*\<^sup>* (srv_connections (ln_server t), held_permits t) (srv_connections (ln_server t'), held_permits t')"
  using assms
proof cases
  case (http ev)
  show ?thesis
  proof (cases ev)
    case (Accepted source)
    obtain r l where a: "try_acquire_for source (srv_connections (ln_server t)) = (r, l)" by fastforce
    show ?thesis using try_acquire_steps [OF a, of "held_permits t"] a Accepted http
      by (cases r) (auto simp: http_turn_def accept_turn_def http_admit_def accept_connection_def held_permits_def)
  qed (use http in \<open>auto simp: http_turn_def accept_turn_def held_permits_def\<close>)
next
  case (request permit ev is_match elapsed ip req w out cfg w')
  then show ?thesis using handle_keeps [OF request(3)] by (simp add: held_permits_def)
next
  case (http_end permit)
  then show ?thesis
    using drop_steps [of "srv_connections (ln_server t)" permit "held_permits t'"]
    by (auto simp: http_closed_def end_connection_def held_permits_def dest!: multi_member_split)
next
  case (sni ev)
  show ?thesis
  proof (cases ev)
    case (Accepted source)
    obtain r l where a: "try_acquire_for source (srv_connections (ln_server t)) = (r, l)" by fastforce
    show ?thesis using try_acquire_steps [OF a, of "held_permits t"] a Accepted sni
      by (cases r) (auto simp: sni_turn_def accept_turn_def sni_admit_def accept_sni_def held_permits_def)
  qed (use sni in \<open>auto simp: sni_turn_def accept_turn_def held_permits_def\<close>)
next
  case (sni_end permit)
  then show ?thesis
    using drop_steps [of "srv_connections (ln_server t)" permit "held_permits t'"]
    by (auto simp: sni_closed_def held_permits_def dest!: multi_member_split)
qed (auto simp: Server_drop_def SniProxy_drop_def held_permits_def)

lemma listen_gauge:
  assumes "listen_step t t'" "gauge_right t"
  shows "gauge_right t'"
  using assms(1)
proof cases
  case (request permit ev is_match elapsed ip req w out cfg w')
  then show ?thesis using handle_keeps [OF request(3)] assms(2) by (simp add: gauge_right_def)
next
  case (http ev)
  then show ?thesis using assms(2)
    by (cases "srv_metrics (ln_server t)")
      (auto simp: gauge_right_def http_turn_def accept_turn_def http_admit_def accept_connection_def connection_gauge_def
        split: accepted.splits prod.splits option.splits)
next
  case (http_end permit)
  then show ?thesis using assms(2)
    by (cases "srv_metrics (ln_server t)")
      (auto simp: gauge_right_def http_closed_def end_connection_def connection_gauge_def dest!: multi_member_split)
next
  case (sni ev)
  then show ?thesis using assms(2)
    by (auto simp: gauge_right_def sni_turn_def accept_turn_def sni_admit_def split: accepted.splits prod.splits option.splits)
qed (use assms(2) in \<open>auto simp: gauge_right_def Server_drop_def SniProxy_drop_def sni_closed_def\<close>)

section \<open>Properties\<close>

text \<open>
  The two listeners share one budget. Whatever connections come to the HTTP and the SNI listener, whatever is requested on
  them, in whatever order they end and the listeners are stopped: the limit counts exactly the
  connections open on both together, they are at most the global ceiling, those of one peer
  are at most its ceiling, the gauge is the number of open HTTP connections, and when all have ended nothing
  is left counted.
\<close>

lemma listeners_share_ceiling:
  assumes "listen_step\<^sup>*\<^sup>* (Listeners_bind cfg) t" "srv_connections cfg = with_per_peer maximum cap" "srv_metrics cfg = Some []"
  defines "limit \<equiv> srv_connections (ln_server t)"
  shows "unat (cl_open limit) = size (ln_http_open t) + size (ln_sni_open t) \<and> cl_open limit \<le> maximum
    \<and> size (filter_mset (\<lambda>permit. cp_peer permit = Some peer) (ln_http_open t + ln_sni_open t)) \<le> unat cap
    \<and> map_option connection_gauge (srv_metrics (ln_server t)) = Some (int (size (ln_http_open t)))
    \<and> (ln_http_open t = {#} \<and> ln_sni_open t = {#} \<longrightarrow> cl_open limit = 0 \<and> cl_peers limit = Map.empty)"
proof -
  have r: "limit_step\<^sup>*\<^sup>* (with_per_peer maximum cap, {#}) (limit, held_permits t) \<and> gauge_right t"
    using assms(1) unfolding limit_def
  proof (induction rule: rtranclp_induct)
    case base
    then show ?case using assms(2,3) by (simp add: Listeners_bind_def held_permits_def gauge_right_def connection_gauge_def)
  next
    case (step t t')
    then show ?case using listen_refines [OF step(2)] listen_gauge [OF step(2)] by auto
  qed
  then have i: "limit_inv (limit, held_permits t)" "cl_max limit = maximum" "cl_per_peer limit = Some cap"
    using limit_inv_reachable [OF _ limit_inv_start(2)] by (auto simp: with_per_peer_def)
  have h: "size (filter_mset is_holding (held_permits t)) = size (ln_http_open t) + size (ln_sni_open t)"
    by (simp add: held_permits_def filter_mset_image_mset comp_def)
  have o: "owned p (held_permits t) = size (filter_mset (\<lambda>permit. cp_peer permit = Some p) (ln_http_open t + ln_sni_open t))" for p
    by (simp add: held_permits_def owned_def filter_mset_image_mset comp_def)
  have "cl_peers limit q = None" if "ln_http_open t = {#}" "ln_sni_open t = {#}" for q
    using i(1) that
    by (cases "cl_peers limit q") (auto simp: limit_inv_def peer_count_def held_permits_def owned_def unat_eq_0 dest!: spec [of _ q])
  then show ?thesis using i r h o by (auto simp: limit_inv_def peer_cap_def gauge_right_def unat_eq_0)
qed

text \<open>
  C36: when a listener stops. Dropping its handle has no effect while connections keep coming: without a pause of fifty
  milliseconds the loop goes on admitting them exactly as before. The first such pause ends the loop,
  and from then on no connection is admitted, whatever else happens.
\<close>

theorem listener_stops_when_idle:
  "(Idle \<notin> set evs \<longrightarrow> fold http_turn evs (Server_drop t) = Server_drop (fold http_turn evs t) \<and> ln_http_up (fold http_turn evs t) = ln_http_up t)
   \<and> \<not> ln_http_up (http_turn Idle (Server_drop t))
   \<and> (\<not> ln_http_up t \<longrightarrow> listen_step\<^sup>*\<^sup>* t t' \<longrightarrow> \<not> ln_http_up t' \<and> ln_http_open t' \<subseteq># ln_http_open t)"
proof (intro conjI impI)
  have turn: "http_turn ev (Server_drop t) = Server_drop (http_turn ev t) \<and> ln_http_up (http_turn ev t) = ln_http_up t"
    if "ev \<noteq> Idle" for ev :: "IpAddr accepted" and t :: "('a, 'b, 'c, 'd) Listeners"
    using that
    by (cases ev) (auto simp: http_turn_def accept_turn_def http_admit_def Server_drop_def split: option.splits prod.splits)
  show "fold http_turn evs (Server_drop t) = Server_drop (fold http_turn evs t)" "ln_http_up (fold http_turn evs t) = ln_http_up t"
    if "Idle \<notin> set evs"
    using that
  proof (induction evs arbitrary: t)
    case (Cons ev evs)
    { case 1 then show ?case using Cons(1) turn [of ev t] by auto }
    { case 2 then show ?case using Cons(2) turn [of ev t] by auto }
  qed simp_all
  show "\<not> ln_http_up (http_turn Idle (Server_drop t))" by (simp add: http_turn_def accept_turn_def Server_drop_def)
  assume "\<not> ln_http_up t"
  assume "listen_step\<^sup>*\<^sup>* t t'"
  then have "\<not> ln_http_up t' \<and> ln_http_open t' \<subseteq># ln_http_open t"
  proof (induction rule: rtranclp_induct)
    case (step t1 t2)
    from step(2) have "\<not> ln_http_up t2 \<and> ln_http_open t2 \<subseteq># ln_http_open t1"
      by cases (use step(3) in \<open>auto simp: http_closed_def Server_drop_def SniProxy_drop_def sni_closed_def sni_turn_def accept_turn_def sni_admit_def
        split: accepted.splits prod.splits option.splits\<close>)
    then show ?case using step(3) by auto
  qed (simp add: \<open>\<not> ln_http_up t\<close>)
  then show "\<not> ln_http_up t'" "ln_http_open t' \<subseteq># ln_http_open t" by simp_all
qed

theorem listener_stops_when_idle_witness:
  "let t = Listeners_bind sample_server; ip = IpV4 (V4 10 0 0 1)
   in fold http_turn [Accepted ip, AcceptFailed, Accepted ip] (Server_drop t) = Server_drop (fold http_turn [Accepted ip, AcceptFailed, Accepted ip] t)
     \<and> \<not> ln_http_up (http_turn Idle (Server_drop t))
     \<and> ln_http_open (SniProxy_drop (http_turn Idle (Server_drop t))) \<subseteq># ln_http_open (http_turn Idle (Server_drop t))"
proof -
  let ?t = "Listeners_bind sample_server" and ?ip = "IpV4 (V4 10 0 0 1)"
  let ?u = "http_turn Idle (Server_drop ?t)"
  have "\<not> ln_http_up ?u" using listener_stops_when_idle [of "[]" ?t ?t] by blast
  moreover have "listen_step\<^sup>*\<^sup>* ?u (SniProxy_drop ?u)" using sni_drop by blast
  ultimately have "ln_http_open (SniProxy_drop ?u) \<subseteq># ln_http_open ?u" using listener_stops_when_idle [of "[]" ?u "SniProxy_drop ?u"] by blast
  moreover have "Idle \<notin> set [Accepted ?ip, AcceptFailed, Accepted ?ip]" by simp
  ultimately show ?thesis using listener_stops_when_idle [of "[Accepted ?ip, AcceptFailed, Accepted ?ip]" ?t ?t] unfolding Let_def by blast
qed

end
