(* ===== verification/Admin_Routes.thy ===== *)
theory Admin_Routes
  imports Admin_Api
begin

text \<open>
  The admin server as a whole (\<open>admin/mod.rs\<close>): its routes, the metrics page, and a history of calls to its endpoints. Matching a
  path and a verb against the routes is the HTTP library's, which panics when two routers that are merged share a
  route; the encoder of the metrics is a parameter.
\<close>

section \<open>Routes\<close>

datatype route_method = GetMethod | PostMethod

datatype endpoint = MetricsPage | HealthzPage | ReadyzPage | StatsPage | ServicesPage | PurgeCall | DrainCall

type_synonym routes = "(string \<times> route_method \<times> endpoint) list"

definition router :: routes where
  "router = [(''/metrics'', GetMethod, MetricsPage), (''/healthz'', GetMethod, HealthzPage), (''/readyz'', GetMethod, ReadyzPage)]"

definition merge_routes :: "routes \<Rightarrow> routes \<Rightarrow> routes option" where
  "merge_routes a b =
    (if list_all (\<lambda>(path, m, _). \<not> list_ex (\<lambda>(path', m', _). path = path' \<and> m = m') a) b then Some (a @ b) else None)"

definition router_with_api :: "routes option" where
  "router_with_api =
    merge_routes router
      [(''/stats'', GetMethod, StatsPage), (''/services'', GetMethod, ServicesPage), (''/purge'', PostMethod, PurgeCall), (''/drain'', PostMethod, DrainCall)]"

definition metrics_render :: "(unit \<Rightarrow> string + bytes) \<Rightarrow> string + string" where
  "metrics_render encode = rbind (encode ()) (\<lambda>buffer. ok_or ''invalid utf-8'' (from_utf8 buffer))"

definition metrics_page :: "string + string \<Rightarrow> nat \<times> headers \<times> string" where
  "metrics_page rendered =
    (case rendered of
       Inr body \<Rightarrow> (200, [(''content-type'', ''text/plain; version=0.0.4'')], body)
     | Inl e \<Rightarrow> (500, [], line (''failed to render metrics: '' @ e)))"

section \<open>Calls\<close>

text \<open>What a call of an endpoint leaves of the state; the probes and the metrics page have none of it.\<close>

record admin_request =
  aq_endpoint :: endpoint
  aq_headers :: headers
  aq_params :: PurgeParams

definition admin_call ::
  "(IndexError \<Rightarrow> string) \<Rightarrow> admin_request \<Rightarrow> ('db, 't, 's, 'e) ApiState option \<Rightarrow> ('db, 't, 's, 'e) ApiState option" where
  "admin_call disp q late =
    (case aq_endpoint q of
       PurgeCall \<Rightarrow> snd (admin_purge disp (aq_headers q) (aq_params q) late)
     | DrainCall \<Rightarrow> snd (admin_drain (aq_headers q) late)
     | _ \<Rightarrow> late)"

lemma admin_call_cases:
  "admin_call disp q (Some state) = Some state
   \<or> permits (api_token state) (aq_headers q) \<and> refuse_unauthenticated_mutation state = None \<and> aq_endpoint q \<in> {PurgeCall, DrainCall}
     \<and> (\<exists>store index readiness. admin_call disp q (Some state)
          = Some (state\<lparr>api_store := store, api_index := index, api_readiness := readiness\<rparr>)
          \<and> (rn_draining (api_readiness state) \<longrightarrow> rn_draining readiness))"
proof (cases "aq_endpoint q")
  case PurgeCall
  let ?ids = "case (pp_prefix (aq_params q), pp_all (aq_params q)) of
      (Some pre, _) \<Rightarrow> Some (index_ids_with_prefix (api_index state) pre)
    | (None, True) \<Rightarrow> Some (index_all_ids (api_index state)) | (None, False) \<Rightarrow> None"
  have "\<exists>store index. admin_call disp q (Some state) = Some (state\<lparr>api_store := store, api_index := index\<rparr>)" (is "\<exists>store index. ?P store index")
    if "permits (api_token state) (aq_headers q)" "refuse_unauthenticated_mutation state = None"
  proof (cases "\<exists>ids x. ?ids = Some (Inr ids) \<and> purge_objects (api_slice_size state) ids (api_store state, api_index state, 0) = Some x")
    case True
    then show ?thesis using that PurgeCall unfolding admin_call_def admin_purge_def by (auto split: prod.splits) (rule exI, rule exI, rule refl)
  next
    case False
    then have "?P (api_store state) (api_index state)"
      using that PurgeCall unfolding admin_call_def admin_purge_def by (auto split: option.splits sum.splits prod.splits)
    then show ?thesis by blast
  qed
  moreover have "admin_call disp q (Some state) = Some state"
    if "\<not> (permits (api_token state) (aq_headers q) \<and> refuse_unauthenticated_mutation state = None)"
    using that PurgeCall by (cases "refuse_unauthenticated_mutation state") (auto simp: admin_call_def admin_purge_def)
  moreover have "state\<lparr>api_store := a, api_index := b\<rparr> = state\<lparr>api_store := a, api_index := b, api_readiness := api_readiness state\<rparr>" for a b by simp
  ultimately show ?thesis using PurgeCall by (metis insertCI)
next
  case DrainCall
  show ?thesis
  proof (cases "permits (api_token state) (aq_headers q) \<and> refuse_unauthenticated_mutation state = None")
    case True
    then have "admin_call disp q (Some state)
        = Some (state\<lparr>api_store := api_store state, api_index := api_index state, api_readiness := begin_drain (api_readiness state)\<rparr>)"
      using DrainCall by (simp add: admin_call_def admin_drain_def)
    moreover have "rn_draining (begin_drain (api_readiness state))" by (simp add: begin_drain_def)
    ultimately show ?thesis using True DrainCall by blast
  next
    case False
    then show ?thesis using DrainCall by (cases "refuse_unauthenticated_mutation state") (auto simp: admin_call_def admin_drain_def)
  qed
qed (simp_all add: admin_call_def)

section \<open>Properties\<close>

text \<open>
  C37: the admin server through any history of calls. Merging its routes does not panic, and only the routes of the method POST can
  change anything. Calls without the token that is set change nothing, and off loopback with no token
  set no call does. Once the server drains it drains for good: no call makes it ready again.
\<close>

theorem admin_history_safe:
  fixes state :: "('db, 't, 's, 'e) ApiState"
  shows "(\<exists>rs. router_with_api = Some rs \<and> distinct (map fst rs)
      \<and> (\<forall>(path, m, e) \<in> set rs. m = GetMethod \<longrightarrow> admin_call disp \<lparr>aq_endpoint = e, aq_headers = hs, aq_params = ps\<rparr> (Some state) = Some state))
    \<and> ((\<forall>q \<in> set qs. \<not> permits (api_token state) (aq_headers q)) \<longrightarrow> fold (admin_call disp) qs (Some state) = Some state)
    \<and> (api_mutations_need_token state \<and> api_token state = None \<longrightarrow> fold (admin_call disp) qs (Some state) = Some state)
    \<and> (rn_draining (api_readiness state) \<longrightarrow> (\<exists>state'. fold (admin_call disp) qs (Some state) = Some state' \<and> \<not> is_ready (api_readiness state')
         \<and> readyz (api_readiness state') = (503, line ''draining'')))"
proof (intro conjI impI)
  show "\<exists>rs. router_with_api = Some rs \<and> distinct (map fst rs)
      \<and> (\<forall>(path, m, e) \<in> set rs. m = GetMethod \<longrightarrow> admin_call disp \<lparr>aq_endpoint = e, aq_headers = hs, aq_params = ps\<rparr> (Some state) = Some state)"
    by (simp add: router_with_api_def merge_routes_def router_def admin_call_def)
  have keep: "fold (admin_call disp) qs (Some state) = Some state"
    if "\<And>q. q \<in> set qs \<Longrightarrow> \<not> (permits (api_token state) (aq_headers q) \<and> refuse_unauthenticated_mutation state = None)"
    using that
  proof (induction qs)
    case (Cons q qs)
    then have "admin_call disp q (Some state) = Some state" using admin_call_cases [of disp q state] by (auto simp: list.set_intros)
    then show ?case using Cons by simp
  qed simp
  show "fold (admin_call disp) qs (Some state) = Some state" if "\<forall>q \<in> set qs. \<not> permits (api_token state) (aq_headers q)" using keep that by blast
  show "fold (admin_call disp) qs (Some state) = Some state" if "api_mutations_need_token state \<and> api_token state = None"
    using keep that by (simp add: refuse_unauthenticated_mutation_def)
  assume "rn_draining (api_readiness state)"
  then have "\<exists>state'. fold (admin_call disp) qs (Some state) = Some state' \<and> rn_draining (api_readiness state')"
   
  proof (induction qs arbitrary: state)
    case (Cons q qs)
    have "\<exists>state1. admin_call disp q (Some state) = Some state1 \<and> rn_draining (api_readiness state1)"
      using admin_call_cases [of disp q state] Cons(2) by auto
    then show ?case using Cons(1) by auto
  qed simp
  then show "\<exists>state'. fold (admin_call disp) qs (Some state) = Some state' \<and> \<not> is_ready (api_readiness state') \<and> readyz (api_readiness state') = (503, line ''draining'')"
    by (auto simp: is_ready_def readyz_def)
qed

theorem admin_history_safe_witness:
  "let state = \<lparr>api_store = \<lparr>ss_ops = alist_foyer, ss_state = []\<rparr>, api_index = sample_index, api_drain = Drain_new,
         api_readiness = begin_drain Readiness_new, api_token = None, api_services = [], api_data_dir = [],
         api_configured_disk_bytes = 0, api_min_free_bytes = 0, api_slice_size = 4, api_mutations_need_token = True\<rparr>;
       late = fold (admin_call (\<lambda>_. [])) [\<lparr>aq_endpoint = DrainCall, aq_headers = [], aq_params = \<lparr>pp_prefix = None, pp_all = True\<rparr>\<rparr>,
           \<lparr>aq_endpoint = PurgeCall, aq_headers = [], aq_params = \<lparr>pp_prefix = None, pp_all = True\<rparr>\<rparr>]
         (Some (state :: ((ObjectId \<times> bytes) list, (ObjectId \<times> bytes) list, (SliceKey \<times> SliceValue) list, unit) ApiState))
   in late = Some state \<and> (\<exists>state'. late = Some state' \<and> readyz (api_readiness state') = (503, line ''draining''))"
proof -
  let ?state = "\<lparr>api_store = \<lparr>ss_ops = alist_foyer, ss_state = []\<rparr>, api_index = sample_index, api_drain = Drain_new,
         api_readiness = begin_drain Readiness_new, api_token = None, api_services = [], api_data_dir = [],
         api_configured_disk_bytes = 0, api_min_free_bytes = 0, api_slice_size = 4, api_mutations_need_token = True\<rparr>
      :: ((ObjectId \<times> bytes) list, (ObjectId \<times> bytes) list, (SliceKey \<times> SliceValue) list, unit) ApiState"
  have "rn_draining (api_readiness ?state)" by (simp add: begin_drain_def)
  then show ?thesis unfolding Let_def using admin_history_safe [of "\<lambda>_. []" _ _ ?state] by fastforce
qed

end
