(* ===== verification/Config_Reference.thy ===== *)
theory Config_Reference
  imports Rust_Str
begin

text \<open>
  \<open>config/reference.rs\<close>: the configuration reference rendered from the arguments of the command line. What the command-line library
  knows of an argument is a record. The theorem says that the table has one row for every setting and
  that a row stays one row of four columns, whatever the help text is.
\<close>

section \<open>Rendering\<close>

record ClapArg =
  ag_hide :: bool
  ag_id :: string
  ag_env :: "string option"
  ag_long :: "string option"
  ag_default_values :: "string list"
  ag_long_help :: "string option"
  ag_help :: "string option"

definition unlines :: "string list \<Rightarrow> string" where
  "unlines ls = concat (map (\<lambda>l. l @ [CHR 0x0A]) ls)"

fun join_with :: "string \<Rightarrow> string list \<Rightarrow> string" where
  "join_with sep [] = []"
| "join_with sep [x] = x"
| "join_with sep (x # y # xs) = x @ sep @ join_with sep (y # xs)"

definition replace_char :: "char \<Rightarrow> string \<Rightarrow> string \<Rightarrow> string" where
  "replace_char c r s = concat (map (\<lambda>x. if x = c then r else [x]) s)"

definition reference_title :: "string list" where
  "reference_title =
    [''# Configuration reference'',
     []]"

definition reference_intro :: "string list" where
  "reference_intro =
    [''Generated from the command-line definitions; do not edit by hand. Regenerate with:'',
     [],
     ''```sh'',
     ''cargo run --example config-reference > docs/configuration.md'',
     ''```'',
     [],
     ''Every setting can be given as an environment variable or as a command-line flag. Precedence is environment > ''
        @ ''file > defaults.'',
     [],
     ''Sizes accept nginx spellings (`1000g`, `2g`, `1m`) which are binary multiples, matching ''
        @ ''`lancachenet/monolithic`, as well as IEC (`GiB`) and SI (`GB`, decimal). Durations accept `s`, `m`, `h`, `d`, ''
        @ ''`w`.'',
     []]"

definition table_head :: "string list" where
  "table_head =
    [''| Environment variable | Flag | Default | Description |'']"

definition table_rule :: "string list" where
  "table_rule =
    [''|---|---|---|---|'']"

definition sizing_notes :: "string list" where
  "sizing_notes =
    [[],
     ''## Sizing notes'',
     [],
     ''- **Per-connection memory** is `READAHEAD_SLICES * CACHE_SLICE_SIZE`. At the defaults that is 4 MiB per ''
        @ ''in-flight client request, and it is a hard bound rather than a target.'',
     ''- **Index memory** is roughly 400 bytes per stored slice, and is *not* part of `CACHE_MEM_SIZE`. A 2 TB cache ''
        @ ''at 1 MiB slices needs about 760 MB for the index; at 4 MiB slices, about 190 MB. `lancachenet/monolithic`'s ''
        @ ''equivalent figure is around 128 bytes per slice, so budget roughly three times what you would have under ''
        @ ''nginx.'',
     ''- **Changing `CACHE_SLICE_SIZE`** against an existing cache directory aborts startup. The stored slices were ''
        @ ''written under the old size and cannot be reinterpreted. Set `FORCE_CONFIG=true` to adopt the new size and ''
        @ ''abandon the existing cache.'']"

text \<open>Every text pushed ends a line, so the page is its lines.\<close>

definition is_listed :: "ClapArg \<Rightarrow> bool" where
  "is_listed a \<longleftrightarrow> \<not> (ag_hide a \<or> ag_id a = ''help'' \<or> ag_id a = ''version'')"

definition reference_default :: "string list \<Rightarrow> string" where
  "reference_default values =
    (if values = [] then ''-''
     else let joined = join_with '' '' values in if joined = [] then ''-'' else ''`'' @ joined @ ''`'')"

definition reference_help :: "ClapArg \<Rightarrow> string" where
  "reference_help a =
    replace_char (CHR ''|'') [CHR 0x5C, CHR ''|'']
      (replace_char (CHR 0x0A) '' '' (case ag_long_help a of Some h \<Rightarrow> h | None \<Rightarrow> (case ag_help a of Some h \<Rightarrow> h | None \<Rightarrow> [])))"

definition reference_row :: "ClapArg \<Rightarrow> string" where
  "reference_row a =
    (let env = (case ag_env a of Some e \<Rightarrow> ''`'' @ e @ ''`'' | None \<Rightarrow> ''-'');
         flag = (case ag_long a of Some l \<Rightarrow> ''`--'' @ l @ ''`'' | None \<Rightarrow> ''-'')
     in ''| '' @ env @ '' | '' @ flag @ '' | '' @ reference_default (ag_default_values a) @ '' | '' @ reference_help a @ '' |'')"

definition render :: "ClapArg list \<Rightarrow> string" where
  "render args =
    unlines (reference_title @ reference_intro @ table_head @ table_rule @ map reference_row (filter is_listed args) @ sizing_notes)"

section \<open>Rows\<close>

text \<open>The column bars of a row: those that no backslash stands before.\<close>

primrec bars :: "char \<Rightarrow> string \<Rightarrow> nat" where
  "bars p [] = 0"
| "bars p (c # s) = (if c = CHR ''|'' \<and> p \<noteq> CHR 0x5C then 1 else 0) + bars c s"

definition plain_text :: "string \<Rightarrow> bool" where
  "plain_text s \<longleftrightarrow> CHR ''|'' \<notin> set s \<and> CHR 0x0A \<notin> set s"

definition plain_arg :: "ClapArg \<Rightarrow> bool" where
  "plain_arg a \<longleftrightarrow> pred_option plain_text (ag_env a) \<and> pred_option plain_text (ag_long a) \<and> list_all plain_text (ag_default_values a)"

lemma bars_append: "bars p (a @ b) = bars p a + bars (last (p # a)) b"
  by (induction a arbitrary: p) auto

lemma bars_plain: "plain_text s \<Longrightarrow> bars p s = 0"
  by (induction s arbitrary: p) (auto simp: plain_text_def)

lemma join_plain: "list_all plain_text xs \<Longrightarrow> plain_text (join_with '' '' xs)"
  by (induction "'' ''" xs rule: join_with.induct) (auto simp: plain_text_def)

lemma default_plain: "list_all plain_text xs \<Longrightarrow> plain_text (reference_default xs)"
  using join_plain [of xs] by (auto simp: reference_default_def plain_text_def Let_def)

lemma bars_escaped: "bars p (replace_char (CHR ''|'') [CHR 0x5C, CHR ''|''] s) = 0"
  by (induction s arbitrary: p) (auto simp: replace_char_def)

lemma help_one_line: "CHR 0x0A \<notin> set (reference_help a)"
  by (auto simp: reference_help_def replace_char_def split: if_splits)

lemma row_shape:
  assumes "plain_arg a"
  shows "CHR 0x0A \<notin> set (reference_row a)" "bars (CHR '' '') (reference_row a) = 5" "last (reference_row a) = CHR ''|''" "reference_row a \<noteq> []"
proof -
  define env where "env = (case ag_env a of Some e \<Rightarrow> ''`'' @ e @ ''`'' | None \<Rightarrow> ''-'')"
  define flag where "flag = (case ag_long a of Some l \<Rightarrow> ''`--'' @ l @ ''`'' | None \<Rightarrow> ''-'')"
  have p: "plain_text env" "plain_text flag" "plain_text (reference_default (ag_default_values a))"
    using assms default_plain by (auto simp: plain_arg_def env_def flag_def plain_text_def split: option.splits)
  have row: "reference_row a = ''| '' @ env @ '' | '' @ flag @ '' | '' @ reference_default (ag_default_values a) @ '' | '' @ reference_help a @ '' |''"
    by (simp add: reference_row_def env_def flag_def Let_def)
  show "CHR 0x0A \<notin> set (reference_row a)" using p help_one_line [of a] unfolding row by (auto simp: plain_text_def)
  have h: "bars c (reference_help a) = 0" for c by (simp add: reference_help_def bars_escaped)
  show "bars (CHR '' '') (reference_row a) = 5" unfolding row using p by (simp add: bars_append bars_plain h)
  show "last (reference_row a) = CHR ''|''" "reference_row a \<noteq> []" unfolding row by simp_all
qed

section \<open>Properties\<close>

text \<open>
  The reference lists every setting once. When no name or default has a bar or a line break, the lines of the
  rendered page are the introduction, one row for each argument that is not hidden and is not the help or
  the version, in order, and the notes; every row has the bars of four columns, whatever its help text has.
\<close>

theorem reference_lists_every_setting:
  assumes "list_all plain_arg args"
  shows "lines (render args) = reference_title @ reference_intro @ table_head @ table_rule @ map reference_row (filter is_listed args) @ sizing_notes
    \<and> list_all (\<lambda>a. bars (CHR '' '') (reference_row a) = 5) args"
proof -
  let ?one = "\<lambda>l. CHR 0x0A \<notin> set l \<and> (l = [] \<or> last l \<noteq> CHR 0x0D)"
  have un: "lines (unlines ls) = ls" if "list_all ?one ls" for ls
    using that by (induction ls) (auto simp: unlines_def lines_terminated)
  have "list_all ?one reference_title" "list_all ?one reference_intro" "list_all ?one table_head" "list_all ?one table_rule" "list_all ?one sizing_notes"
    by (simp_all add: reference_title_def reference_intro_def table_head_def table_rule_def sizing_notes_def)
  moreover have "list_all ?one (map reference_row (filter is_listed args))"
    using assms row_shape by (auto simp: list_all_iff)
  ultimately have "lines (render args) = reference_title @ reference_intro @ table_head @ table_rule @ map reference_row (filter is_listed args) @ sizing_notes"
    unfolding render_def by (intro un) simp
  then show ?thesis using assms row_shape(2) by (simp add: list_all_iff)
qed

theorem reference_lists_every_setting_witness:
  "let a = \<lparr>ag_hide = False, ag_id = ''slice'', ag_env = Some ''CACHE_SLICE_SIZE'', ag_long = Some ''cache-slice-size'', ag_default_values = [''1m''],
         ag_long_help = None, ag_help = Some ''one|two''\<rparr>
   in reference_row a = ''| `CACHE_SLICE_SIZE` | `--cache-slice-size` | `1m` | one'' @ [CHR 0x5C] @ ''|two |''
     \<and> lines (render [a]) = reference_title @ reference_intro @ table_head @ table_rule @ [reference_row a] @ sizing_notes"
proof -
  let ?a = "\<lparr>ag_hide = False, ag_id = ''slice'', ag_env = Some ''CACHE_SLICE_SIZE'', ag_long = Some ''cache-slice-size'', ag_default_values = [''1m''],
         ag_long_help = None, ag_help = Some ''one|two''\<rparr>"
  have "list_all plain_arg [?a]" by (simp add: plain_arg_def plain_text_def)
  moreover have "filter is_listed [?a] = [?a]" by (simp add: is_listed_def)
  moreover have "reference_row ?a = ''| `CACHE_SLICE_SIZE` | `--cache-slice-size` | `1m` | one'' @ [CHR 0x5C] @ ''|two |''"
    by (simp add: reference_row_def reference_default_def reference_help_def replace_char_def Let_def)
  ultimately show ?thesis using reference_lists_every_setting [of "[?a]"] unfolding Let_def by (simp only: list.map append_Cons append_Nil)
qed

end
