(* ===== verification/Repo_Tests.thy ===== *)
theory Repo_Tests
  imports Proxy_Range Config_Units Services_Key Upstream_Client "HOL-Library.Sublist"
begin

text \<open>
  The fuzz targets (\<open>fuzz/fuzz_targets\<close>) and the property test of cache keys (\<open>tests/properties.rs\<close>), each as the predicate that none of its
  assertions fails on an input. A fuzzer tries some inputs; the theorems are about all. The JSON parser is a
  parameter, as in \<open>Services_Domains\<close>.
\<close>

section \<open>The fuzz targets\<close>

definition range_header_spec :: "RangeSpec \<Rightarrow> bool" where
  "range_header_spec spec \<longleftrightarrow>
    list_all (\<lambda>len.
      case Proxy_Range.resolve spec len of
        Inl _ \<Rightarrow> True
      | Inr r \<Rightarrow>
          br_start r \<le> br_end r \<and> br_end r < len
          \<and> list_all (\<lambda>s. let p = plan r s in sp_first p \<le> sp_last p \<and> (ucast (sp_last p) :: u64) \<le> (len - 1) div ucast s)
              [1, 1024, push_bit 20 1])
      [0, 1, 2, 1023, 1024, 1025, - 1]
    \<and> (if spec = Proxy_Range.Suffix 0 then (case Proxy_Range.resolve spec 100 of Inl _ \<Rightarrow> True | Inr _ \<Rightarrow> False) else True)"

definition fuzz_range_header :: "bytes \<Rightarrow> bool" where
  "fuzz_range_header data =
    (case from_utf8 data of
       None \<Rightarrow> True
     | Some input \<Rightarrow> (case parse_range input of Inl _ \<Rightarrow> True | Inr spec \<Rightarrow> range_header_spec spec))"

definition unit_multiplier :: "string \<Rightarrow> u64" where
  "unit_multiplier trimmed =
    (if ends_with trimmed ''w'' then 604800
     else if ends_with trimmed ''d'' then 86400
     else if ends_with trimmed ''h'' then 3600
     else if ends_with trimmed ''m'' then 60
     else 1)"

definition fuzz_config_units :: "bytes \<Rightarrow> bool" where
  "fuzz_config_units data =
    (case from_utf8 data of
       None \<Rightarrow> True
     | Some input \<Rightarrow>
         (case parse_size input of
            Inl _ \<Rightarrow> True
          | Inr n \<Rightarrow> (case parse_size (format_size n) of Inl _ \<Rightarrow> False | Inr reparsed \<Rightarrow> reparsed = n))
         \<and> (case parse_duration input of
              Inl _ \<Rightarrow> True
            | Inr secs \<Rightarrow> secs mod unit_multiplier (to_ascii_lowercase (trim input)) = 0))"

definition for_test_with_content_range :: "string \<Rightarrow> UpstreamResponse option" where
  "for_test_with_content_range v =
    map_option (\<lambda>v. \<lparr>up_status = 206, up_headers = [(''content-range'', v)], up_body = []\<rparr>) (header_value v)"

definition fuzz_content_range :: "bytes \<Rightarrow> bool" where
  "fuzz_content_range data =
    (case from_utf8 data of
       None \<Rightarrow> True
     | Some input \<Rightarrow>
         (case for_test_with_content_range input of
            None \<Rightarrow> True
          | Some response \<Rightarrow>
              (case content_range_total response of None \<Rightarrow> True | Some n \<Rightarrow> sublist (show_word n) input)))"

definition fuzz_cache_domains :: "(string \<Rightarrow> string + RawService list) \<Rightarrow> bytes \<Rightarrow> bool" where
  "fuzz_cache_domains json data =
    (case from_utf8 data of
       None \<Rightarrow> True
     | Some input \<Rightarrow>
         (case DomainList_parse json ''{\"cache_domains\":[{\"name\":\"x\",\"domain_files\":[\"x.txt\"]}]}'' [''x.txt'' \<mapsto> input] of
            Inl _ \<Rightarrow> True
          | Inr list \<Rightarrow> 0 < pattern_count list \<and> 0 < matcher_pattern_count (Matcher_build list)))"

section \<open>The property tests\<close>

text \<open>An input that \<open>prop_assume!\<close> rejects passes. The ranges of the generators are premises of the theorems.\<close>

definition test_resolved_inside :: "u64 \<Rightarrow> u64 \<Rightarrow> u64 \<Rightarrow> bool" where
  "test_resolved_inside len start n =
    (case Proxy_Range.resolve (FromTo start (saturating_sub (saturating_add start n) 1)) len of
       Inl _ \<Rightarrow> True
     | Inr r \<Rightarrow> br_start r \<le> br_end r \<and> br_end r < len \<and> \<not> range_is_empty r)"

definition test_suffix_clamped :: "u64 \<Rightarrow> u64 \<Rightarrow> bool" where
  "test_suffix_clamped len n =
    (case Proxy_Range.resolve (Proxy_Range.Suffix n) len of Inl _ \<Rightarrow> True | Inr r \<Rightarrow> br_end r = len - 1 \<and> range_len r \<le> len)"

text \<open>The loop over the windows: whether all assertions held, the bytes covered, the end of the previous window.\<close>

definition test_window :: "u32 \<Rightarrow> ByteRange \<Rightarrow> u32 \<Rightarrow> bool \<times> u64 \<times> u64 option \<Rightarrow> bool \<times> u64 \<times> u64 option" where
  "test_window s wanted index acc =
    (case acc of (ok, covered, previous_end) \<Rightarrow>
     case payload_window index s wanted of (lo, hi) \<Rightarrow>
       let base = ucast index * ucast s :: u64
       in (ok \<and> lo < hi \<and> hi \<le> unat s \<and> (case previous_end of Some q \<Rightarrow> base + of_nat lo = q | None \<Rightarrow> True),
           covered + of_nat (hi - lo), Some (base + of_nat hi)))"

definition test_windows_tile :: "u32 \<Rightarrow> u64 \<Rightarrow> u64 \<Rightarrow> u64 \<Rightarrow> bool" where
  "test_windows_tile s len start n =
    (if start < len then
       let wanted = \<lparr>br_start = start, br_end = min (saturating_add start (n - 1)) (len - 1)\<rparr>
       in case fold (test_window s wanted) (plan_indices (plan wanted s)) (True, 0, None) of
            (ok, covered, _) \<Rightarrow> ok \<and> covered = range_len wanted
     else True)"

definition test_planned_exist :: "u32 \<Rightarrow> u64 \<Rightarrow> u64 \<Rightarrow> bool" where
  "test_planned_exist s len start =
    (if start < len then (ucast (sp_last (plan \<lparr>br_start = start, br_end = len - 1\<rparr> s)) :: u64) \<le> (len - 1) div ucast s else True)"

section \<open>Range headers\<close>

lemma plan_in_object:
  assumes "br_start r \<le> br_end r" "br_end r < len" "0 < unat s"
  shows "sp_first (plan r s) \<le> sp_last (plan r s) \<and> (ucast (sp_last (plan r s)) :: u64) \<le> (len - 1) div ucast s"
proof -
  have "len \<noteq> 0" using assms(2) by auto
  then have d: "unat ((len - 1) div ucast s) = (unat len - 1) div unat s" by (simp add: unat_div_distrib unat_u32_u64 unat_minus_one)
  have "unat (br_start r) div unat s \<le> (unat len - 1) div unat s" "unat (br_end r) div unat s \<le> (unat len - 1) div unat s"
    using assms(1,2) by (intro div_le_mono; simp add: word_le_nat_alt word_less_nat_alt)+
  then show ?thesis using plan_bounds [OF assms(3), of r] d by (simp add: word_le_nat_alt unat_u32_u64 min.coboundedI1)
qed

lemma range_header_passes:
  assumes "spec_ordered spec"
  shows "range_header_spec spec"
proof -
  have "case Proxy_Range.resolve spec len of
      Inl _ \<Rightarrow> True
    | Inr r \<Rightarrow> br_start r \<le> br_end r \<and> br_end r < len
        \<and> list_all (\<lambda>s. let p = plan r s in sp_first p \<le> sp_last p \<and> (ucast (sp_last p) :: u64) \<le> (len - 1) div ucast s) [1, 1024, push_bit 20 1]" for len
  proof (cases "Proxy_Range.resolve spec len")
    case (Inr r)
    then have r: "br_start r \<le> br_end r" "br_end r < len" using resolve_cases [OF assms, of len] by auto
    show ?thesis using Inr r plan_in_object [OF r, of 1] plan_in_object [OF r, of 1024] plan_in_object [OF r, of "push_bit 20 1"] by (simp add: Let_def)
  qed simp
  then show ?thesis by (auto simp: range_header_spec_def Proxy_Range.resolve_def Let_def)
qed

section \<open>Windows\<close>

lemma test_window_nat:
  assumes "unat i * unat s \<le> range_hi r" "range_hi r < 2 ^ 64 - 1"
  shows "test_window s r i (ok, covered, prev) =
    (let lo = range_lo r - unat i * unat s; hi = min (range_hi r - unat i * unat s + 1) (unat s)
     in (ok \<and> lo < hi \<and> (case prev of Some q \<Rightarrow> of_nat (unat i * unat s + lo) = q | None \<Rightarrow> True),
         covered + of_nat (hi - lo), Some (of_nat (unat i * unat s + hi))))"
  using payload_window_nat [OF assms] by (simp add: test_window_def Let_def split: option.splits)

text \<open>After the windows of the slices before \<open>k\<close>, the bytes from the start of the range up to the end of slice \<open>k\<close> are covered.\<close>

lemma test_windows_run:
  fixes reach :: "nat \<Rightarrow> nat"
  assumes a: "addressable r s" and k: "range_lo r div unat s < k" "k \<le> Suc (range_hi r div unat s)"
  defines "reach \<equiv> \<lambda>k. min (k * unat s) (Suc (range_hi r))"
  shows "fold (test_window s r) (map of_nat [range_lo r div unat s ..< k]) (True, 0, None)
    = (True, of_nat (reach k - range_lo r), Some (of_nat (reach k)))"
  using k
proof (induction k)
  case (Suc k)
  let ?a = "range_lo r div unat s"
  have s: "0 < unat s" "range_lo r \<le> range_hi r" "range_hi r div unat s < 2 ^ 32" using a by (auto simp: addressable_iff)
  have k: "?a \<le> k" "k \<le> range_hi r div unat s" using Suc(2,3) by simp_all
  then have "k < 2 ^ 32" using s(3) by simp
  then have i: "unat (of_nat k :: u32) = k" by (simp add: unsigned_of_nat take_bit_nat_eq_self)
  have ks: "k * unat s \<le> range_hi r" using k(2) s(1) by (simp add: less_eq_div_iff_mult_less_eq)
  have lo: "range_lo r < Suc k * unat s" using k(1) s(1) by (subst div_less_iff_less_mult [symmetric]) simp_all
  let ?hi = "min (range_hi r - k * unat s + 1) (unat s)"
  have up: "k * unat s + ?hi = reach (Suc k)" using ks by (simp add: reach_def)
  note w = test_window_nat [of "of_nat k" s r, unfolded i, OF ks addressable_end [OF a], unfolded Let_def up]
  have lt: "range_lo r - k * unat s < ?hi" using lo s by auto
  show ?case
  proof (cases "k = ?a")
    case True
    then have "k * unat s \<le> range_lo r" by simp
    then have "?hi - (range_lo r - k * unat s) = reach (Suc k) - range_lo r" unfolding up [symmetric] by linarith
    then show ?thesis using True w lt by simp
  next
    case False
    then have "?a < k" using k(1) by simp
    then have l: "range_lo r < k * unat s" using s(1) by (simp add: div_less_iff_less_mult)
    then have e1: "k * unat s + (range_lo r - k * unat s) = reach k" using ks by (simp add: reach_def)
    have "reach k - range_lo r + (?hi - (range_lo r - k * unat s)) = reach (Suc k) - range_lo r"
      unfolding up [symmetric] using ks l by (simp add: reach_def)
    then have e2: "of_nat (reach k - range_lo r) + of_nat (?hi - (range_lo r - k * unat s)) = (of_nat (reach (Suc k) - range_lo r) :: u64)"
      by (metis of_nat_add)
    have "fold (test_window s r) (map of_nat [?a ..< Suc k]) (True, 0, None)
        = test_window s r (of_nat k) (fold (test_window s r) (map of_nat [?a ..< k]) (True, 0, None))" using k(1) by simp
    also have "\<dots> = test_window s r (of_nat k) (True, of_nat (reach k - range_lo r), Some (of_nat (reach k)))"
      using Suc(1) [OF \<open>?a < k\<close>] k(2) by simp
    finally show ?thesis unfolding w e1 e2 using lt by (simp only: option.case simp_thms)
  qed
qed simp

section \<open>Content-Range\<close>

lemma show_digits_suffix:
  assumes "list_all is_digit ds" "ds \<noteq> []"
  shows "suffix (show_nat (digits_value ds)) ds"
  using assms
proof (induction ds rule: rev_induct)
  case (snoc c ds)
  let ?k = "code c - 48"
  have k: "?k < 10" "char_of (48 + ?k) = c" using snoc(2) by (auto simp: is_digit_def)
  have v: "digits_value (ds @ [c]) = 10 * digits_value ds + ?k" by (simp add: digits_value_def)
  show ?case
  proof (cases "digits_value ds = 0")
    case True
    then show ?thesis using v k by (simp add: show_nat_eval suffix_def)
  next
    case False
    then have "ds \<noteq> []" by (auto simp: digits_value_def)
    then have "suffix (show_nat (digits_value ds)) ds" using snoc by simp
    moreover have "show_nat (digits_value (ds @ [c])) = show_nat (digits_value ds) @ [c]"
      using False k unfolding v by (subst show_nat.simps) simp
    ultimately show ?thesis by (simp add: suffix_def)
  qed
qed simp

lemma sublist_trim: "sublist (trim s) s"
proof -
  have "suffix (trim_start s) s" using strip_seqs_suffix [of s white_space] by (auto simp: trim_start_def suffix_def)
  moreover have "prefix (trim_end x) x" for x
  proof -
    obtain p where "rev x = p @ strip_seqs (map rev white_space) (rev x)" using strip_seqs_suffix by blast
    then have "x = trim_end x @ rev p" by (metis rev_append rev_rev_ident trim_end_def)
    then show ?thesis by (metis prefixI)
  qed
  ultimately show ?thesis unfolding trim_def by (meson prefix_imp_sublist sublist_order.order.trans suffix_imp_sublist)
qed

lemma parsed_sublist:
  assumes "parse_u64 s = Some n"
  shows "sublist (show_word n) s"
proof -
  define d where "d = (case s of [] \<Rightarrow> s | c # r \<Rightarrow> if c = CHR ''+'' then r else s)"
  have d: "suffix d s" "list_all is_digit d" "d \<noteq> []" "digits_value d < 2 ^ 64" "n = of_nat (digits_value d)"
    using assms unfolding d_def
    by (auto simp: parse_u64_def parse_uint_def parse_nat_def Let_def suffix_ConsI split: if_splits list.splits)
  then have "unat n = digits_value d" by (simp add: unsigned_of_nat take_bit_nat_eq_self)
  then have "suffix (show_word n) d" using show_digits_suffix [OF d(2,3)] by simp
  then show ?thesis using d(1) suffix_imp_sublist sublist_order.order.trans by blast
qed

section \<open>Durations\<close>

lemma strip_keeps_last:
  assumes "s \<noteq> []" "graphic (last s)"
  shows "strip_seqs white_space s \<noteq> [] \<and> last (strip_seqs white_space s) = last s"
proof -
  have "strip_seqs ws s \<noteq> [] \<and> last (strip_seqs ws s) = last s" if "\<forall>w \<in> set ws. w \<noteq> [] \<and> \<not> graphic (last w)" for ws
    using assms that
  proof (induction ws s rule: strip_seqs.induct)
    case (1 ws s)
    show ?case
    proof (cases "find (\<lambda>w. w \<noteq> [] \<and> starts_with s w) ws")
      case None
      then show ?thesis using 1(2) by (subst (1 2) strip_seqs.simps) simp
    next
      case (Some w)
      then obtain r where w: "w \<in> set ws" "s = w @ r" by (auto simp: find_Some_iff starts_with_iff)
      then have "r \<noteq> []" using 1(3,4) by auto
      then show ?thesis using 1(1) [OF Some] 1(3,4) Some w by (subst (1 2) strip_seqs.simps) simp
    qed
  qed
  then show ?thesis using white_space_first by blast
qed

lemma trim_keeps_last:
  assumes "s \<noteq> []" "graphic (last s)"
  shows "trim s \<noteq> [] \<and> last (trim s) = last s"
proof -
  let ?t = "strip_seqs white_space s"
  have t: "?t \<noteq> []" "last ?t = last s" using strip_keeps_last [OF assms] by simp_all
  have "\<not> starts_with (rev ?t) (rev w)" if "w \<in> set white_space" for w
    using white_space_first [OF that] t assms(2) unfolding ends_with_def [symmetric] by (auto simp: ends_with_iff)
  then have "strip_seqs (map rev white_space) (rev ?t) = rev ?t" by (intro strip_seqs_id) auto
  then show ?thesis using t by (simp add: trim_def trim_start_def trim_end_def)
qed

lemma unit_keeps_end:
  assumes "units_split input = Ok (v, u)" "ends_with (to_ascii_lowercase (trim input)) [c]" "c \<in> {CHR ''w'', CHR ''d'', CHR ''h'', CHR ''m''}"
  shows "to_ascii_lowercase u \<noteq> [] \<and> last (to_ascii_lowercase u) = c"
proof -
  let ?t = "trim input"
  let ?r = "dropWhile is_digit ?t"
  have t: "?t \<noteq> []" "to_ascii_lowercase_char (last ?t) = c"
    using assms(2) by (auto simp: ends_with_iff to_ascii_lowercase_def map_eq_append_conv)
  have l: "graphic (last ?t)" "\<not> is_digit (last ?t)"
    using t(2) assms(3) code_lowercase [of "last ?t"] by (auto simp: graphic_def is_digit_def split: if_splits)
  have r: "?r \<noteq> []" using t(1) l(2) last_in_set [OF t(1)] by (auto simp: dropWhile_eq_Nil_conv)
  then have "last ?r = last ?t" by (metis last_appendR takeWhile_dropWhile_id)
  then have "trim ?r \<noteq> [] \<and> last (trim ?r) = last ?t" using trim_keeps_last [OF r] l(1) by simp
  moreover have "u = trim ?r" using assms(1) by (auto simp: units_split_def Let_def rbind_Ok split: if_splits)
  ultimately show ?thesis using t(2) by (simp add: to_ascii_lowercase_def last_map)
qed

lemma duration_multiple:
  assumes "parse_duration input = Ok secs"
  shows "secs mod unit_multiplier (to_ascii_lowercase (trim input)) = 0"
proof -
  obtain v u m where p: "units_split input = Ok (v, u)" "duration_unit (to_ascii_lowercase u) = Some m" "unat secs = unat v * unat m"
    using assms by (auto simp: parse_duration_def rbind_Ok ok_or_Ok checked_mul_Some)
  have "unat m mod unat (unit_multiplier (to_ascii_lowercase (trim input))) = 0"
  proof -
    have e: "to_ascii_lowercase u \<noteq> [] \<and> last (to_ascii_lowercase u) = c"
      if "ends_with (to_ascii_lowercase (trim input)) [c]" "c \<in> {CHR ''w'', CHR ''d'', CHR ''h'', CHR ''m''}" for c
      by (rule unit_keeps_end [OF p(1) that])
    show ?thesis
      using p(2) e [of "CHR ''w''"] e [of "CHR ''d''"] e [of "CHR ''h''"] e [of "CHR ''m''"]
      by (auto simp: unit_multiplier_def duration_unit_def split: if_splits)
  qed
  then show ?thesis using p(3) by (simp add: word_unat_eq_iff unat_mod_distrib mod_mult_right_eq [symmetric])
qed

section \<open>Domain lists\<close>

lemma finite_build:
  "finite (dom (mt_exact (Matcher_build \<lparr>dl_services = ss\<rparr>))) \<and> finite (dom (mt_suffix (Matcher_build \<lparr>dl_services = ss\<rparr>)))"
proof (induction ss rule: rev_induct)
  case Nil
  then show ?case by (simp add: Matcher_build_def)
next
  case (snoc s ss)
  have "finite (dom (mt_exact m)) \<and> finite (dom (mt_suffix m)) \<Longrightarrow>
      finite (dom (mt_exact (foldl (insert_pattern i) m ps))) \<and> finite (dom (mt_suffix (foldl (insert_pattern i) m ps)))" for i m ps
    by (induction ps arbitrary: m) (auto simp: insert_pattern_def split: Pattern.splits)
  then show ?case using snoc by (simp add: Matcher_build_snoc Let_def)
qed

lemma matcher_not_empty:
  assumes "0 < pattern_count list"
  shows "0 < matcher_pattern_count (Matcher_build list)"
proof -
  let ?m = "Matcher_build list"
  obtain ss where l: "list = \<lparr>dl_services = ss\<rparr>" by (cases list)
  have "\<exists>s \<in> set (ss). sv_patterns s \<noteq> []"
  proof (rule ccontr)
    assume "\<not> ?thesis"
    then have "sum_list (map (\<lambda>s. length (sv_patterns s)) (ss)) = 0" by (intro sum_list_eq_0_iff [THEN iffD2]) simp
    then show False using assms unfolding pattern_count_def l DomainList.simps by linarith
  qed
  then obtain s where s1: "s \<in> set (ss)" "sv_patterns s \<noteq> []" by auto
  then obtain p where s: "s \<in> set (ss)" "p \<in> set (sv_patterns s)" by (meson hd_in_set)
  then have "owner (ss) p \<noteq> None" by (auto simp: owner_def Let_def filter_empty_conv)
  then have "mt_exact ?m \<noteq> Map.empty \<or> mt_suffix ?m \<noteq> Map.empty"
    using Matcher_build_maps(3,4) [of ss] by (cases p) (auto simp: l)
  then show ?thesis using finite_build [of ss] by (auto simp: l matcher_pattern_count_def card_gt_0_iff)
qed

section \<open>Properties\<close>

text \<open>
  C30: no input fails a fuzz target. Whatever bytes a target is run on and whatever the JSON parser makes of an index,
  none of its assertions fails: a resolved range lies in the object and its plan names slices of it, a
  printed size reads back, a duration is a multiple of its unit, an accepted total length stands in the
  text, and an accepted domain list is not empty and compiles to a matcher that is not empty.
\<close>

theorem fuzz_targets_pass:
  "fuzz_range_header data \<and> fuzz_config_units data \<and> fuzz_content_range data \<and> fuzz_cache_domains json data"
proof (intro conjI)
  show "fuzz_range_header data"
    using range_header_passes parse_range_ordered by (auto simp: fuzz_range_header_def split: option.splits sum.splits)
  show "fuzz_config_units data"
    using parse_format_size duration_multiple by (auto simp: fuzz_config_units_def split: option.splits sum.splits)
  show "fuzz_content_range data"
  proof -
    have "sublist (show_word n) input" if t: "content_range_total \<lparr>up_status = 206, up_headers = [(''content-range'', input)], up_body = []\<rparr> = Some n" for input n
    proof -
      obtain a b where s: "rsplit_once (CHR ''/'') input = Some (a, b)" "parse_u64 (trim b) = Some n"
        using t by (auto simp: content_range_total_def response_header_def hget_def to_str_def split: Option.bind_splits if_splits)
      have "sublist (show_word n) (trim b)" using parsed_sublist s(2) by blast
      moreover have "sublist b input" using s(1) by (auto simp: rsplit_once_Some intro!: suffix_imp_sublist suffixI [of _ "a @ [CHR ''/'']"])
      ultimately show ?thesis using sublist_trim sublist_order.order.trans by blast
    qed
    then show ?thesis
      by (auto simp: fuzz_content_range_def for_test_with_content_range_def header_value_def split: option.splits if_splits)
  qed
  show "fuzz_cache_domains json data"
    using matcher_not_empty by (auto simp: fuzz_cache_domains_def DomainList_parse_def rbind_Ok Let_def split: option.splits sum.splits if_splits)
qed

text \<open>
  The property test of cache keys asserts that different paths of its generator have different object ids. They need
  not: paths that differ in an empty or dot segment are one key, so there are inputs of the
  generator on which the test fails, whatever the hash.
\<close>

definition generated_path :: "string \<Rightarrow> bool" where
  "generated_path p \<longleftrightarrow> starts_with p ''/'' \<and> length p \<le> 41
     \<and> list_all (\<lambda>c. is_digit c \<or> (65 \<le> code c \<and> code c \<le> 90) \<or> (97 \<le> code c \<and> code c \<le> 122) \<or> c \<in> set ''/._-'') p"

definition cache_keys_distinct :: "(bytes \<Rightarrow> bytes) \<Rightarrow> string \<Rightarrow> string \<Rightarrow> string \<Rightarrow> bool" where
  "cache_keys_distinct blake3 service path_a path_b \<longleftrightarrow>
    (let a1 = normalise service ''h'' path_a CompiledRule_default;
         a2 = normalise service ''h'' path_a CompiledRule_default
     in object_id blake3 a1 = object_id blake3 a2
        \<and> (path_a \<noteq> path_b \<longrightarrow> object_id blake3 a1 \<noteq> object_id blake3 (normalise service ''h'' path_b CompiledRule_default)))"

theorem cache_key_test_fails:
  "\<exists>path_a path_b. generated_path path_a \<and> generated_path path_b \<and> \<not> cache_keys_distinct blake3 service path_a path_b"
proof -
  have "normalise_path ''/a//b'' = ''/a/b''" "normalise_path ''/a/b'' = ''/a/b''" by code_simp+
  then have "normalise service ''h'' ''/a//b'' CompiledRule_default = normalise service ''h'' ''/a/b'' CompiledRule_default"
    by (simp add: normalise_def split_target_def CompiledRule_default_def)
  moreover have "generated_path ''/a//b''" "generated_path ''/a/b''" by (simp_all add: generated_path_def is_digit_def)
  ultimately show ?thesis by (intro exI [of _ "''/a//b''"] exI [of _ "''/a/b''"]) (simp add: cache_keys_distinct_def)
qed

lemma resolved_inside:
  assumes "0 < n"
  shows "test_resolved_inside len start n"
proof (cases "start < len")
  case True
  let ?b = "saturating_sub (saturating_add start n) 1"
  have "0 < unat n" "unat start < unat len" using assms True by (simp_all add: word_less_nat_alt)
  then have "unat start \<le> unat ?b" using unat_u64_nat [of len] by (simp add: unat_saturating_sub unat_saturating_add)
  then have "spec_ordered (FromTo start ?b)" by (simp add: spec_ordered_def word_le_nat_alt)
  from resolve_cases [OF this, of len] show ?thesis by (auto simp: test_resolved_inside_def range_is_empty_def)
next
  case False
  have "len - 1 < start" if "len \<noteq> 0"
  proof -
    have "0 < unat len" using that by (simp add: unat_gt_0)
    then show ?thesis using False that by (simp add: word_less_nat_alt unat_pred)
  qed
  then have "len = 0 \<or> len - 1 < start" by blast
  then show ?thesis by (auto simp: test_resolved_inside_def Proxy_Range.resolve_def Let_def)
qed

lemma suffix_clamped: "test_suffix_clamped len n"
proof (cases "len = 0 \<or> n = 0")
  case False
  have "len - 1 - (len - min n len) + 1 = min n len" by simp
  then show ?thesis using False by (auto simp: test_suffix_clamped_def Proxy_Range.resolve_def Let_def range_len_def)
qed (auto simp: test_suffix_clamped_def Proxy_Range.resolve_def Let_def)

lemma windows_tile:
  assumes "0 < s" "len \<le> max_addressable_len s"
  shows "test_windows_tile s len start n"
proof (cases "start < len")
  case True
  define r where "r = \<lparr>br_start = start, br_end = min (saturating_add start (n - 1)) (len - 1)\<rparr>"
  have u: "unat start < unat len" "unat len \<le> 2 ^ 32 * unat s" "0 < unat s"
    using True assms by (simp_all add: word_less_nat_alt word_le_nat_alt unat_max_addressable_len)
  then have "len \<noteq> 0" by auto
  then have hi: "range_hi r = min (unat (saturating_add start (n - 1))) (unat len - 1)" by (simp add: r_def unat_min unat_minus_one)
  have lo: "range_lo r \<le> range_hi r" using u unat_u64_nat [of start] unfolding hi by (simp add: r_def unat_saturating_add)
  have "range_hi r < 2 ^ 32 * unat s" using u hi by simp
  then have a: "addressable r s" using lo u by (simp add: addressable_iff div_less_iff_less_mult)
  let ?k = "Suc (range_hi r div unat s)"
  have idx: "plan_indices (plan r s) = map of_nat [range_lo r div unat s ..< ?k]" by (simp add: plan_indices_def plan_exact [OF a])
  have "range_lo r div unat s < ?k" using lo by (simp add: div_le_mono less_Suc_eq_le)
  then have f: "fold (test_window s r) (plan_indices (plan r s)) (True, 0, None)
      = (True, of_nat (min (?k * unat s) (Suc (range_hi r)) - range_lo r), Some (of_nat (min (?k * unat s) (Suc (range_hi r)))))"
    unfolding idx by (intro test_windows_run [OF a]) simp_all
  have "min (?k * unat s) (Suc (range_hi r)) = Suc (range_hi r)"
    using dividend_less_div_times [OF u(3), of "range_hi r"] by (simp add: min_def)
  moreover have "range_len r = of_nat (Suc (range_hi r) - range_lo r)" using lo by (simp add: range_len_def of_nat_diff)
  ultimately show ?thesis using True f unfolding test_windows_tile_def r_def [symmetric] by (simp del: of_nat_Suc)
qed (simp add: test_windows_tile_def)

text \<open>
  The property tests on ranges and sizes hold, and beyond what their generators produce: for every slice size that is not
  zero, every object it can address and every range.
\<close>

theorem property_tests_hold:
  assumes "0 < s" "0 < n" "len \<le> max_addressable_len s"
  shows "test_resolved_inside len start n \<and> test_suffix_clamped len n \<and> test_windows_tile s len start n \<and> test_planned_exist s len start
    \<and> parse_size (format_size n) = Ok n"
proof -
  have "test_planned_exist s len start"
  proof (cases "start < len")
    case True
    then have "len \<noteq> 0" by auto
    then have "start \<le> len - 1" "len - 1 < len" using True by (simp_all add: word_less_nat_alt word_le_nat_alt unat_pred unat_gt_0)
    then show ?thesis using plan_in_object [of "\<lparr>br_start = start, br_end = len - 1\<rparr>" len s] assms(1)
      by (simp add: test_planned_exist_def word_less_nat_alt)
  qed (simp add: test_planned_exist_def)
  then show ?thesis using resolved_inside suffix_clamped windows_tile parse_format_size assms by simp
qed

end
