(* ===== verification/Testkit_Soak.thy ===== *)
theory Testkit_Soak
  imports Testkit_Differ Upstream_Client
begin

text \<open>
  \<open>examples/soak.rs\<close>: the soak harness. What the cache answers to a case is a parameter over the state of the outside; the workers take
  turns in any order, given as the list of the workers whose turns they are. Progress lines and the time limit are left out: the
  list ends when the run is stopped.
\<close>

section \<open>The run\<close>

text \<open>An answer is a failed request, or a status with a body or the failure to read it.\<close>

datatype soak_reply = SendFailed | Replied nat "bytes option"

record soak_counts =
  so_requests :: u64
  so_bytes :: u64
  so_corrupt :: u64
  so_errors :: u64

record 'w soak =
  so_generators :: "nat \<Rightarrow> Generator"
  so_counts :: soak_counts
  so_world :: 'w

definition soak_seed :: "nat \<Rightarrow> u64" where
  "soak_seed worker = 0x50AC0000 + of_nat worker"

definition soak_start :: "nat \<Rightarrow> u64 \<Rightarrow> 'w \<Rightarrow> 'w soak" where
  "soak_start objects object_mib w =
    \<lparr>so_generators = (\<lambda>worker. Generator_new (soak_seed worker) objects (object_mib * 1024 * 1024) (push_bit 20 1)),
     so_counts = \<lparr>so_requests = 0, so_bytes = 0, so_corrupt = 0, so_errors = 0\<rparr>, so_world = w\<rparr>"

definition soak_count :: "u64 \<Rightarrow> Case \<Rightarrow> soak_reply \<Rightarrow> soak_counts \<Rightarrow> soak_counts" where
  "soak_count seed c reply n =
    (let failed = n\<lparr>so_errors := so_errors n + 1\<rparr>
     in case reply of
          SendFailed \<Rightarrow> failed
        | Replied status body \<Rightarrow>
            if \<not> is_success status then failed
            else (case body of
                    None \<Rightarrow> failed
                  | Some bs \<Rightarrow>
                      let n = n\<lparr>so_requests := so_requests n + 1, so_bytes := so_bytes n + of_nat (length bs)\<rparr>
                      in (case compare_case seed c bs of Inl _ \<Rightarrow> n\<lparr>so_corrupt := so_corrupt n + 1\<rparr> | Inr _ \<Rightarrow> n)))"

text \<open>The turn of a worker; None is a panic of its generator.\<close>

definition soak_turn :: "(Case \<Rightarrow> 'w \<Rightarrow> soak_reply \<times> 'w) \<Rightarrow> nat \<Rightarrow> 'w soak \<Rightarrow> (Case \<times> soak_reply \<times> 'w soak) option" where
  "soak_turn answer worker s =
    (case next_case (so_generators s worker) of
       None \<Rightarrow> None
     | Some (c, g) \<Rightarrow>
         (case answer c (so_world s) of
            (reply, w) \<Rightarrow>
              Some (c, reply,
                s\<lparr>so_generators := (so_generators s)(worker := g), so_counts := soak_count (soak_seed worker) c reply (so_counts s), so_world := w\<rparr>)))"

primrec soak_run :: "(Case \<Rightarrow> 'w \<Rightarrow> soak_reply \<times> 'w) \<Rightarrow> nat list \<Rightarrow> 'w soak \<Rightarrow> ((Case \<times> soak_reply) list \<times> 'w soak) option" where
  "soak_run answer [] s = Some ([], s)"
| "soak_run answer (worker # ws) s =
    Option.bind (soak_turn answer worker s) (\<lambda>(c, reply, s).
      map_option (\<lambda>(seen_replies, s). ((c, reply) # seen_replies, s)) (soak_run answer ws s))"

definition soak_exit :: "'w soak \<Rightarrow> nat" where
  "soak_exit s = (if 0 < so_corrupt (so_counts s) then 1 else 0)"

section \<open>What is counted\<close>

definition right_body :: "Case \<Rightarrow> bytes" where
  "right_body c = content_range (seed_for (ca_object c)) (ca_start c) (unat (case_len c))"

fun wrong :: "Case \<times> soak_reply \<Rightarrow> bool" where
  "wrong (c, SendFailed) = False"
| "wrong (c, Replied status body) \<longleftrightarrow> is_success status \<and> (\<exists>bs. body = Some bs \<and> bs \<noteq> right_body c)"

lemma soak_count_corrupt: "so_corrupt (soak_count seed c reply n) = so_corrupt n + (if wrong (c, reply) then 1 else 0)"
proof (cases reply)
  case (Replied status body)
  have k: "(case compare_case seed c bs of Inl _ \<Rightarrow> a | Inr _ \<Rightarrow> b) = (if bs = right_body c then b else a)" for bs and a b :: soak_counts
  proof -
    have eq: "compare_case seed c bs = Ok () \<longleftrightarrow> bs = right_body c" using compare_is_exact [of seed c bs] unfolding right_body_def by blast
    show ?thesis
    proof (cases "compare_case seed c bs")
      case (Inl m)
      then show ?thesis using eq by simp
    next
      case (Inr u)
      then have "bs = right_body c" using eq by simp
      then show ?thesis using Inr by simp
    qed
  qed
  show ?thesis using Replied by (cases body) (simp_all add: soak_count_def Let_def k)
qed (simp add: soak_count_def)

definition soak_ready :: "'w soak \<Rightarrow> bool" where
  "soak_ready s \<longleftrightarrow> (\<forall>worker. let g = so_generators s worker in 0 < ge_size g \<and> 0 < ge_slice_size g \<and> unat (ge_size g) + unat (ge_slice_size g) \<le> 2 ^ 64)"

lemma soak_run_counts:
  assumes "soak_ready s"
  shows "\<exists>rs s'. soak_run answer ws s = Some (rs, s') \<and> length rs = length ws
    \<and> so_corrupt (so_counts s') = so_corrupt (so_counts s) + of_nat (length (filter wrong rs))
    \<and> (\<forall>r \<in> set rs. (\<exists>w w'. answer (fst r) w = (snd r, w')) \<and> ca_start (fst r) \<le> ca_end (fst r) \<and> ca_end (fst r) < ca_size (fst r))"
  using assms
proof (induction ws arbitrary: s)
  case (Cons worker ws)
  let ?g = "so_generators s worker"
  have g: "0 < ge_size ?g" "0 < ge_slice_size ?g" "unat (ge_size ?g) + unat (ge_slice_size ?g) \<le> 2 ^ 64"
    using Cons(2) by (simp_all add: soak_ready_def Let_def)
  obtain c g' where c: "next_case ?g = Some (c, g')" "ca_start c \<le> ca_end c" "ca_end c < ca_size c"
      "ge_size g' = ge_size ?g" "ge_slice_size g' = ge_slice_size ?g"
    using next_case_valid [OF g] by blast
  obtain reply w where a: "answer c (so_world s) = (reply, w)" by fastforce
  define s1 where "s1 = s\<lparr>so_generators := (so_generators s)(worker := g'), so_counts := soak_count (soak_seed worker) c reply (so_counts s), so_world := w\<rparr>"
  have t: "soak_turn answer worker s = Some (c, reply, s1)" using c(1) a by (simp add: soak_turn_def s1_def)
  have "soak_ready s1" using Cons(2) c(4,5) by (simp add: soak_ready_def s1_def Let_def)
  from Cons(1) [OF this] obtain rs s' where r: "soak_run answer ws s1 = Some (rs, s')" "length rs = length ws"
      "so_corrupt (so_counts s') = so_corrupt (so_counts s1) + of_nat (length (filter wrong rs))"
      "\<forall>r \<in> set rs. (\<exists>w w'. answer (fst r) w = (snd r, w')) \<and> ca_start (fst r) \<le> ca_end (fst r) \<and> ca_end (fst r) < ca_size (fst r)"
    by blast
  have "so_corrupt (so_counts s1) = so_corrupt (so_counts s) + (if wrong (c, reply) then 1 else 0)" by (simp add: s1_def soak_count_corrupt)
  then show ?case using t r a c(2,3) by auto
qed simp

section \<open>Properties\<close>

text \<open>
  The verdict of a soak. For objects that are not empty and below the size at which their length wraps, the run never panics and asks
  only for ranges of the objects; it fails exactly when a body that was read to its end differs from what the
  generator says, whichever worker read it and when. A failed request, an error status or a broken
  body is not held against it, so a run in which nothing was ever served passes too.
\<close>

theorem soak_verdict:
  assumes "0 < object_mib" "unat object_mib < 2 ^ 40" "length ws < 2 ^ 64"
  shows "\<exists>rs s'. soak_run answer ws (soak_start objects object_mib w) = Some (rs, s') \<and> length rs = length ws
    \<and> (soak_exit s' = 0 \<longleftrightarrow> (\<forall>(c, reply) \<in> set rs. \<forall>status bs. reply = Replied status (Some bs) \<longrightarrow> is_success status \<longrightarrow> bs = right_body c))
    \<and> ((\<forall>c w. fst (answer c w) = SendFailed) \<longrightarrow> soak_exit s' = 0)"
proof -
  have m: "unat (object_mib * 1024 * 1024) = unat object_mib * 1048576" using assms(2) by (simp add: unat_word_ariths)
  have "soak_ready (soak_start objects object_mib w)"
    using assms(1,2) m by (simp add: soak_ready_def soak_start_def Generator_new_def word_less_nat_alt Let_def)
  from soak_run_counts [OF this, of answer ws] obtain rs s' where r: "soak_run answer ws (soak_start objects object_mib w) = Some (rs, s')"
      "length rs = length ws" "so_corrupt (so_counts s') = of_nat (length (filter wrong rs))"
      "\<forall>r \<in> set rs. (\<exists>w w'. answer (fst r) w = (snd r, w')) \<and> ca_start (fst r) \<le> ca_end (fst r) \<and> ca_end (fst r) < ca_size (fst r)"
    by (auto simp: soak_start_def)
  have "length (filter wrong rs) < 2 ^ 64" using r(2) assms(3) length_filter_le [of wrong rs] by simp
  then have "unat (so_corrupt (so_counts s')) = length (filter wrong rs)" unfolding r(3) by (simp add: unsigned_of_nat take_bit_nat_eq_self)
  then have e: "soak_exit s' = 0 \<longleftrightarrow> (\<forall>x \<in> set rs. \<not> wrong x)"
    by (simp add: soak_exit_def word_less_nat_alt filter_empty_conv)
  have w: "\<not> wrong (c, reply) \<longleftrightarrow> (\<forall>status bs. reply = Replied status (Some bs) \<longrightarrow> is_success status \<longrightarrow> bs = right_body c)" for c reply
    by (cases reply) auto
  have "(\<forall>x \<in> set rs. \<not> wrong x) \<longleftrightarrow> (\<forall>(c, reply) \<in> set rs. \<forall>status bs. reply = Replied status (Some bs) \<longrightarrow> is_success status \<longrightarrow> bs = right_body c)"
    by (intro ball_cong refl) (simp add: w split: prod.split)
  moreover have "soak_exit s' = 0" if "\<forall>c w. fst (answer c w) = SendFailed"
  proof -
    have "snd x = SendFailed" if "x \<in> set rs" for x using r(4) that \<open>\<forall>c w. fst (answer c w) = SendFailed\<close> by (metis fst_conv)
    then show ?thesis unfolding e by (metis prod.collapse wrong.simps(1))
  qed
  ultimately show ?thesis using r(1,2) e by (intro exI [of _ rs] exI [of _ s']) simp
qed

theorem soak_verdict_witness:
  "\<exists>rs s'. soak_run (\<lambda>c n. (SendFailed, n + 1 :: nat)) [0, 1, 0] (soak_start 24 32 0) = Some (rs, s') \<and> length rs = 3 \<and> soak_exit s' = 0"
  using soak_verdict [of 32 "[0, 1, 0]" "\<lambda>c n. (SendFailed, n + 1 :: nat)" 24 0] by auto

end
