(* ===== verification/Spec2Isabelle.thy ===== *)
theory Spec2Isabelle
  imports Proxy_Range Store_Index Orch_Validators Orch_Readahead Orch_Filler Config_Guard Services_Key
    Upstream_Resolver Proxy_Shutdown Upstream_Client Proxy_Origin Sni_Proxy Admin_Api Telemetry_Sampler Telemetry_Metrics Main_Run Testkit_Served Testkit_Differ Testkit_MockDns Testkit_Loadgen
    Spike_Serve Spike_Answers Accept_Loop Admin_Routes Config_Reference Repo_Tests Testkit_Soak
begin

text \<open>
  A verification library for cachic, a caching HTTP proxy for game and update traffic. Paths below are relative to
  \<open>src/crates/cachic/src\<close> unless they start with \<open>cachic-testkit\<close>, \<open>examples\<close>, \<open>tests\<close> or \<open>fuzz\<close>.

  \<^bold>\<open>The program.\<close> A client asks the HTTP server (\<open>proxy/server.rs\<close>) for a path of some host. The host matcher (\<open>services\<close>) names the
  service the host belongs to, the service's rule says whether the path is cacheable and what its key is,
  and the orchestrator (\<open>orchestrator/mod.rs\<close>) plans the answer: it looks the object up in the index (\<open>store/index.rs\<close>) or probes
  the origin, resolves the \<open>Range\<close> header and divides the range into slices. The body is a stream of
  slices in order, each loaded from the slice store (\<open>store/hybrid.rs\<close>) or fetched from the origin by the upstream client
  (\<open>upstream\<close>), which only connects to addresses its guard lets through. An origin that ignores ranges is
  filled as one stream by one task for all clients (\<open>orchestrator/filler.rs\<close>). When the validators of an object change, its generation
  is bumped, so that slices of two versions are never mixed. TLS connections are not terminated but spliced by server name
  (\<open>sni\<close>). Connection limits, draining, metrics, the access log, the admin API and the refresh of the domain list
  surround this, and \<open>main.rs\<close> wires it together. \<open>spike\<close> is the prototype it grew from; the test kit has the mock
  origin, the differential tester and the load generator it is tested with.

  \<^bold>\<open>How the source is modelled.\<close> A struct is a record, an enum a datatype, with prefixed field names; a definition has the name of the
  function it translates where HOL leaves it free. \<open>u8\<close> to \<open>u64\<close> are words, \<open>usize\<close> is \<open>nat\<close>, a string is the list of its UTF-8 bytes.
  \<open>Result\<close> is a sum with \<open>Err\<close> and \<open>Ok\<close>, \<open>?\<close> is \<open>rbind\<close>. A panic is \<open>None\<close> or a constructor of its own. A function that
  changes state takes it and returns it; an \<open>async\<close> function is the function it computes, and where what other tasks
  do in between matters, the tasks are an inductive step relation and the theorems are about all its runs:
  \<open>limit_step\<close> (the atomic operations on the connection counts), \<open>fetch_step\<close> (upstream permits), \<open>drain_step\<close> (shutdown), \<open>fill_step\<close> and
  \<open>registry_step\<close> (waiting for and sharing a fill), \<open>task_step\<close> (the slice tasks of a body beside other requests), \<open>spike_step\<close> (the same of the prototype),
  \<open>listen_step\<close> (both listeners with their connections). Libraries are parameters: the cache engine foyer (\<open>foyer_ok\<close> states what
  is relied on), the database redb (\<open>redb_ok\<close>), the HTTP library, hashes, JSON and regular expressions, DNS, the file system,
  clocks and sockets. Each hypothesis about one has a concrete instance (\<open>alist_foyer\<close>, \<open>alist_redb\<close> and the sample
  worlds) at which the theorems are applied.

  \<^bold>\<open>Theories and what they show.\<close>

  \<^item> \<open>Rust_Prelude\<close>, \<open>Rust_Str\<close>, \<open>Rust_Net\<close>: integers and their casts, saturating and checked arithmetic, byte order and \<open>Result\<close>; the parts of
    \<open>str\<close> the code uses, among them UTF-8 validity, trimming, splitting and decimal numbers; IP addresses with their parser and classes.
  \<^item> \<open>Proxy_Range\<close> (\<open>proxy/range.rs\<close>): parsing and printing of ranges, resolution, plans, extents and payload windows. The windows of a plan put
    together are the requested bytes, extents partition the object, a plan is never inverted. The locale \<open>slicer\<close> has the
    arithmetic in the natural numbers; its interpretation is the 64-bit code.
  \<^item> \<open>Store_Slice\<close> (\<open>store/slice.rs\<close>): the codecs of keys, headers and values. Each is a round trip (locales \<open>round_trip\<close>, \<open>codec\<close>); a value that decodes
    is intact up to a collision of the checksum, and torn or altered ones are refused.
  \<^item> \<open>Store_Index\<close> (\<open>store/index.rs\<close>): the metadata codec and every operation of the index over the database. It refines a finite map (locale
    \<open>object_table\<close>); invalidation bumps the generation; sizes, prefixes and the pruning of old entries.
  \<^item> \<open>Store_Hybrid\<close> (\<open>store/hybrid.rs\<close>, \<open>store/space.rs\<close>): the slice store over the engine, and the free-space guard. The locales \<open>fetch_cache\<close>,
    \<open>slice_cache\<close> and \<open>purgeable_cache\<close> are the contract its clients use.
  \<^item> \<open>Orch_Validators\<close>, \<open>Orch_Readahead\<close>, \<open>Orch_Filler\<close> (\<open>orchestrator\<close>): comparison of validators; the read-ahead policy and its bounds; the progress
    channel of a fill, on which a waiter always wakes, and the registry, which has one filler per object.
  \<^item> \<open>Orch_Main\<close> (\<open>orchestrator/mod.rs\<close>): probing, planning, fetching, filling and reading slices. \<open>Orch_Fill\<close>: a fill stores the slices of the stream
    whatever its chunks are. \<open>Orch_Correct\<close>: a slice read is the bytes of the version planned for. \<open>Orch_Versions\<close>: a change is noticed, the generation
    bumped, and the errors and bounds are as stated.
  \<^item> \<open>Upstream_Guard\<close>, \<open>Upstream_Resolver\<close>, \<open>Upstream_Client\<close>, \<open>Upstream_Served\<close> (\<open>upstream\<close>): the guard is exactly its block list, embedded addresses included; only
    guarded addresses are connected to; a ranged fetch returns exactly the length asked for; permits never deadlock; the client keeps the
    contract the orchestrator was proved against.
  \<^item> \<open>Config_Units\<close>, \<open>Config_Rules\<close>, \<open>Config_Guard\<close>, \<open>Config_Main\<close>, \<open>Config_Reference\<close> (\<open>config\<close>, \<open>services/defaults.rs\<close>): sizes and durations never wrap and round-trip;
    rules and their merging; the check against the settings of an existing cache directory; validation; the rendered reference
    lists every setting.
  \<^item> \<open>Services_Domains\<close>, \<open>Services_Matcher\<close>, \<open>Services_Key\<close>, \<open>Services_Refresh\<close> (\<open>services\<close>): a list loads wholly or not at all; the longest match wins; keys are
    normal paths and object ids are injective up to a hash collision; a refresh never breaks the live list.
  \<^item> \<open>Proxy_Headers\<close>, \<open>Proxy_Limits\<close>, \<open>Proxy_Shutdown\<close>, \<open>Proxy_Server\<close>, \<open>Proxy_Origin\<close>, \<open>Proxy_Body\<close>, \<open>Accept_Loop\<close> (\<open>proxy\<close>): forwarded headers are exact; the
    ceilings hold under every interleaving; a drain waits for exactly the work in flight; a request leaves every count balanced; which
    origin a request leads to; the body sent is a prefix of the requested bytes and all of them when it ends
    without an error; both listeners share one budget, and when a listener stops. The locale \<open>raii_count\<close> is the contract of a counter kept by guards.
  \<^item> \<open>Sni_ClientHello\<close>, \<open>Sni_Proxy\<close> (\<open>sni\<close>): the parser finds the name of a well-formed hello and is total; a splice goes only to a guarded address
    of an allowed name, however the hello is cut into reads.
  \<^item> \<open>Admin_Api\<close>, \<open>Admin_Routes\<close> (\<open>admin\<close>): authentication fails closed; a purge removes exactly what it names; histories of calls.
  \<^item> \<open>Telemetry_Logs\<close>, \<open>Telemetry_Metrics\<close>, \<open>Telemetry_Sampler\<close> (\<open>telemetry\<close>): timestamps are the calendar's, a log line keeps its fields; collectors are
    registered once and labels come from closed sets; what a sample writes.
  \<^item> \<open>Main_Run\<close> (\<open>main.rs\<close>): start-up as one function with the events it causes. It happens in order, exits with the right status, and the system it
    builds is wired as the component theorems assume, so that a running system serves exact bodies.
  \<^item> \<open>Testkit_Content\<close>, \<open>Testkit_MockCdn\<close>, \<open>Testkit_Served\<close>, \<open>Testkit_Differ\<close>, \<open>Testkit_MockDns\<close>, \<open>Testkit_Loadgen\<close>, \<open>Testkit_Soak\<close> (\<open>cachic-testkit\<close>, \<open>examples/soak.rs\<close>):
    the content is positional; the whole cache in front of the mock origin serves its objects; cases are valid and comparison is
    exact; DNS answers; percentiles; the verdict of a soak.
  \<^item> \<open>Spike_Proxy\<close>, \<open>Spike_Serve\<close>, \<open>Spike_Answers\<close> (\<open>spike\<close>, \<open>bin/spike.rs\<close>): the prototype, that it sends what was asked for, and that it always answers.
  \<^item> \<open>Repo_Tests\<close> (\<open>fuzz/fuzz_targets\<close>, \<open>tests/properties.rs\<close>): no input fails a fuzz target; the property tests hold beyond their generators, except the one on
    cache keys, which fails on paths that normalise to the same key.

  \<^bold>\<open>How the parts are put together.\<close> A component that uses another is proved against its contract: the orchestrator against \<open>slice_cache\<close> and
  \<open>object_table\<close> and against what an origin promises (\<open>origin_serves\<close>); \<open>Upstream_Served\<close> shows that the real client keeps that promise for an
  origin that serves one version, \<open>Testkit_Served\<close> that the mock origin is one, and \<open>Main_Run\<close> that start-up produces the states the
  theorems are about. \<open>Proxy_Body.body_is_exact\<close> is the central statement and \<open>Main_Run.running_system_serves\<close> its form for a started system;
  the last section here does the same for the budget of the two listeners.

  \<^bold>\<open>Bounds and termination.\<close> No definition has fuel. Two loops of the source run for ever when the slice size is zero, and are
  partial functions whose value is then \<open>None\<close>: \<open>cut_slices\<close> of a fill, which \<open>Orch_Fill\<close> shows to return for every other size, and
  \<open>spike_cut\<close>, for which \<open>Spike_Answers\<close> does. Waiting is bounded by the steps of a run. The theorems on bodies assume what
  the code relies on: a slice size that is not zero and an object of at most \<open>2 ^ 32\<close> slices, the largest that slice indices
  of 32 bits can address (\<open>max_addressable_len\<close>).

  \<^bold>\<open>Not modelled.\<close> The libraries named above, beyond what is assumed of them. The connection protocol, header timeout and byte copying of
  the HTTP and runtime libraries, and routing in the admin server. Log lines and the texts of errors, except those a client
  or a log record carries. Floating-point numbers: the buckets of histograms, throughput, and the rank of a
  percentile, which is an argument. The benchmarks (\<open>examples/measure.rs\<close>, \<open>bench.rs\<close>, \<open>foyerprobe.rs\<close> and the load test), which time the cache and
  print; the integration tests, which run scenarios over real sockets and files; and charts, dashboards and documents.
  Reads and writes of atomic variables are taken in the order of a run, not reordered.
\<close>

section \<open>The started system\<close>

text \<open>
  C15: the budget of a started system. Whatever connections come to the two listeners of a system that has started, whatever is
  requested on them, in whatever order they end and the listeners are stopped: the limit counts exactly the
  connections open on both together, they are at most \<open>MAX_CLIENT_CONNECTIONS\<close>, those of one peer are at
  most the configured number, the gauge is the number of open HTTP connections, and when all have ended nothing
  is left counted.
\<close>

theorem started_system_within_limits:
  assumes "startup pf c = (log, Ok s)" "listen_step\<^sup>*\<^sup>* (Listeners_bind (sy_server s)) t"
  defines "limit \<equiv> srv_connections (ln_server t)"
  shows "unat (cl_open limit) = size (ln_http_open t) + size (ln_sni_open t) \<and> cl_open limit \<le> MAX_CLIENT_CONNECTIONS
    \<and> size (filter_mset (\<lambda>permit. cp_peer permit = Some peer) (ln_http_open t + ln_sni_open t)) \<le> unat (cf_max_connections_per_peer c)
    \<and> map_option connection_gauge (srv_metrics (ln_server t)) = Some (int (size (ln_http_open t)))
    \<and> (ln_http_open t = {#} \<and> ln_sni_open t = {#} \<longrightarrow> cl_open limit = 0 \<and> cl_peers limit = Map.empty)"
  unfolding limit_def using listeners_share_ceiling [OF assms(2) started_server [OF assms(1)]] .

theorem started_system_within_limits_witness:
  "\<exists>s t. startup sample_platform sample_settings = (full_startup, Ok s) \<and> listen_step\<^sup>*\<^sup>* (Listeners_bind (sy_server s)) t
     \<and> size (ln_http_open t) = 1 \<and> unat (cl_open (srv_connections (ln_server t))) = size (ln_http_open t) + size (ln_sni_open t)"
proof -
  let ?ip = "IpV4 (V4 10 0 0 1)"
  obtain s where s: "startup sample_platform sample_settings = (full_startup, Ok s)" using sample_started by blast
  let ?t = "http_turn (Accepted ?ip) (Listeners_bind (sy_server s))"
  have "listen_step (Listeners_bind (sy_server s)) ?t" by (rule listen_step.http) (simp add: Listeners_bind_def)
  then have r: "listen_step\<^sup>*\<^sup>* (Listeners_bind (sy_server s)) ?t" by blast
  have "size (ln_http_open ?t) = 1"
    by (simp add: Listeners_bind_def http_turn_def accept_turn_def http_admit_def accept_connection_def try_acquire_for_def claim_peer_def
        acquire_global_def compare_exchange_def with_per_peer_def MAX_CLIENT_CONNECTIONS_def started_server [OF s] sample_settings_def Let_def)
  then show ?thesis using s r started_system_within_limits [OF s r] by blast
qed

end
